(* ===== verification/Prelude.thy ===== *)
theory Prelude
  imports Main
begin

text \<open>
  The library every component shares: the error monad that stands for raised exceptions,
  traversals in it, three interfaces as locales (a codec whose decoder undoes its encoder, a transition
  system with an invariant, and the refinement of one such system by another), and the named collections
  of facts.
\<close>

named_theorems res_simps "equations of the error monad"
named_theorems ok_dest "what a successful operation says of its input"

section \<open>Results: a value or a raised exception\<close>

definition bindE :: "'e + 'a \<Rightarrow> ('a \<Rightarrow> 'e + 'b) \<Rightarrow> 'e + 'b" where
  "bindE m f = (case m of Inl e \<Rightarrow> Inl e | Inr a \<Rightarrow> f a)"

definition mapR :: "('a \<Rightarrow> 'b) \<Rightarrow> 'e + 'a \<Rightarrow> 'e + 'b" where
  "mapR f m = (case m of Inl e \<Rightarrow> Inl e | Inr a \<Rightarrow> Inr (f a))"

lemma bindE_Inl [simp, res_simps]: "bindE (Inl e) f = Inl e"
  by (simp add: bindE_def)

lemma bindE_Inr [simp, res_simps]: "bindE (Inr a) f = f a"
  by (simp add: bindE_def)

lemma mapR_Inl [simp, res_simps]: "mapR f (Inl e) = Inl e"
  by (simp add: mapR_def)

lemma mapR_Inr [simp, res_simps]: "mapR f (Inr a) = Inr (f a)"
  by (simp add: mapR_def)

text \<open>\<open>try\<close> and \<open>except\<close>: the handler sees the exception and may raise again.\<close>

definition catchE :: "'e + 'a \<Rightarrow> ('e \<Rightarrow> 'e + 'a) \<Rightarrow> 'e + 'a" where
  "catchE m h = (case m of Inl e \<Rightarrow> h e | Inr a \<Rightarrow> Inr a)"

lemma catchE_Inl [simp, res_simps]: "catchE (Inl e) h = h e"
  by (simp add: catchE_def)

lemma catchE_Inr [simp, res_simps]: "catchE (Inr a) h = Inr a"
  by (simp add: catchE_def)

lemma catchE_eq_Inr_iff: "catchE m h = Inr a \<longleftrightarrow> m = Inr a \<or> (\<exists>e. m = Inl e \<and> h e = Inr a)"
  by (cases m) simp_all

lemma catchE_eq_Inl_iff: "catchE m h = Inl e \<longleftrightarrow> (\<exists>e'. m = Inl e' \<and> h e' = Inl e)"
  by (cases m) simp_all

lemma bindE_eq_Inr_iff: "bindE m f = Inr b \<longleftrightarrow> (\<exists>a. m = Inr a \<and> f a = Inr b)"
  by (cases m) simp_all

lemma bindE_eq_Inl_iff: "bindE m f = Inl e \<longleftrightarrow> m = Inl e \<or> (\<exists>a. m = Inr a \<and> f a = Inl e)"
  by (cases m) simp_all

lemma mapR_eq_Inr_iff: "mapR f m = Inr b \<longleftrightarrow> (\<exists>a. m = Inr a \<and> b = f a)"
  by (cases m) auto

lemma mapR_eq_Inl_iff: "mapR f m = Inl e \<longleftrightarrow> m = Inl e"
  by (cases m) auto

lemmas res_iffs = bindE_eq_Inr_iff bindE_eq_Inl_iff mapR_eq_Inr_iff mapR_eq_Inl_iff
  catchE_eq_Inr_iff catchE_eq_Inl_iff

lemma bindE_assoc: "bindE (bindE m f) g = bindE m (\<lambda>x. bindE (f x) g)"
  by (cases m) simp_all

lemma bindE_split:
  "P (bindE m f) \<longleftrightarrow> (\<forall>e. m = Inl e \<longrightarrow> P (Inl e)) \<and> (\<forall>a. m = Inr a \<longrightarrow> P (f a))"
  by (cases m) simp_all

lemma bindE_split_asm:
  "P (bindE m f) \<longleftrightarrow> \<not> ((\<exists>e. m = Inl e \<and> \<not> P (Inl e)) \<or> (\<exists>a. m = Inr a \<and> \<not> P (f a)))"
  by (cases m) simp_all

lemmas bindE_splits = bindE_split bindE_split_asm

text \<open>A comprehension whose body may raise: left to right, the first failure wins.\<close>

fun mapE :: "('a \<Rightarrow> 'e + 'b) \<Rightarrow> 'a list \<Rightarrow> 'e + 'b list" where
  "mapE f [] = Inr []"
| "mapE f (x # xs) = bindE (f x) (\<lambda>y. bindE (mapE f xs) (\<lambda>ys. Inr (y # ys)))"

lemma mapE_Inr_iff: "mapE f xs = Inr ys \<longleftrightarrow> list_all2 (\<lambda>x y. f x = Inr y) xs ys"
  by (induction xs arbitrary: ys) (auto simp: res_iffs list_all2_Cons1)

lemma mapE_length [ok_dest]: "mapE f xs = Inr ys \<Longrightarrow> length ys = length xs"
  by (auto simp: mapE_Inr_iff dest: list_all2_lengthD)

lemma mapE_set: "mapE f xs = Inr ys \<Longrightarrow> y \<in> set ys \<Longrightarrow> \<exists>x \<in> set xs. f x = Inr y"
  by (induction xs arbitrary: ys) (auto simp: res_iffs)

lemma mapE_total: "(\<And>x. x \<in> set xs \<Longrightarrow> f x = Inr (g x)) \<Longrightarrow> mapE f xs = Inr (map g xs)"
  by (induction xs) auto

lemma mapE_Inl_ex: "mapE f xs = Inl e \<Longrightarrow> \<exists>x \<in> set xs. f x = Inl e"
  by (induction xs) (auto simp: res_iffs)

lemma mapE_cong [fundef_cong]:
  "xs = ys \<Longrightarrow> (\<And>x. x \<in> set ys \<Longrightarrow> f x = g x) \<Longrightarrow> mapE f xs = mapE g ys"
proof (induction ys arbitrary: xs)
  case Nil
  then show ?case by simp
next
  case (Cons y ys)
  then have "mapE f ys = mapE g ys" by simp
  with Cons.prems show ?case by simp
qed

lemma bindE_cong [fundef_cong]:
  "m = m' \<Longrightarrow> (\<And>a. m' = Inr a \<Longrightarrow> f a = g a) \<Longrightarrow> bindE m f = bindE m' g"
  by (cases m') simp_all

section \<open>Interface: a codec\<close>

text \<open>
  An encoder and a decoder that undoes it on every value that satisfies \<open>ok\<close>. Base64, the JSON
  text format, UTF-8 and the cursors are codecs; the laws below are proved once.
\<close>

locale codec =
  fixes enc :: "'a \<Rightarrow> 'b"
    and dec :: "'b \<Rightarrow> 'e + 'a"
    and ok :: "'a \<Rightarrow> bool"
  assumes dec_enc: "ok x \<Longrightarrow> dec (enc x) = Inr x"
begin

lemma enc_inj:
  assumes "ok x" "ok y" "enc x = enc y"
  shows "x = y"
proof -
  from assms have "Inr x = (Inr y :: 'e + 'a)"
    using dec_enc [of x] dec_enc [of y] by metis
  then show ?thesis by simp
qed

lemma dec_enc_list: "list_all ok xs \<Longrightarrow> mapE dec (map enc xs) = Inr xs"
  by (induction xs) (auto simp: dec_enc)

end

text \<open>Two codecs in sequence are a codec.\<close>

locale codec_pair = c1: codec enc1 dec1 ok1 + c2: codec enc2 dec2 ok2
  for enc1 :: "'a \<Rightarrow> 'b" and dec1 :: "'b \<Rightarrow> 'e + 'a" and ok1 :: "'a \<Rightarrow> bool"
    and enc2 :: "'b \<Rightarrow> 'c" and dec2 :: "'c \<Rightarrow> 'e + 'b" and ok2 :: "'b \<Rightarrow> bool" +
  assumes fits: "ok1 x \<Longrightarrow> ok2 (enc1 x)"
begin

lemma dec_enc_both: "ok1 x \<Longrightarrow> bindE (dec2 (enc2 (enc1 x))) dec1 = Inr x"
  by (simp add: fits c1.dec_enc c2.dec_enc)

end

sublocale codec_pair \<subseteq> both: codec "\<lambda>x. enc2 (enc1 x)" "\<lambda>y. bindE (dec2 y) dec1" ok1
  by unfold_locales (rule dec_enc_both)

section \<open>Interface: a transition system with an invariant\<close>

locale invariant_system =
  fixes start :: "'s \<Rightarrow> bool"
    and step :: "'s \<Rightarrow> 's \<Rightarrow> bool"
    and inv :: "'s \<Rightarrow> bool"
  assumes inv_start: "start s \<Longrightarrow> inv s"
    and inv_step: "inv s \<Longrightarrow> step s t \<Longrightarrow> inv t"
begin

lemma inv_steps: "step\<^sup>*\<^sup>* s t \<Longrightarrow> inv s \<Longrightarrow> inv t"
  by (induction rule: rtranclp_induct) (auto intro: inv_step)

lemma inv_reachable: "start s \<Longrightarrow> step\<^sup>*\<^sup>* s t \<Longrightarrow> inv t"
  by (blast intro: inv_start inv_steps)

end

section \<open>Interface: refinement of one transition system by another\<close>

text \<open>Every step of the concrete system is a step of the abstract one, seen through \<open>abs\<close>.\<close>

locale refinement = conc: invariant_system start step inv + abst: invariant_system astart astep ainv
  for start :: "'s \<Rightarrow> bool" and step :: "'s \<Rightarrow> 's \<Rightarrow> bool" and inv :: "'s \<Rightarrow> bool"
    and astart :: "'a \<Rightarrow> bool" and astep :: "'a \<Rightarrow> 'a \<Rightarrow> bool" and ainv :: "'a \<Rightarrow> bool" +
  fixes abs_of :: "'s \<Rightarrow> 'a"
  assumes sim_start: "start s \<Longrightarrow> astart (abs_of s)"
    and sim_step: "inv s \<Longrightarrow> ainv (abs_of s) \<Longrightarrow> step s t \<Longrightarrow> astep (abs_of s) (abs_of t)"
begin

lemma sim_steps:
  "step\<^sup>*\<^sup>* s t \<Longrightarrow> inv s \<Longrightarrow> ainv (abs_of s) \<Longrightarrow> inv t \<and> ainv (abs_of t) \<and> astep\<^sup>*\<^sup>* (abs_of s) (abs_of t)"
proof (induction rule: rtranclp_induct)
  case base
  then show ?case by simp
next
  case (step t u)
  then have t: "inv t" "ainv (abs_of t)" "astep\<^sup>*\<^sup>* (abs_of s) (abs_of t)" by simp_all
  have u: "astep (abs_of t) (abs_of u)" using t step.hyps(2) by (blast intro: sim_step)
  show ?case
    using conc.inv_step [OF t(1) step.hyps(2)] abst.inv_step [OF t(2) u] t(3) u by (meson rtranclp.rtrancl_into_rtrancl)
qed

lemma abs_inv: "start s \<Longrightarrow> step\<^sup>*\<^sup>* s t \<Longrightarrow> ainv (abs_of t)"
  using sim_steps [of s t] conc.inv_start abst.inv_start sim_start by blast

end

end
