(* ===== verification/PyText.thy ===== *)
theory PyText
  imports Prelude
begin

text \<open>
  The part of Python's \<open>str\<close> and \<open>int\<close> the program uses. A string is a list of characters whose
  code points lie below 256; on those, every operation here is Python's (case mapping, white
  space, splitting, decimal and hexadecimal numerals).
\<close>

section \<open>Characters and strings\<close>

abbreviation cp :: "char \<Rightarrow> nat" where
  "cp c \<equiv> of_char c"

definition lower_char :: "char \<Rightarrow> char" where
  "lower_char c = (let n = cp c in
     if (65 \<le> n \<and> n \<le> 90) \<or> (192 \<le> n \<and> n \<le> 222 \<and> n \<noteq> 215) then char_of (n + 32) else c)"

definition lower :: "string \<Rightarrow> string" where
  "lower s = map lower_char s"

definition is_space :: "char \<Rightarrow> bool" where
  "is_space c = (let n = cp c in (9 \<le> n \<and> n \<le> 13) \<or> (28 \<le> n \<and> n \<le> 32) \<or> n = 133 \<or> n = 160)"

definition strip :: "string \<Rightarrow> string" where
  "strip s = rev (dropWhile is_space (rev (dropWhile is_space s)))"

fun split_on :: "char \<Rightarrow> string \<Rightarrow> string list" where
  "split_on c [] = [[]]"
| "split_on c (x # xs) =
     (if x = c then [] # split_on c xs
      else (case split_on c xs of [] \<Rightarrow> [[x]] | p # ps \<Rightarrow> (x # p) # ps))"

text \<open>\<open>s.partition(c)\<close>, the text before and after the first separator, and \<open>s.rpartition(c)\<close>.\<close>

definition partition_on :: "char \<Rightarrow> string \<Rightarrow> string \<times> string" where
  "partition_on c s = (takeWhile (\<lambda>x. x \<noteq> c) s, drop 1 (dropWhile (\<lambda>x. x \<noteq> c) s))"

definition rpartition_on :: "char \<Rightarrow> string \<Rightarrow> string \<times> string" where
  "rpartition_on c s =
     (if c \<in> set s
      then (rev (drop 1 (dropWhile (\<lambda>x. x \<noteq> c) (rev s))), rev (takeWhile (\<lambda>x. x \<noteq> c) (rev s)))
      else ([], s))"

fun startswith :: "string \<Rightarrow> string \<Rightarrow> bool" where
  "startswith s [] = True"
| "startswith [] (p # ps) = False"
| "startswith (x # xs) (p # ps) = (x = p \<and> startswith xs ps)"

definition endswith :: "string \<Rightarrow> string \<Rightarrow> bool" where
  "endswith s p = startswith (rev s) (rev p)"

text \<open>\<open>p in s\<close> for strings.\<close>

fun occurs_in :: "string \<Rightarrow> string \<Rightarrow> bool" where
  "occurs_in p [] = (p = [])"
| "occurs_in p (x # xs) = (startswith (x # xs) p \<or> occurs_in p xs)"

fun join :: "string \<Rightarrow> string list \<Rightarrow> string" where
  "join sep [] = []"
| "join sep [x] = x"
| "join sep (x # y # ys) = x @ sep @ join sep (y # ys)"

lemma startswith_iff: "startswith s p \<longleftrightarrow> (\<exists>t. s = p @ t)"
  by (induction s p rule: startswith.induct) auto

lemma startswith_append [simp]: "startswith (p @ t) p"
  by (auto simp: startswith_iff)

lemma endswith_iff: "endswith s p \<longleftrightarrow> (\<exists>t. s = t @ p)"
proof
  assume "endswith s p"
  then obtain t where "rev s = rev p @ t" by (auto simp: endswith_def startswith_iff)
  then have "s = rev t @ p" by (metis rev_append rev_rev_ident)
  then show "\<exists>t. s = t @ p" ..
next
  assume "\<exists>t. s = t @ p"
  then show "endswith s p" by (auto simp: endswith_def)
qed

lemma occurs_in_iff: "occurs_in p s \<longleftrightarrow> (\<exists>a b. s = a @ p @ b)"
proof (induction s)
  case Nil
  then show ?case by auto
next
  case (Cons x xs)
  show ?case
  proof
    assume "occurs_in p (x # xs)"
    then show "\<exists>a b. x # xs = a @ p @ b"
      by (metis Cons.IH append_Cons append_Nil occurs_in.simps(2) startswith_iff)
  next
    assume "\<exists>a b. x # xs = a @ p @ b"
    then obtain a b where ab: "x # xs = a @ p @ b" by blast
    then show "occurs_in p (x # xs)"
    proof (cases a)
      case Nil
      with ab show ?thesis by (metis append_Nil occurs_in.simps(2) startswith_append)
    next
      case (Cons y ys)
      with ab have "xs = ys @ p @ b" by simp
      with Cons.IH show ?thesis by auto
    qed
  qed
qed

lemma cp_less: "cp c < 256"
  by simp

lemma cp_char_of [simp]: "n < 256 \<Longrightarrow> cp (char_of n) = n"
  by simp

lemma lower_char_idem [simp]: "lower_char (lower_char c) = lower_char c"
  using cp_less [of c] by (auto simp: lower_char_def Let_def)

lemma lower_idem [simp]: "lower (lower s) = lower s"
  by (simp add: lower_def)

lemma length_lower [simp]: "length (lower s) = length s"
  by (simp add: lower_def)

lemma lower_Nil [simp]: "lower [] = []"
  by (simp add: lower_def)

lemma lower_eq_Nil [simp]: "lower s = [] \<longleftrightarrow> s = []"
  by (simp add: lower_def)

lemma lower_Cons [simp]: "lower (c # s) = lower_char c # lower s"
  by (simp add: lower_def)

lemma lower_append [simp]: "lower (s @ t) = lower s @ lower t"
  by (simp add: lower_def)

lemma split_on_nonempty [simp]: "split_on c s \<noteq> []"
  by (induction s) (auto split: list.splits)

lemma split_on_no_sep: "p \<in> set (split_on c s) \<Longrightarrow> c \<notin> set p"
proof (induction s arbitrary: p)
  case Nil
  then show ?case by simp
next
  case (Cons x xs)
  show ?case
  proof (cases "x = c")
    case True
    with Cons show ?thesis by auto
  next
    case False
    obtain q qs where q: "split_on c xs = q # qs"
      by (cases "split_on c xs") auto
    with Cons.prems False have "p = x # q \<or> p \<in> set qs" by auto
    moreover have "c \<notin> set q" "\<And>r. r \<in> set qs \<Longrightarrow> c \<notin> set r"
      using Cons.IH q by auto
    ultimately show ?thesis using False by auto
  qed
qed

lemma join_split_on: "join [c] (split_on c s) = s"
proof (induction s)
  case Nil
  then show ?case by simp
next
  case (Cons x xs)
  obtain q qs where q: "split_on c xs = q # qs"
    by (cases "split_on c xs") auto
  show ?case
  proof (cases qs)
    case Nil
    with Cons q show ?thesis by auto
  next
    case (Cons r rs)
    with \<open>join [c] (split_on c xs) = xs\<close> q show ?thesis by auto
  qed
qed

section \<open>Digits and numerals\<close>

definition is_dec_digit :: "char \<Rightarrow> bool" where
  "is_dec_digit c = (48 \<le> cp c \<and> cp c \<le> 57)"

definition is_hex_digit :: "char \<Rightarrow> bool" where
  "is_hex_digit c = (let n = cp c in
     (48 \<le> n \<and> n \<le> 57) \<or> (97 \<le> n \<and> n \<le> 102) \<or> (65 \<le> n \<and> n \<le> 70))"

definition digit_val :: "char \<Rightarrow> nat" where
  "digit_val c = (let n = cp c in
     if 48 \<le> n \<and> n \<le> 57 then n - 48
     else if 97 \<le> n \<and> n \<le> 102 then n - 87
     else if 65 \<le> n \<and> n \<le> 70 then n - 55 else 0)"

definition digit_char :: "nat \<Rightarrow> char" where
  "digit_char d = (if d < 10 then char_of (48 + d) else char_of (87 + d))"

fun digits_of :: "nat \<Rightarrow> nat \<Rightarrow> nat list" where
  "digits_of b n = (if b < 2 \<or> n < b then [n] else digits_of b (n div b) @ [n mod b])"

declare digits_of.simps [simp del]

definition value_of :: "nat \<Rightarrow> nat list \<Rightarrow> nat" where
  "value_of b ds = foldl (\<lambda>a d. b * a + d) 0 ds"

text \<open>\<open>f"{n:x}"\<close> and \<open>str(n)\<close> of a natural number; \<open>int(s, b)\<close> of a string of digits.\<close>

definition show_hex :: "nat \<Rightarrow> string" where
  "show_hex n = map digit_char (digits_of 16 n)"

definition show_dec :: "nat \<Rightarrow> string" where
  "show_dec n = map digit_char (digits_of 10 n)"

definition read_digits :: "nat \<Rightarrow> string \<Rightarrow> nat" where
  "read_digits b s = value_of b (map digit_val s)"

lemma value_of_Nil [simp]: "value_of b [] = 0"
  by (simp add: value_of_def)

lemma value_of_snoc [simp]: "value_of b (ds @ [d]) = b * value_of b ds + d"
  by (simp add: value_of_def)

lemma digits_of_small: "n < b \<Longrightarrow> digits_of b n = [n]"
  by (simp add: digits_of.simps)

lemma digits_of_big: "2 \<le> b \<Longrightarrow> b \<le> n \<Longrightarrow> digits_of b n = digits_of b (n div b) @ [n mod b]"
  by (subst digits_of.simps) simp

lemma digits_of_nonempty [simp]: "digits_of b n \<noteq> []"
  by (subst digits_of.simps) simp

lemma value_digits_of: "value_of b (digits_of b n) = n"
proof (induction b n rule: digits_of.induct)
  case (1 b n)
  show ?case
  proof (cases "b < 2 \<or> n < b")
    case True
    then show ?thesis by (subst digits_of.simps) (simp add: value_of_def)
  next
    case False
    with "1.IH" show ?thesis by (simp add: digits_of_big)
  qed
qed

lemma digits_of_lt: "2 \<le> b \<Longrightarrow> d \<in> set (digits_of b n) \<Longrightarrow> d < b"
proof (induction b n arbitrary: d rule: digits_of.induct)
  case (1 b n)
  show ?case
  proof (cases "n < b")
    case True
    with "1.prems" show ?thesis by (simp add: digits_of_small)
  next
    case False
    with "1.prems" have "d \<in> set (digits_of b (n div b)) \<or> d = n mod b"
      by (auto simp: digits_of_big)
    then show ?thesis
    proof
      assume "d \<in> set (digits_of b (n div b))"
      with "1.IH" "1.prems"(1) False show ?thesis by simp
    next
      assume "d = n mod b"
      with "1.prems"(1) show ?thesis by simp
    qed
  qed
qed

lemma digits_of_hd: "2 \<le> b \<Longrightarrow> 0 < n \<Longrightarrow> hd (digits_of b n) \<noteq> 0"
proof (induction b n rule: digits_of.induct)
  case (1 b n)
  show ?case
  proof (cases "n < b")
    case True
    with "1.prems" show ?thesis by (simp add: digits_of_small)
  next
    case False
    with "1.prems" have "0 < n div b" by (simp add: div_greater_zero_iff)
    with "1.IH" "1.prems"(1) False show ?thesis by (simp add: digits_of_big)
  qed
qed

lemma digit_val_char [simp]: "d < 16 \<Longrightarrow> digit_val (digit_char d) = d"
  by (auto simp: digit_val_def digit_char_def Let_def)

lemma digit_char_dec [simp]: "d < 10 \<Longrightarrow> is_dec_digit (digit_char d)"
  by (auto simp: is_dec_digit_def digit_char_def)

lemma digit_char_hex [simp]: "d < 16 \<Longrightarrow> is_hex_digit (digit_char d)"
  by (auto simp: is_hex_digit_def digit_char_def Let_def)

lemma dec_imp_hex: "is_dec_digit c \<Longrightarrow> is_hex_digit c"
  by (simp add: is_dec_digit_def is_hex_digit_def Let_def)

lemma lower_digit_char [simp]: "d < 16 \<Longrightarrow> lower_char (digit_char d) = digit_char d"
  by (auto simp: lower_char_def digit_char_def Let_def)

lemma is_hex_lower [simp]: "is_hex_digit (lower_char c) = is_hex_digit c"
  using cp_less [of c] by (auto simp: is_hex_digit_def lower_char_def Let_def)

lemma digit_val_lower [simp]: "is_hex_digit c \<Longrightarrow> digit_val (lower_char c) = digit_val c"
  using cp_less [of c] by (auto simp: is_hex_digit_def digit_val_def lower_char_def Let_def)

lemma digit_val_lt_16 [simp]: "digit_val c < 16"
  by (auto simp: digit_val_def Let_def)

lemma list_all_hex_lower [simp]: "list_all is_hex_digit (lower s) = list_all is_hex_digit s"
  by (simp add: lower_def list_all_length)

lemma read_digits_lower: "list_all is_hex_digit s \<Longrightarrow> read_digits b (lower s) = read_digits b s"
proof -
  assume "list_all is_hex_digit s"
  then have "map digit_val (lower s) = map digit_val s"
    by (auto simp: lower_def list_all_iff)
  then show ?thesis by (simp add: read_digits_def)
qed

lemma read_show_hex [simp]: "read_digits 16 (show_hex n) = n"
proof -
  have "map digit_val (map digit_char (digits_of 16 n)) = digits_of 16 n"
    using digits_of_lt [of 16 _ n] by (auto intro!: map_idI)
  then show ?thesis by (simp add: read_digits_def show_hex_def value_digits_of)
qed

lemma read_show_dec [simp]: "read_digits 10 (show_dec n) = n"
proof -
  have "map digit_val (map digit_char (digits_of 10 n)) = digits_of 10 n"
    using digits_of_lt [of 10 _ n] by (fastforce intro!: map_idI)
  then show ?thesis by (simp add: read_digits_def show_dec_def value_digits_of)
qed

lemma show_hex_digits [simp]: "list_all is_hex_digit (show_hex n)"
  using digits_of_lt [of 16 _ n] by (auto simp: show_hex_def list_all_iff)

lemma show_dec_digits [simp]: "list_all is_dec_digit (show_dec n)"
  using digits_of_lt [of 10 _ n] by (auto simp: show_dec_def list_all_iff)

lemma lower_show_hex [simp]: "lower (show_hex n) = show_hex n"
  using digits_of_lt [of 16 _ n] by (auto simp: show_hex_def lower_def)

lemma show_hex_nonempty [simp]: "show_hex n \<noteq> []"
  by (simp add: show_hex_def)

lemma show_dec_nonempty [simp]: "show_dec n \<noteq> []"
  by (simp add: show_dec_def)

lemma show_dec_inj: "show_dec m = show_dec n \<Longrightarrow> m = n"
  by (metis read_show_dec)

lemma show_hex_inj: "show_hex m = show_hex n \<Longrightarrow> m = n"
  by (metis read_show_hex)

end
