(* ===== verification/PyValue.thy ===== *)
theory PyValue
  imports PyText
begin

text \<open>
  Python values as the program sees them: decoded JSON, the exceptions the code raises or
  catches, \<open>int()\<close>, \<open>str()\<close>, \<open>repr()\<close> and the dictionary operations. A dictionary is the list of
  its items in insertion order; a float is a numeral that denotes it.
\<close>

section \<open>JSON values\<close>

text \<open>
  \<open>JUni\<close> is a string with a code point beyond 255, given by its code points: only the decoding of
  UTF-8 bytes and of JSON escapes yields one.
\<close>

datatype json =
    JNull
  | JBool bool
  | JInt int
  | JFloat string
  | JStr string
  | JUni "nat list"
  | JList "json list"
  | JObj "(string \<times> json) list"

type_synonym dict = "(string \<times> json) list"

text \<open>The exceptions, by class; the payload is what the code reads of them.\<close>

datatype exn =
    ValueError string
  | EncodingError string
  | BlockIdError string
  | CursorError string
  | ConfigError string
  | DelegationError string
  | JSONDecodeError string
  | UnicodeDecodeError
  | KeyError string
  | TypeError
  | AttributeError
  | AssertionError
  | OverflowError
  | UpstreamError string
  | UpstreamJsonRpcError int string json
  | TimeoutError
  | UpstreamWsClosed string
  | UpstreamWsJsonRpcError int string json
  | SubscriptionUnavailable string
  | HTTPNotFound
  | HTTPException int
  | ConnectionResetError
  | CancelledError

type_synonym 'a res = "exn + 'a"

text \<open>What \<open>except ValueError\<close> catches: the class and its subclasses.\<close>

fun is_value_error :: "exn \<Rightarrow> bool" where
  "is_value_error (ValueError _) = True"
| "is_value_error (EncodingError _) = True"
| "is_value_error (BlockIdError _) = True"
| "is_value_error (CursorError _) = True"
| "is_value_error (ConfigError _) = True"
| "is_value_error (DelegationError _) = True"
| "is_value_error (JSONDecodeError _) = True"
| "is_value_error UnicodeDecodeError = True"
| "is_value_error _ = False"

fun is_key_error :: "exn \<Rightarrow> bool" where
  "is_key_error (KeyError _) = True"
| "is_key_error _ = False"

section \<open>Dictionaries in insertion order\<close>

abbreviation dget :: "'k \<Rightarrow> ('k \<times> 'v) list \<Rightarrow> 'v option" where
  "dget k d \<equiv> map_of d k"

definition dhas :: "'k \<Rightarrow> ('k \<times> 'v) list \<Rightarrow> bool" where
  "dhas k d = (dget k d \<noteq> None)"

fun dset :: "'k \<Rightarrow> 'v \<Rightarrow> ('k \<times> 'v) list \<Rightarrow> ('k \<times> 'v) list" where
  "dset k v [] = [(k, v)]"
| "dset k v ((k', v') # d) = (if k' = k then (k, v) # d else (k', v') # dset k v d)"

definition ddel :: "'k \<Rightarrow> ('k \<times> 'v) list \<Rightarrow> ('k \<times> 'v) list" where
  "ddel k d = filter (\<lambda>(k', v). k' \<noteq> k) d"

definition dwf :: "('k \<times> 'v) list \<Rightarrow> bool" where
  "dwf d = distinct (map fst d)"

text \<open>The contract the rest of the program relies on, and its proof for these dictionaries.\<close>

locale dictionary =
  fixes get :: "'k \<Rightarrow> 'd \<Rightarrow> 'v option"
    and put :: "'k \<Rightarrow> 'v \<Rightarrow> 'd \<Rightarrow> 'd"
    and del :: "'k \<Rightarrow> 'd \<Rightarrow> 'd"
    and wfd :: "'d \<Rightarrow> bool"
  assumes get_set: "get k (put k' v d) = (if k = k' then Some v else get k d)"
    and get_del: "get k (del k' d) = (if k = k' then None else get k d)"
    and wf_set: "wfd d \<Longrightarrow> wfd (put k v d)"
    and wf_del: "wfd d \<Longrightarrow> wfd (del k d)"
begin

lemma get_set_same: "get k (put k v d) = Some v"
  by (simp add: get_set)

lemma get_set_other: "k \<noteq> k' \<Longrightarrow> get k (put k' v d) = get k d"
  by (simp add: get_set)

lemma get_del_same: "get k (del k d) = None"
  by (simp add: get_del)

lemma get_set_del: "get k (put k' v (del k' d)) = get k (put k' v d)"
  by (simp add: get_set get_del)

end

lemma map_of_dset: "map_of (dset k v d) = (map_of d)(k \<mapsto> v)"
  by (induction d) auto

lemma map_of_ddel: "map_of (ddel k d) = (map_of d)(k := None)"
  by (induction d) (auto simp: ddel_def)

lemma fst_dset: "fst ` set (dset k v d) = insert k (fst ` set d)"
proof (induction d)
  case Nil
  then show ?case by simp
next
  case (Cons p d)
  then show ?case by (cases p) (simp add: insert_commute)
qed

lemma dwf_dset: "dwf d \<Longrightarrow> dwf (dset k v d)"
proof (induction d)
  case Nil
  then show ?case by (simp add: dwf_def)
next
  case (Cons p d)
  obtain k' v' where "p = (k', v')" by (cases p)
  with Cons show ?case by (auto simp: dwf_def fst_dset)
qed

lemma dwf_ddel: "dwf d \<Longrightarrow> dwf (ddel k d)"
  by (simp add: dwf_def ddel_def distinct_map_filter)

interpretation dict: dictionary "\<lambda>k d. map_of d k" dset ddel dwf
  by unfold_locales (auto simp: map_of_dset map_of_ddel dwf_dset dwf_ddel)

lemmas dict_laws [simp] = dict.get_set dict.get_del

lemma dhas_dset [simp]: "dhas k (dset k' v d) = (k = k' \<or> dhas k d)"
  by (auto simp: dhas_def)

lemma dhas_iff: "dhas k d \<longleftrightarrow> k \<in> fst ` set d"
  by (simp add: dhas_def map_of_eq_None_iff)

lemma dset_fresh: "\<not> dhas k d \<Longrightarrow> dset k v d = d @ [(k, v)]"
  by (induction d) (auto simp: dhas_def split: if_splits)

section \<open>Integers\<close>

text \<open>
  \<open>int(s)\<close> on a string: white space is stripped, a sign and single underscores between digits are
  allowed, and more than 4300 digits are refused. \<open>str(n)\<close> refuses the same numbers.
\<close>

definition max_str_digits :: nat where
  "max_str_digits = 4300"

definition int_parts :: "string \<Rightarrow> bool \<times> string list" where
  "int_parts s =
     (let t = strip s;
          neg = startswith t ''-'';
          body = (if neg \<or> startswith t ''+'' then drop 1 t else t)
      in (neg, split_on (CHR ''_'') body))"

definition all_dec :: "string \<Rightarrow> bool" where
  "all_dec s = (s \<noteq> [] \<and> list_all is_dec_digit s)"

definition int_limit_msg :: "nat \<Rightarrow> string" where
  "int_limit_msg n = ''Exceeds the limit (4300 digits) for integer string conversion: value has ''
     @ show_dec n @ '' digits; use sys.set_int_max_str_digits() to increase the limit''"

definition show_int :: "int \<Rightarrow> string" where
  "show_int i = (if i < 0 then CHR ''-'' # show_dec (nat (- i)) else show_dec (nat i))"

definition show_int_hex :: "int \<Rightarrow> string" where
  "show_int_hex i =
     (if i < 0 then CHR ''-'' # show_hex (nat (- i)) else show_hex (nat i))"

definition str_of_int :: "int \<Rightarrow> string res" where
  "str_of_int i =
     (if max_str_digits < length (show_dec (nat \<bar>i\<bar>))
      then Inl (ValueError (''Exceeds the limit (4300 digits) for integer string conversion''
             @ ''; use sys.set_int_max_str_digits() to increase the limit''))
      else Inr (show_int i))"

section \<open>repr\<close>

definition printable :: "char \<Rightarrow> bool" where
  "printable c = (let n = cp c in (32 \<le> n \<and> n \<le> 126) \<or> (161 \<le> n \<and> n \<noteq> 173))"

definition hex2 :: "nat \<Rightarrow> string" where
  "hex2 n = [digit_char (n div 16 mod 16), digit_char (n mod 16)]"

definition hex4 :: "nat \<Rightarrow> string" where
  "hex4 n = hex2 (n div 256) @ hex2 n"

definition repr_char :: "char \<Rightarrow> char \<Rightarrow> string" where
  "repr_char q c =
     (if c = q \<or> cp c = 92 then [char_of (92::nat), c]
      else if cp c = 9 then [char_of (92::nat), CHR ''t'']
      else if cp c = 10 then [char_of (92::nat), CHR ''n'']
      else if cp c = 13 then [char_of (92::nat), CHR ''r'']
      else if printable c then [c]
      else [char_of (92::nat), CHR ''x''] @ hex2 (cp c))"

text \<open>The quote is the apostrophe (39) unless the text holds one and no double quote (34).\<close>

definition repr_str :: "string \<Rightarrow> string" where
  "repr_str s =
     (let q = (if char_of (39::nat) \<in> set s \<and> char_of (34::nat) \<notin> set s
               then char_of (34::nat) else char_of (39::nat))
      in [q] @ concat (map (repr_char q) s) @ [q])"

text \<open>
  A code point beyond 255 is shown by its escape (Python shows a printable one as itself, which no
  string of this model can hold).
\<close>

definition repr_uni :: "nat list \<Rightarrow> string" where
  "repr_uni u = [char_of (39::nat)] @ concat (map (\<lambda>n.
       if n < 256 then repr_char (char_of (39::nat)) (char_of n)
       else if n < 65536 then [char_of (92::nat), CHR ''u''] @ hex4 n
       else [char_of (92::nat), CHR ''U''] @ hex4 (n div 65536) @ hex4 n) u)
     @ [char_of (39::nat)]"

fun py_repr :: "json \<Rightarrow> string" where
  "py_repr JNull = ''None''"
| "py_repr (JBool b) = (if b then ''True'' else ''False'')"
| "py_repr (JInt i) = show_int i"
| "py_repr (JFloat s) = s"
| "py_repr (JStr s) = repr_str s"
| "py_repr (JUni u) = repr_uni u"
| "py_repr (JList xs) = ''['' @ join '', '' (map py_repr xs) @ '']''"
| "py_repr (JObj d) = ''{'' @ join '', '' (map (\<lambda>(k, v). repr_str k @ '': '' @ py_repr v) d) @ ''}''"

text \<open>\<open>int(s)\<close>: the two failures carry Python's messages.\<close>

definition int_of_str :: "string \<Rightarrow> int res" where
  "int_of_str s =
     (let (neg, parts) = int_parts s; ds = concat parts in
      if list_all all_dec parts then
        (if max_str_digits < length ds then Inl (ValueError (int_limit_msg (length ds)))
         else Inr (if neg then - int (read_digits 10 ds) else int (read_digits 10 ds)))
      else Inl (ValueError (''invalid literal for int() with base 10: '' @ repr_str s)))"

text \<open>\<open>str(e)\<close> of an exception, as the handlers put it into a problem's detail.\<close>

fun exn_str :: "exn \<Rightarrow> string" where
  "exn_str (ValueError m) = m"
| "exn_str (EncodingError m) = m"
| "exn_str (BlockIdError m) = m"
| "exn_str (CursorError m) = m"
| "exn_str (ConfigError m) = m"
| "exn_str (DelegationError m) = m"
| "exn_str (JSONDecodeError m) = m"
| "exn_str (KeyError k) = repr_str k"
| "exn_str (UpstreamError m) = m"
| "exn_str (UpstreamJsonRpcError c m d) = ''jsonrpc error '' @ show_int c @ '': '' @ m"
| "exn_str (UpstreamWsClosed m) = m"
| "exn_str (UpstreamWsJsonRpcError c m d) = ''jsonrpc error '' @ show_int c @ '': '' @ m"
| "exn_str (SubscriptionUnavailable m) = m"
| "exn_str _ = []"

section \<open>Dynamically typed operations\<close>

text \<open>A float is zero when its mantissa has no digit but 0.\<close>

definition truthy_float :: "string \<Rightarrow> bool" where
  "truthy_float s =
     (\<not> list_all (\<lambda>c. c \<in> set ''-0.'') (takeWhile (\<lambda>c. c \<noteq> CHR ''e'' \<and> c \<noteq> CHR ''E'') s))"

fun truthy :: "json \<Rightarrow> bool" where
  "truthy JNull = False"
| "truthy (JBool b) = b"
| "truthy (JInt i) = (i \<noteq> 0)"
| "truthy (JFloat s) = truthy_float s"
| "truthy (JStr s) = (s \<noteq> [])"
| "truthy (JUni u) = (u \<noteq> [])"
| "truthy (JList xs) = (xs \<noteq> [])"
| "truthy (JObj d) = (d \<noteq> [])"

fun is_str :: "json \<Rightarrow> bool" where
  "is_str (JStr _) = True"
| "is_str (JUni _) = True"
| "is_str _ = False"

fun is_dict :: "json \<Rightarrow> bool" where
  "is_dict (JObj _) = True"
| "is_dict _ = False"

fun is_list :: "json \<Rightarrow> bool" where
  "is_list (JList _) = True"
| "is_list _ = False"

text \<open>\<open>v[k]\<close> and \<open>v.get(k)\<close> for a string key, \<open>k in v\<close>, iteration, \<open>v.lower()\<close>.\<close>

fun jindex :: "string \<Rightarrow> json \<Rightarrow> json res" where
  "jindex k (JObj d) = (case dget k d of None \<Rightarrow> Inl (KeyError k) | Some v \<Rightarrow> Inr v)"
| "jindex k _ = Inl TypeError"

fun jget :: "string \<Rightarrow> json \<Rightarrow> json res" where
  "jget k (JObj d) = (case dget k d of None \<Rightarrow> Inr JNull | Some v \<Rightarrow> Inr v)"
| "jget k _ = Inl AttributeError"

definition jget_default :: "string \<Rightarrow> json \<Rightarrow> json \<Rightarrow> json res" where
  "jget_default k dflt v =
     (case v of JObj d \<Rightarrow> Inr (case dget k d of None \<Rightarrow> dflt | Some x \<Rightarrow> x)
      | _ \<Rightarrow> Inl AttributeError)"

fun jin :: "string \<Rightarrow> json \<Rightarrow> bool res" where
  "jin k (JObj d) = Inr (dhas k d)"
| "jin k (JList xs) = Inr (JStr k \<in> set xs)"
| "jin k (JStr s) = Inr (occurs_in k s)"
| "jin k (JUni u) = Inr (\<exists>i < length u. take (length k) (drop i u) = map of_char k)"
| "jin k _ = Inl TypeError"

definition mk_str :: "nat list \<Rightarrow> json" where
  "mk_str u = (if list_all (\<lambda>n. n < 256) u then JStr (map char_of u) else JUni u)"

fun jiter :: "json \<Rightarrow> json list res" where
  "jiter (JList xs) = Inr xs"
| "jiter (JObj d) = Inr (map (\<lambda>(k, v). JStr k) d)"
| "jiter (JStr s) = Inr (map (\<lambda>c. JStr [c]) s)"
| "jiter (JUni u) = Inr (map (\<lambda>n. mk_str [n]) u)"
| "jiter _ = Inl TypeError"

text \<open>Lower case of a code point beyond 255 is left out: such a code point is kept.\<close>

fun jlower :: "json \<Rightarrow> json res" where
  "jlower (JStr s) = Inr (JStr (lower s))"
| "jlower (JUni u) = Inr (JUni (map (\<lambda>n. if n < 256 then cp (lower_char (char_of n)) else n) u))"
| "jlower _ = Inl AttributeError"

fun as_str :: "json \<Rightarrow> string option" where
  "as_str (JStr s) = Some s"
| "as_str _ = None"

lemma jindex_Inr_iff: "jindex k v = Inr x \<longleftrightarrow> (\<exists>d. v = JObj d \<and> dget k d = Some x)"
  by (cases v) (auto split: option.splits)

lemma jget_Inr_iff:
  "jget k v = Inr x \<longleftrightarrow> (\<exists>d. v = JObj d \<and> (dget k d = Some x \<or> dget k d = None \<and> x = JNull))"
  by (cases v) (auto split: option.splits)

lemma jlower_JStr_iff: "jlower v = Inr (JStr t) \<longleftrightarrow> (\<exists>s. v = JStr s \<and> t = lower s)"
  by (cases v) auto

section \<open>Integers round trip\<close>

lemma dec_digit_not_space: "is_dec_digit c \<Longrightarrow> \<not> is_space c"
  by (auto simp: is_dec_digit_def is_space_def Let_def)

lemma dropWhile_none: "(\<And>x. x \<in> set xs \<Longrightarrow> \<not> P x) \<Longrightarrow> dropWhile P xs = xs"
  by (cases xs) auto

lemma strip_none: "(\<And>x. x \<in> set s \<Longrightarrow> \<not> is_space x) \<Longrightarrow> strip s = s"
proof -
  assume "\<And>x. x \<in> set s \<Longrightarrow> \<not> is_space x"
  then have "dropWhile is_space s = s" "dropWhile is_space (rev s) = rev s"
    by (auto intro!: dropWhile_none)
  then show ?thesis by (simp add: strip_def)
qed

lemma split_on_none: "c \<notin> set s \<Longrightarrow> split_on c s = [s]"
  by (induction s) auto

lemma dec_digit_facts: "is_dec_digit c \<Longrightarrow> c \<noteq> CHR ''-'' \<and> c \<noteq> CHR ''+'' \<and> c \<noteq> CHR ''_''"
  by (auto simp: is_dec_digit_def)

lemma int_parts_dec:
  assumes "all_dec s"
  shows "int_parts s = (False, [s])"
proof -
  have d: "is_dec_digit c" if "c \<in> set s" for c
    using assms that by (auto simp: all_dec_def list_all_iff)
  obtain c t where s: "s = c # t" using assms by (cases s) (auto simp: all_dec_def)
  have "strip s = s" using d dec_digit_not_space by (intro strip_none) blast
  moreover have "split_on (CHR ''_'') s = [s]"
    using d dec_digit_facts by (intro split_on_none) blast
  ultimately show ?thesis
    using d [of c] dec_digit_facts [of c] by (simp add: int_parts_def Let_def s)
qed

lemma int_of_str_dec:
  "all_dec s \<Longrightarrow> int_of_str s =
     (if max_str_digits < length s then Inl (ValueError (int_limit_msg (length s)))
      else Inr (int (read_digits 10 s)))"
  by (simp add: int_of_str_def int_parts_dec)

lemma all_dec_show [simp]: "all_dec (show_dec n)"
  by (simp add: all_dec_def)

lemma int_of_str_show_dec:
  "length (show_dec n) \<le> max_str_digits \<Longrightarrow> int_of_str (show_dec n) = Inr (int n)"
  by (simp add: int_of_str_dec)

lemma int_of_str_exn: "int_of_str s = Inl e \<Longrightarrow> \<exists>m. e = ValueError m"
  by (auto simp: int_of_str_def Let_def split: prod.splits if_splits)

end
