(* ===== verification/Encoding.thy ===== *)
theory Encoding
  imports PyValue
begin

text \<open>
  \<open>encoding.py\<close>: conversions between the JSON-RPC wire format and the REST shapes, the hexadecimal
  patterns the other modules match against, and \<open>delegation.py\<close>. The facts: quantities round
  trip, the accepted inputs are exactly the documented ones, addresses are normalised once, the
  two enumerations are one to one.
\<close>

section \<open>Patterns matched with fullmatch\<close>

text \<open>The digits after a \<open>0x\<close> prefix, when everything after it is a hexadecimal digit.\<close>

definition hex_body :: "string \<Rightarrow> string option" where
  "hex_body s =
     (if startswith s ''0x'' \<and> list_all is_hex_digit (drop 2 s) then Some (drop 2 s) else None)"

definition re_hex :: "string \<Rightarrow> bool" where
  "re_hex s = (case hex_body s of None \<Rightarrow> False | Some b \<Rightarrow> b \<noteq> [])"

definition re_hex_star :: "string \<Rightarrow> bool" where
  "re_hex_star s = (hex_body s \<noteq> None)"

definition re_hex_len :: "nat \<Rightarrow> string \<Rightarrow> bool" where
  "re_hex_len n s = (case hex_body s of None \<Rightarrow> False | Some b \<Rightarrow> length b = n)"

definition re_hex_upto :: "nat \<Rightarrow> string \<Rightarrow> bool" where
  "re_hex_upto n s = (case hex_body s of None \<Rightarrow> False | Some b \<Rightarrow> b \<noteq> [] \<and> length b \<le> n)"

definition re_hex_bytes :: "string \<Rightarrow> bool" where
  "re_hex_bytes s = (case hex_body s of None \<Rightarrow> False | Some b \<Rightarrow> even (length b))"

definition re_hex_bytes1 :: "string \<Rightarrow> bool" where
  "re_hex_bytes1 s = (case hex_body s of None \<Rightarrow> False | Some b \<Rightarrow> b \<noteq> [] \<and> even (length b))"

lemma hex_body_Some_iff: "hex_body s = Some b \<longleftrightarrow> s = ''0x'' @ b \<and> list_all is_hex_digit b"
  by (auto simp: hex_body_def startswith_iff)

lemma hex_body_prefix [simp]:
  "hex_body (CHR ''0'' # CHR ''x'' # b) = (if list_all is_hex_digit b then Some b else None)"
  by (simp add: hex_body_def)

lemma hex_body_lower: "hex_body s = Some b \<Longrightarrow> hex_body (lower s) = Some (lower b)"
proof -
  assume "hex_body s = Some b"
  then have "s = ''0x'' @ b" "list_all is_hex_digit b" by (auto simp: hex_body_Some_iff)
  moreover have "lower ''0x'' = ''0x''" by (simp add: lower_char_def)
  ultimately show ?thesis by (simp add: lower_char_def)
qed

lemmas re_hex_defs =
  re_hex_def re_hex_star_def re_hex_len_def re_hex_upto_def re_hex_bytes_def re_hex_bytes1_def

lemma re_hex_iff: "re_hex s \<longleftrightarrow> (\<exists>b. s = ''0x'' @ b \<and> b \<noteq> [] \<and> list_all is_hex_digit b)"
  by (auto simp: re_hex_def hex_body_Some_iff split: option.splits)

lemma re_hex_len_iff:
  "re_hex_len n s \<longleftrightarrow> (\<exists>b. s = ''0x'' @ b \<and> length b = n \<and> list_all is_hex_digit b)"
  by (auto simp: re_hex_len_def hex_body_Some_iff split: option.splits)

lemma re_hex_len_lower: "re_hex_len n s \<Longrightarrow> re_hex_len n (lower s)"
  by (auto simp: re_hex_len_def hex_body_lower split: option.splits)

lemma re_hex_bytes_lower: "re_hex_bytes s \<Longrightarrow> re_hex_bytes (lower s)"
  by (auto simp: re_hex_bytes_def hex_body_lower split: option.splits)

section \<open>Hexadecimal quantities and integers\<close>

definition hex_to_int :: "json \<Rightarrow> int res" where
  "hex_to_int v =
     (case v of
        JStr s \<Rightarrow>
          (if re_hex s then Inr (int (read_digits 16 (drop 2 s)))
           else Inl (EncodingError (''expected 0x-prefixed hex, got '' @ py_repr v)))
      | _ \<Rightarrow> Inl (EncodingError (''expected 0x-prefixed hex, got '' @ py_repr v)))"

definition coerce_rpc_int :: "json \<Rightarrow> int res" where
  "coerce_rpc_int v =
     (case v of
        JBool b \<Rightarrow> Inl (EncodingError (''bool is not an int: '' @ py_repr v))
      | JInt n \<Rightarrow>
          (if n < 0 then Inl (EncodingError (''expected non-negative int, got '' @ show_int n))
           else Inr n)
      | JStr s \<Rightarrow>
          (if re_hex s then Inr (int (read_digits 16 (drop 2 s)))
           else if all_dec s then int_of_str s
           else Inl (EncodingError (''expected int or hex/decimal string, got '' @ py_repr v)))
      | _ \<Rightarrow> Inl (EncodingError (''expected int or hex/decimal string, got '' @ py_repr v)))"

definition hex_quantity :: "nat \<Rightarrow> string" where
  "hex_quantity n = ''0x'' @ show_hex n"

definition decimal_to_hex :: "int \<Rightarrow> string res" where
  "decimal_to_hex n =
     (if n < 0 then Inl (EncodingError (''expected non-negative int, got '' @ show_int n))
      else Inr (hex_quantity (nat n)))"

section \<open>Wei\<close>

definition wei_from_rpc :: "json \<Rightarrow> string res" where
  "wei_from_rpc v = bindE (hex_to_int v) str_of_int"

fun type_name :: "json \<Rightarrow> string" where
  "type_name JNull = ''NoneType''"
| "type_name (JBool _) = ''bool''"
| "type_name (JInt _) = ''int''"
| "type_name (JFloat _) = ''float''"
| "type_name (JStr _) = ''str''"
| "type_name (JUni _) = ''str''"
| "type_name (JList _) = ''list''"
| "type_name (JObj _) = ''dict''"

definition wei_to_rpc :: "json \<Rightarrow> string res" where
  "wei_to_rpc v =
     (case v of
        JBool b \<Rightarrow> Inl (EncodingError (''bool is not a wei value: '' @ py_repr v))
      | JInt n \<Rightarrow>
          (if n < 0 then Inl (EncodingError (''wei must be non-negative, got '' @ show_int n))
           else Inr (hex_quantity (nat n)))
      | JStr s \<Rightarrow>
          (if \<not> all_dec s
           then Inl (EncodingError (''wei string must be decimal digits, got '' @ py_repr v))
           else mapR (\<lambda>n. hex_quantity (nat n)) (int_of_str s))
      | JUni u \<Rightarrow> Inl (EncodingError (''wei string must be decimal digits, got '' @ py_repr v))
      | _ \<Rightarrow> Inl (EncodingError (''wei must be int or decimal string, got '' @ type_name v)))"

section \<open>Lenient input\<close>

definition parse_input_int :: "json \<Rightarrow> int res" where
  "parse_input_int v =
     (case v of
        JBool b \<Rightarrow> Inl (EncodingError (''bool is not an int: '' @ py_repr v))
      | JInt n \<Rightarrow>
          (if n < 0 then Inl (EncodingError (''expected non-negative int, got '' @ show_int n))
           else Inr n)
      | JStr s \<Rightarrow>
          (if all_dec s then int_of_str s
           else Inl (EncodingError (''expected non-negative int or decimal string, got ''
                  @ py_repr v)))
      | _ \<Rightarrow> Inl (EncodingError (''expected non-negative int or decimal string, got ''
                  @ py_repr v)))"

definition parse_input_wei :: "json \<Rightarrow> int res" where
  "parse_input_wei v = parse_input_int v"

section \<open>Enumerations\<close>

definition status_rpc_to_rest :: "(string \<times> string) list" where
  "status_rpc_to_rest = [(''0x0'', ''failed''), (''0x1'', ''success'')]"

definition status_rest_to_rpc :: "(string \<times> string) list" where
  "status_rest_to_rpc = map (\<lambda>(k, v). (v, k)) status_rpc_to_rest"

definition tx_type_rpc_to_rest :: "(string \<times> string) list" where
  "tx_type_rpc_to_rest =
     [(''0x0'', ''legacy''), (''0x1'', ''access-list''), (''0x2'', ''dynamic-fee''),
      (''0x3'', ''blob'')]"

definition tx_type_rest_to_rpc :: "(string \<times> string) list" where
  "tx_type_rest_to_rpc = map (\<lambda>(k, v). (v, k)) tx_type_rpc_to_rest"

text \<open>Looking a list or a dictionary up in a dictionary raises \<open>TypeError\<close> (unhashable).\<close>

definition enum_lookup :: "string \<Rightarrow> (string \<times> string) list \<Rightarrow> json \<Rightarrow> string res" where
  "enum_lookup what table v =
     (case v of
        JStr s \<Rightarrow>
          (case dget s table of
             None \<Rightarrow> Inl (EncodingError (''unknown '' @ what @ '': '' @ py_repr v))
           | Some r \<Rightarrow> Inr r)
      | JList _ \<Rightarrow> Inl TypeError
      | JObj _ \<Rightarrow> Inl TypeError
      | _ \<Rightarrow> Inl (EncodingError (''unknown '' @ what @ '': '' @ py_repr v)))"

definition rest_status_from_rpc :: "json \<Rightarrow> string res" where
  "rest_status_from_rpc v = enum_lookup ''receipt status'' status_rpc_to_rest v"

definition rpc_status_from_rest :: "json \<Rightarrow> string res" where
  "rpc_status_from_rest v = enum_lookup ''receipt status'' status_rest_to_rpc v"

definition rest_tx_type_from_rpc :: "json \<Rightarrow> string res" where
  "rest_tx_type_from_rpc v = enum_lookup ''transaction type'' tx_type_rpc_to_rest v"

definition rpc_tx_type_from_rest :: "json \<Rightarrow> string res" where
  "rpc_tx_type_from_rest v = enum_lookup ''transaction type'' tx_type_rest_to_rpc v"

section \<open>Addresses\<close>

definition map_address_lowercase :: "json \<Rightarrow> string res" where
  "map_address_lowercase v =
     (case v of
        JStr s \<Rightarrow>
          (if re_hex_len 40 s then Inr (lower s)
           else Inl (EncodingError (''expected 0x-prefixed 20-byte address, got '' @ py_repr v)))
      | _ \<Rightarrow> Inl (EncodingError (''expected 0x-prefixed 20-byte address, got '' @ py_repr v)))"

section \<open>Delegation indicators (\<open>delegation.py\<close>)\<close>

definition detect_delegate :: "string \<Rightarrow> string option res" where
  "detect_delegate code_hex =
     (if \<not> re_hex_bytes code_hex
      then Inl (DelegationError (''expected 0x-prefixed even-length hex, got '' @ repr_str code_hex))
      else
        (let payload = lower (drop 2 code_hex) in
         if length payload \<noteq> 46 then Inr None
         else if \<not> startswith payload ''ef0100'' then Inr None
         else Inr (Some (''0x'' @ drop 6 payload))))"

section \<open>Facts\<close>

lemma hex_quantity_re: "re_hex (hex_quantity n)"
  by (auto simp: hex_quantity_def re_hex_iff)

lemma hex_to_int_quantity [simp]: "hex_to_int (JStr (hex_quantity n)) = Inr (int n)"
  using hex_quantity_re [of n] by (simp add: hex_to_int_def) (simp add: hex_quantity_def)

lemma hex_to_int_Inr_iff:
  "hex_to_int v = Inr n \<longleftrightarrow>
     (\<exists>b. v = JStr (''0x'' @ b) \<and> b \<noteq> [] \<and> list_all is_hex_digit b \<and> n = int (read_digits 16 b))"
  by (auto simp: hex_to_int_def re_hex_iff split: json.splits)

lemma hex_to_int_nonneg: "hex_to_int v = Inr n \<Longrightarrow> 0 \<le> n"
  by (auto simp: hex_to_int_Inr_iff)

lemma hex_to_int_exn: "hex_to_int v = Inl e \<Longrightarrow> \<exists>m. e = EncodingError m"
  by (auto simp: hex_to_int_def split: json.splits if_splits)

lemma hex_quantity_inj: "hex_quantity m = hex_quantity n \<Longrightarrow> m = n"
  by (auto simp: hex_quantity_def dest: show_hex_inj)

lemma decimal_to_hex_nat [simp]: "decimal_to_hex (int n) = Inr (hex_quantity n)"
  by (simp add: decimal_to_hex_def)

lemma parse_input_int_Inr_iff:
  "parse_input_int v = Inr n \<longleftrightarrow>
     (v = JInt n \<and> 0 \<le> n) \<or>
     (\<exists>s. v = JStr s \<and> all_dec s \<and> length s \<le> max_str_digits \<and> n = int (read_digits 10 s))"
  by (auto simp: parse_input_int_def int_of_str_dec split: json.splits if_splits)

lemma parse_input_int_exn: "parse_input_int v = Inl e \<Longrightarrow> is_value_error e"
  by (auto simp: parse_input_int_def dest!: int_of_str_exn split: json.splits if_splits)

lemma map_address_Inr_iff:
  "map_address_lowercase v = Inr a \<longleftrightarrow> (\<exists>s. v = JStr s \<and> re_hex_len 40 s \<and> a = lower s)"
  by (auto simp: map_address_lowercase_def split: json.splits)

lemma map_address_exn: "map_address_lowercase v = Inl e \<Longrightarrow> \<exists>m. e = EncodingError m"
  by (auto simp: map_address_lowercase_def split: json.splits if_splits)

lemma map_address_shape: "map_address_lowercase v = Inr a \<Longrightarrow> re_hex_len 40 a \<and> lower a = a"
  by (auto simp: map_address_Inr_iff re_hex_len_lower)

lemma map_address_idem:
  "map_address_lowercase v = Inr a \<Longrightarrow> map_address_lowercase (JStr a) = Inr a"
  by (auto simp: map_address_Inr_iff re_hex_len_lower)

lemma str_of_int_nat:
  "length (show_dec n) \<le> max_str_digits \<Longrightarrow> str_of_int (int n) = Inr (show_dec n)"
  by (simp add: str_of_int_def show_int_def)

interpretation quantity: codec "\<lambda>n. JStr (hex_quantity n)" "\<lambda>v. mapR nat (hex_to_int v)" "\<lambda>n. True"
  by unfold_locales simp

interpretation decimal: codec "\<lambda>n. JStr (show_dec n)" "\<lambda>v. mapR nat (parse_input_int v)"
  "\<lambda>n. length (show_dec n) \<le> max_str_digits"
  by unfold_locales (simp add: parse_input_int_def int_of_str_show_dec)

section \<open>Properties\<close>

lemma hex_quantity_minimal: "0 < n \<Longrightarrow> \<exists>d ds. hex_quantity n = ''0x'' @ digit_char d # ds \<and> 0 < d"
proof -
  assume "0 < n"
  then have hd: "hd (digits_of 16 n) \<noteq> 0" by (simp add: digits_of_hd)
  obtain d ds where "digits_of 16 n = d # ds" by (cases "digits_of 16 n") auto
  with hd show ?thesis by (auto simp: hex_quantity_def show_hex_def)
qed

text \<open>
  Quantities round trip. An integer sent to the upstream is refused exactly when it is negative;
  otherwise its hexadecimal form matches the quantity pattern, has no leading zero, and parses
  back to the integer; and no two integers share a form.
\<close>

lemma quantity_roundtrip:
  assumes "0 \<le> n"
  shows "\<exists>s. decimal_to_hex n = Inr s \<and> re_hex s \<and> hex_to_int (JStr s) = Inr n
    \<and> (n = 0 \<or> (\<exists>d ds. s = ''0x'' @ digit_char d # ds \<and> 0 < d))
    \<and> (\<forall>m. decimal_to_hex m = Inr s \<longrightarrow> m = n)"
proof -
  let ?s = "hex_quantity (nat n)"
  from assms have s: "decimal_to_hex n = Inr ?s" by (simp add: decimal_to_hex_def)
  moreover have "hex_to_int (JStr ?s) = Inr n" using assms by simp
  moreover have "n = 0 \<or> (\<exists>d ds. ?s = ''0x'' @ digit_char d # ds \<and> 0 < d)"
    using assms hex_quantity_minimal [of "nat n"] by (cases "n = 0") auto
  moreover have "\<forall>m. decimal_to_hex m = Inr ?s \<longrightarrow> m = n"
    using assms by (auto simp: decimal_to_hex_def dest: hex_quantity_inj split: if_splits)
  ultimately show ?thesis using hex_quantity_re by blast
qed

lemma quantity_roundtrip_witness:
  "\<exists>s. decimal_to_hex 4096 = Inr s \<and> re_hex s \<and> hex_to_int (JStr s) = Inr 4096
    \<and> ((4096::int) = 0 \<or> (\<exists>d ds. s = ''0x'' @ digit_char d # ds \<and> 0 < d))
    \<and> (\<forall>m. decimal_to_hex m = Inr s \<longrightarrow> m = 4096)"
  by (rule quantity_roundtrip) simp

text \<open>
  A wei amount the upstream reports as a hexadecimal quantity is shown as its decimal string,
  and that string, sent back by a client, is accepted, denotes the same amount and reaches the
  upstream as the canonical quantity.
\<close>

lemma wei_roundtrip:
  assumes "hex_to_int v = Inr n" and "length (show_dec (nat n)) \<le> max_str_digits"
  shows "wei_from_rpc v = Inr (show_dec (nat n))
    \<and> parse_input_wei (JStr (show_dec (nat n))) = Inr n
    \<and> wei_to_rpc (JStr (show_dec (nat n))) = decimal_to_hex n"
proof -
  from assms(1) have n0: "0 \<le> n" by (rule hex_to_int_nonneg)
  then have n: "int (nat n) = n" by simp
  have "wei_from_rpc v = Inr (show_dec (nat n))"
    using str_of_int_nat [OF assms(2)] n by (simp only: wei_from_rpc_def assms(1) bindE_Inr)
  moreover have "parse_input_wei (JStr (show_dec (nat n))) = Inr n"
    using assms(2) n0 by (simp add: parse_input_wei_def parse_input_int_def int_of_str_show_dec)
  moreover have "wei_to_rpc (JStr (show_dec (nat n))) = decimal_to_hex n"
    using assms(2) n0 by (simp add: wei_to_rpc_def int_of_str_show_dec decimal_to_hex_def)
  ultimately show ?thesis by blast
qed

lemma wei_roundtrip_witness:
  "wei_from_rpc (JStr ''0xDE0b6b3a7640000'') = Inr (show_dec (nat 1000000000000000000))
    \<and> parse_input_wei (JStr (show_dec (nat 1000000000000000000))) = Inr 1000000000000000000
    \<and> wei_to_rpc (JStr (show_dec (nat 1000000000000000000))) = decimal_to_hex 1000000000000000000"
  by (rule wei_roundtrip)
    (simp_all add: hex_to_int_def re_hex_def hex_body_def is_hex_digit_def read_digits_def
      value_of_def digit_val_def show_dec_def digits_of.simps max_str_digits_def)

text \<open>
  The lenient integer parser accepts exactly the non-negative JSON numbers and the strings of
  decimal digits that \<open>int\<close> converts; in particular no Boolean, no hexadecimal string, no sign,
  no white space. Everything it refuses is refused with a \<open>ValueError\<close>.
\<close>

lemma parse_input_int_spec:
  "(parse_input_int v = Inr n \<longleftrightarrow>
      (v = JInt n \<and> n \<ge> 0) \<or>
      (\<exists>s. v = JStr s \<and> all_dec s \<and> length s \<le> max_str_digits \<and> n = int (read_digits 10 s)))
   \<and> (\<forall>e. parse_input_int v = Inl e \<longrightarrow> is_value_error e)"
  by (auto simp: parse_input_int_Inr_iff parse_input_int_exn)

lemma parse_input_int_spec_witness:
  "parse_input_int (JStr ''0042'') = Inr 42 \<and> parse_input_int (JBool True) \<noteq> Inr 1"
  using parse_input_int_spec [of "JStr ''0042''" 42] parse_input_int_spec [of "JBool True" 1]
  by (auto simp: all_dec_def is_dec_digit_def max_str_digits_def read_digits_def value_of_def
      digit_val_def)

text \<open>
  Addresses are normalised: an accepted address is 20 bytes of hexadecimal digits after \<open>0x\<close>,
  its normal form differs from it in letter case only, is again an address, and is its own
  normal form, so two spellings of one address have one normal form.
\<close>

lemma address_normal_form:
  assumes "map_address_lowercase (JStr s) = Inr a"
  shows "re_hex_len 40 s \<and> a = lower s \<and> re_hex_len 40 a
    \<and> map_address_lowercase (JStr a) = Inr a
    \<and> (\<forall>t. re_hex_len 40 t \<longrightarrow> lower t = a \<longrightarrow> map_address_lowercase (JStr t) = Inr a)"
  using assms map_address_shape [OF assms] map_address_idem [OF assms]
  by (auto simp: map_address_Inr_iff)

lemma address_normal_form_witness:
  "re_hex_len 40 (''0x'' @ replicate 40 (CHR ''A''))
    \<and> map_address_lowercase (JStr (''0x'' @ replicate 40 (CHR ''a''))) =
      Inr (''0x'' @ replicate 40 (CHR ''a''))"
proof -
  have h: "map_address_lowercase (JStr (''0x'' @ replicate 40 (CHR ''A''))) =
      Inr (''0x'' @ replicate 40 (CHR ''a''))"
    by code_simp
  show ?thesis using address_normal_form [OF h] by blast
qed

text \<open>
  The receipt status and the transaction type enumerations are one to one: a wire value is
  mapped to a REST value exactly when that REST value is mapped back to the wire value.
\<close>

lemma enumerations_bijective:
  "(rest_status_from_rpc (JStr k) = Inr r \<longleftrightarrow> rpc_status_from_rest (JStr r) = Inr k)
   \<and> (rest_tx_type_from_rpc (JStr k) = Inr r \<longleftrightarrow> rpc_tx_type_from_rest (JStr r) = Inr k)"
  by (auto simp: rest_status_from_rpc_def rpc_status_from_rest_def rest_tx_type_from_rpc_def
      rpc_tx_type_from_rest_def enum_lookup_def status_rpc_to_rest_def status_rest_to_rpc_def
      tx_type_rpc_to_rest_def tx_type_rest_to_rpc_def split: if_splits)

text \<open>
  An account delegates exactly when its code, in any letter case, is the 23 bytes \<open>ef0100\<close>
  followed by an address, and the delegate reported is that address in lower case; code that is
  not an even number of hexadecimal digits is an error.
\<close>

lemma detect_delegate_spec:
  "(detect_delegate s = Inr (Some d) \<longleftrightarrow>
      (\<exists>a. lower s = ''0xef0100'' @ a \<and> startswith s ''0x'' \<and> length a = 40
         \<and> list_all is_hex_digit a \<and> d = ''0x'' @ a))
   \<and> ((\<exists>e. detect_delegate s = Inl e) \<longleftrightarrow> \<not> re_hex_bytes s)"
proof (cases "re_hex_bytes s")
  case False
  have "\<not> (\<exists>a. lower s = ''0xef0100'' @ a \<and> startswith s ''0x'' \<and> length a = 40
         \<and> list_all is_hex_digit a)"
  proof
    assume "\<exists>a. lower s = ''0xef0100'' @ a \<and> startswith s ''0x'' \<and> length a = 40
         \<and> list_all is_hex_digit a"
    then obtain a b where b: "s = ''0x'' @ b" and a: "lower s = ''0xef0100'' @ a" "length a = 40"
        "list_all is_hex_digit a"
      by (auto simp: startswith_iff)
    from b a(1) have lb: "lower b = ''ef0100'' @ a" by (simp add: lower_char_def)
    then have "length b = 46" using a(2) length_lower [of b] by simp
    moreover have "list_all is_hex_digit (lower b)" using lb a(3) by (simp add: is_hex_digit_def)
    ultimately show False using False b by (simp add: re_hex_bytes_def)
  qed
  with False show ?thesis by (auto simp: detect_delegate_def)
next
  case True
  then obtain b where b: "s = ''0x'' @ b" "list_all is_hex_digit b" "even (length b)"
    by (auto simp: re_hex_bytes_def hex_body_Some_iff split: option.splits)
  have l: "lower s = ''0x'' @ lower b" using b(1) by (simp add: lower_char_def)
  have len: "length b = 6 + length a" if "lower b = ''ef0100'' @ a" for a
    using length_lower [of b] that by simp
  have hex: "list_all is_hex_digit a" if "lower b = ''ef0100'' @ a" for a
    using b(2) that list_all_hex_lower [of b] by (simp add: is_hex_digit_def)
  have "detect_delegate s = Inr (Some d) \<longleftrightarrow>
      (\<exists>a. lower b = ''ef0100'' @ a \<and> length a = 40 \<and> d = ''0x'' @ a)"
    using True b(1) by (auto simp: detect_delegate_def Let_def startswith_iff len [simplified])
  also have "\<dots> \<longleftrightarrow> (\<exists>a. lower s = ''0xef0100'' @ a \<and> startswith s ''0x'' \<and> length a = 40
         \<and> list_all is_hex_digit a \<and> d = ''0x'' @ a)"
    using b l hex by (auto simp: startswith_iff)
  finally show ?thesis using True by (auto simp: detect_delegate_def Let_def)
qed

end
