(* ===== verification/BlockId.thy ===== *)
theory BlockId
  imports Encoding
begin

text \<open>
  \<open>block_id.py\<close>: the block identifiers of the API (tag, decimal number or 32-byte hash), their
  parser and their JSON-RPC form. The facts: the parser accepts exactly the documented grammar,
  what it builds has exactly one field set, and the wire form keeps what the identifier says.
\<close>

section \<open>Block identifiers\<close>

record block_id =
  bid_tag :: "string option"
  bid_number :: "int option"
  bid_hash :: "string option"

definition block_tags :: "string list" where
  "block_tags = [''latest'', ''safe'', ''finalized'', ''pending'', ''earliest'']"

text \<open>The constructor, with the check of \<open>__post_init__\<close>.\<close>

definition mk_block_id :: "string option \<Rightarrow> int option \<Rightarrow> string option \<Rightarrow> block_id res" where
  "mk_block_id t n h =
     (if of_bool (t \<noteq> None) + of_bool (n \<noteq> None) + of_bool (h \<noteq> None) \<noteq> (1::nat)
      then Inl (ValueError ''BlockId must have exactly one of tag, number, hash set'')
      else Inr \<lparr>bid_tag = t, bid_number = n, bid_hash = h\<rparr>)"

definition is_tag :: "block_id \<Rightarrow> bool" where
  "is_tag b = (bid_tag b \<noteq> None)"

definition is_number :: "block_id \<Rightarrow> bool" where
  "is_number b = (bid_number b \<noteq> None)"

definition is_hash :: "block_id \<Rightarrow> bool" where
  "is_hash b = (bid_hash b \<noteq> None)"

text \<open>The last branch is the \<open>RuntimeError\<close> that no constructed identifier reaches.\<close>

definition to_rpc_param :: "block_id \<Rightarrow> string option" where
  "to_rpc_param b =
     (case bid_tag b of Some t \<Rightarrow> Some t
      | None \<Rightarrow>
          (case bid_number b of Some n \<Rightarrow> Some (''0x'' @ show_int_hex n)
           | None \<Rightarrow> bid_hash b))"

definition rpc_param :: "block_id \<Rightarrow> json" where
  "rpc_param b = (case to_rpc_param b of Some s \<Rightarrow> JStr s | None \<Rightarrow> JNull)"

section \<open>The parser\<close>

text \<open>
  \<open>parse_block_id\<close>, on any value a caller hands over: a falsy one is empty, an unhashable one fails
  the membership test, and matching a pattern against something that is not a string is a
  \<open>TypeError\<close>.
\<close>

definition parse_block_id_str :: "string \<Rightarrow> block_id res" where
  "parse_block_id_str raw =
     (if raw = [] then Inl (BlockIdError ''block id is empty'')
      else if raw \<in> set block_tags then mk_block_id (Some raw) None None
      else if all_dec raw then bindE (int_of_str raw) (\<lambda>n. mk_block_id None (Some n) None)
      else if re_hex_len 64 raw then mk_block_id None None (Some (lower raw))
      else Inl (BlockIdError (''unrecognised block identifier: '' @ repr_str raw)))"

definition parse_block_id :: "json \<Rightarrow> block_id res" where
  "parse_block_id v =
     (case v of
        JStr s \<Rightarrow> parse_block_id_str s
      | JUni u \<Rightarrow>
          (if u = [] then Inl (BlockIdError ''block id is empty'')
           else Inl (BlockIdError (''unrecognised block identifier: '' @ py_repr v)))
      | _ \<Rightarrow> (if \<not> truthy v then Inl (BlockIdError ''block id is empty'') else Inl TypeError))"

section \<open>Facts\<close>

lemma mk_block_id_simps [simp]:
  "mk_block_id (Some t) None None = Inr \<lparr>bid_tag = Some t, bid_number = None, bid_hash = None\<rparr>"
  "mk_block_id None (Some n) None = Inr \<lparr>bid_tag = None, bid_number = Some n, bid_hash = None\<rparr>"
  "mk_block_id None None (Some h) = Inr \<lparr>bid_tag = None, bid_number = None, bid_hash = Some h\<rparr>"
  by (simp_all add: mk_block_id_def)

definition block_id_ok :: "block_id \<Rightarrow> bool" where
  "block_id_ok b \<longleftrightarrow>
     (\<exists>t \<in> set block_tags. b = \<lparr>bid_tag = Some t, bid_number = None, bid_hash = None\<rparr>) \<or>
     (\<exists>n \<ge> 0. b = \<lparr>bid_tag = None, bid_number = Some n, bid_hash = None\<rparr>) \<or>
     (\<exists>h. re_hex_len 64 h \<and> lower h = h
        \<and> b = \<lparr>bid_tag = None, bid_number = None, bid_hash = Some h\<rparr>)"

lemma parse_block_id_str_cases:
  "parse_block_id_str s = Inr b \<Longrightarrow>
     (s \<in> set block_tags \<and> b = \<lparr>bid_tag = Some s, bid_number = None, bid_hash = None\<rparr>) \<or>
     (all_dec s \<and> length s \<le> max_str_digits
        \<and> b = \<lparr>bid_tag = None, bid_number = Some (int (read_digits 10 s)), bid_hash = None\<rparr>) \<or>
     (re_hex_len 64 s \<and> b = \<lparr>bid_tag = None, bid_number = None, bid_hash = Some (lower s)\<rparr>)"
  by (auto simp: parse_block_id_str_def res_iffs int_of_str_dec split: if_splits)

lemma parse_block_id_str_ok: "parse_block_id_str s = Inr b \<Longrightarrow> block_id_ok b"
  by (auto dest!: parse_block_id_str_cases simp: block_id_ok_def intro: re_hex_len_lower)

lemma parse_block_id_ok [ok_dest]: "parse_block_id v = Inr b \<Longrightarrow> block_id_ok b"
  by (auto simp: parse_block_id_def dest: parse_block_id_str_ok split: json.splits if_splits)

lemma block_id_ok_param: "block_id_ok b \<Longrightarrow> \<exists>s. to_rpc_param b = Some s \<and> rpc_param b = JStr s"
  by (auto simp: block_id_ok_def to_rpc_param_def rpc_param_def)

lemma parse_block_id_str_exn:
  "parse_block_id_str s = Inl e \<Longrightarrow>
     (\<exists>m. e = BlockIdError m) \<or> (all_dec s \<and> max_str_digits < length s \<and> (\<exists>m. e = ValueError m))"
  by (auto simp: parse_block_id_str_def res_iffs int_of_str_dec split: if_splits)

lemma dec_not_tag: "all_dec s \<Longrightarrow> s \<notin> set block_tags"
  by (auto simp: block_tags_def all_dec_def is_dec_digit_def)

lemma hash_not_tag: "re_hex_len 64 s \<Longrightarrow> s \<notin> set block_tags"
  by (auto simp: block_tags_def re_hex_len_iff)

lemma hash_not_dec: "re_hex_len 64 s \<Longrightarrow> \<not> all_dec s"
  by (auto simp: all_dec_def re_hex_len_iff is_dec_digit_def)

section \<open>Properties\<close>

text \<open>
  C33. The parser accepts exactly the documented grammar: a tag, a decimal number that \<open>int\<close> converts,
  or a 32-byte hash in any letter case. What it returns has exactly one field set, and its wire
  form is the tag itself, the minimal hexadecimal form of the number, or the hash in lower case.
\<close>

theorem parse_block_id_spec:
  "(\<exists>b. parse_block_id (JStr s) = Inr b \<and> block_id_ok b \<and> to_rpc_param b = Some p) \<longleftrightarrow>
     (s \<in> set block_tags \<and> p = s) \<or>
     (all_dec s \<and> length s \<le> max_str_digits \<and> p = hex_quantity (read_digits 10 s)) \<or>
     (re_hex_len 64 s \<and> p = lower s)"
  (is "?lhs \<longleftrightarrow> ?tag \<or> ?num \<or> ?hash")
proof
  assume ?lhs
  then show "?tag \<or> ?num \<or> ?hash"
    by (auto simp: parse_block_id_def to_rpc_param_def hex_quantity_def show_int_hex_def
        dest!: parse_block_id_str_cases)
next
  have nonempty: "[] \<notin> set block_tags" by (simp add: block_tags_def)
  assume "?tag \<or> ?num \<or> ?hash"
  then have "\<exists>b. parse_block_id_str s = Inr b \<and> to_rpc_param b = Some p"
  proof (elim disjE)
    assume ?tag
    with nonempty show ?thesis by (auto simp: parse_block_id_str_def to_rpc_param_def)
  next
    assume ?num
    moreover from this have "s \<noteq> []" by (simp add: all_dec_def)
    ultimately show ?thesis
      using dec_not_tag [of s]
      by (auto simp: parse_block_id_str_def int_of_str_dec to_rpc_param_def hex_quantity_def
          show_int_hex_def)
  next
    assume ?hash
    moreover from this have "s \<noteq> []" by (auto simp: re_hex_len_iff)
    ultimately show ?thesis
      using hash_not_tag [of s] hash_not_dec [of s]
      by (auto simp: parse_block_id_str_def to_rpc_param_def)
  qed
  then show ?lhs by (auto simp: parse_block_id_def dest: parse_block_id_str_ok)
qed

theorem parse_block_id_spec_witness:
  "\<exists>b. parse_block_id (JStr ''255'') = Inr b \<and> block_id_ok b \<and> to_rpc_param b = Some ''0xff''"
  by (subst parse_block_id_spec) code_simp

text \<open>
  A refused string is refused with \<open>BlockIdError\<close>, which every handler turns into a 400, with
  one exception: a decimal number of more than 4300 digits raises the plain \<open>ValueError\<close> of
  \<open>int\<close>, which the handlers that catch \<open>BlockIdError\<close> only let through. A body value that is
  neither a string nor falsy raises \<open>TypeError\<close>.
\<close>

lemma parse_block_id_errors:
  "parse_block_id v = Inl e \<Longrightarrow>
     (\<exists>m. e = BlockIdError m) \<or>
     (\<exists>s. v = JStr s \<and> all_dec s \<and> max_str_digits < length s
        \<and> e = ValueError (int_limit_msg (length s))) \<or>
     (e = TypeError \<and> \<not> is_str v \<and> truthy v)"
  by (auto simp: parse_block_id_def parse_block_id_str_def res_iffs int_of_str_dec
      split: json.splits if_splits)

lemma parse_block_id_errors_witness:
  "parse_block_id (JInt 5) = Inl TypeError \<and> \<not> is_str (JInt 5) \<and> truthy (JInt 5)"
  using parse_block_id_errors [of "JInt 5" TypeError] by (simp add: parse_block_id_def)

end
