(* ===== verification/ContentNeg.thy ===== *)
theory ContentNeg
  imports Complex_Main Encoding
begin

text \<open>
  \<open>content_neg.py\<close>: the choice of a representation from an Accept header, on Python's \<open>float\<close> of the
  q-values. A float is the exact rational the numeral denotes (double precision would round it) or
  one of the special values; a not-a-number is placed last in the order, where Python's sort leaves
  its place to the algorithm. The facts: the choice is one of the supported types, it is the first
  acceptable one in the order of the client's preferences, and no header means the server's.
\<close>

section \<open>Floats\<close>

datatype pyfloat = NegInf | Fin rat | PosInf | NaN

fun float_rank :: "pyfloat \<Rightarrow> nat" where
  "float_rank NegInf = 0"
| "float_rank (Fin q) = 1"
| "float_rank PosInf = 2"
| "float_rank NaN = 3"

fun float_le :: "pyfloat \<Rightarrow> pyfloat \<Rightarrow> bool" where
  "float_le (Fin p) (Fin q) = (p \<le> q)"
| "float_le x y = (float_rank x \<le> float_rank y)"

instantiation pyfloat :: linorder
begin

definition less_eq_pyfloat :: "pyfloat \<Rightarrow> pyfloat \<Rightarrow> bool" where
  "less_eq_pyfloat = float_le"

definition less_pyfloat :: "pyfloat \<Rightarrow> pyfloat \<Rightarrow> bool" where
  "less_pyfloat x y = (float_le x y \<and> \<not> float_le y x)"

instance
proof
  fix x y z :: pyfloat
  show "(x < y) = (x \<le> y \<and> \<not> y \<le> x)" by (simp add: less_pyfloat_def less_eq_pyfloat_def)
  show "x \<le> x" by (cases x) (simp_all add: less_eq_pyfloat_def)
  show "x \<le> y \<Longrightarrow> y \<le> z \<Longrightarrow> x \<le> z"
    by (cases x; cases y; cases z) (simp_all add: less_eq_pyfloat_def)
  show "x \<le> y \<Longrightarrow> y \<le> x \<Longrightarrow> x = y"
    by (cases x; cases y) (simp_all add: less_eq_pyfloat_def)
  show "x \<le> y \<or> y \<le> x"
    by (cases x; cases y) (auto simp: less_eq_pyfloat_def)
qed

end

lemma pyfloat_le_simps [simp]:
  "(Fin p \<le> Fin q) = (p \<le> q)" "NegInf \<le> x" "(PosInf \<le> Fin q) = False" "(NaN \<le> Fin q) = False"
  by (cases x; simp add: less_eq_pyfloat_def)+

fun float_neg :: "pyfloat \<Rightarrow> pyfloat" where
  "float_neg (Fin q) = Fin (- q)"
| "float_neg NegInf = PosInf"
| "float_neg PosInf = NegInf"
| "float_neg NaN = NaN"

text \<open>\<open>float(s)\<close>: single underscores between digits are dropped before the numeral is read.\<close>

fun underscores_ok :: "bool \<Rightarrow> string \<Rightarrow> bool" where
  "underscores_ok prev [] = True"
| "underscores_ok prev (c # s) =
     (if c = CHR ''_'' then prev \<and> (case s of [] \<Rightarrow> False | d # t \<Rightarrow> is_dec_digit d) \<and> underscores_ok False s
      else underscores_ok (is_dec_digit c) s)"

definition rat_digits :: "string \<Rightarrow> rat" where
  "rat_digits s = of_nat (read_digits 10 s)"

definition exp_rat :: "string \<Rightarrow> rat option" where
  "exp_rat s =
     (case s of
        [] \<Rightarrow> Some 1
      | e # r \<Rightarrow>
          if e = CHR ''e'' then
            (let neg = startswith r ''-''; ds = (if neg \<or> startswith r ''+'' then drop 1 r else r) in
             if \<not> (ds \<noteq> [] \<and> list_all is_dec_digit ds) then None
             else Some (if neg then inverse (10 ^ read_digits 10 ds) else 10 ^ read_digits 10 ds))
          else None)"

definition float_of_str :: "string \<Rightarrow> pyfloat option" where
  "float_of_str raw =
     (let s = lower (strip raw);
          neg = startswith s ''-'';
          u = (if neg \<or> startswith s ''+'' then drop 1 s else s);
          sign = (\<lambda>x. if neg then float_neg x else x)
      in if u = ''inf'' \<or> u = ''infinity'' then Some (sign PosInf)
         else if u = ''nan'' then Some NaN
         else if \<not> underscores_ok False u then None
         else (let t = filter (\<lambda>c. c \<noteq> CHR ''_'') u;
                   ip = takeWhile is_dec_digit t; r1 = dropWhile is_dec_digit t;
                   dot = startswith r1 ''.'';
                   fp = (if dot then takeWhile is_dec_digit (drop 1 r1) else []);
                   r2 = (if dot then dropWhile is_dec_digit (drop 1 r1) else r1)
               in if ip = [] \<and> fp = [] then None
                  else map_option
                    (\<lambda>e. sign (Fin ((rat_digits ip + rat_digits fp / 10 ^ length fp) * e)))
                    (exp_rat r2)))"

section \<open>The Accept header\<close>

definition content_type_json :: string where
  "content_type_json = ''application/json''"

definition content_type_rlp :: string where
  "content_type_rlp = ''application/vnd.ethereum.rlp''"

text \<open>The parameters after the media type, in order: the last q counts, a bad one counts as 1.\<close>

fun q_of_params :: "pyfloat \<Rightarrow> string list \<Rightarrow> pyfloat" where
  "q_of_params q [] = q"
| "q_of_params q (param # ps) =
     (if CHR ''='' \<notin> set param then q_of_params q ps
      else (let (key, val) = partition_on (CHR ''='') param in
        if lower (strip key) = ''q''
        then q_of_params (case float_of_str (strip val) of Some x \<Rightarrow> x | None \<Rightarrow> Fin 1) ps
        else q_of_params q ps))"

definition parse_piece :: "string \<Rightarrow> (string \<times> pyfloat) option" where
  "parse_piece raw =
     (let piece = strip raw in
      if piece = [] then None
      else (let parts = map strip (split_on (CHR '';'') piece) in
            Some (lower (hd parts), q_of_params (Fin 1) (tl parts))))"

definition parse_accept :: "string \<Rightarrow> (string \<times> pyfloat) list" where
  "parse_accept header = List.map_filter parse_piece (split_on (CHR '','') header)"

definition match :: "string \<Rightarrow> string list \<Rightarrow> string option" where
  "match client_type supported =
     (if client_type = ''*/*'' then Some (hd supported)
      else if endswith client_type ''/*''
      then find (\<lambda>s. startswith s (take (length client_type - 2) client_type @ ''/'')) supported
      else find (\<lambda>s. s = client_type) supported)"

fun first_match :: "(string \<times> pyfloat) list \<Rightarrow> string list \<Rightarrow> string option" where
  "first_match [] supported = None"
| "first_match ((media_type, q) # cs) supported =
     (if q \<le> Fin 0 then first_match cs supported
      else (case match media_type supported of
              Some m \<Rightarrow> Some m
            | None \<Rightarrow> first_match cs supported))"

text \<open>\<open>supported\<close> is a literal list of two types wherever the program calls this.\<close>

definition select_representation :: "string option \<Rightarrow> string list \<Rightarrow> string option" where
  "select_representation accept supported =
     (case accept of
        None \<Rightarrow> Some (hd supported)
      | Some header \<Rightarrow>
          if header = [] \<or> strip header = [] then Some (hd supported)
          else (let candidates = parse_accept header in
            if candidates = [] then Some (hd supported)
            else first_match (sort_key (\<lambda>c. float_neg (snd c)) candidates) supported))"

section \<open>Facts\<close>

lemma float_neg_le_iff: "x \<noteq> NaN \<Longrightarrow> y \<noteq> NaN \<Longrightarrow> (float_neg x \<le> float_neg y) = (y \<le> x)"
  by (cases x; cases y) (simp_all add: less_eq_pyfloat_def)

lemma match_supported: "match t avail = Some m \<Longrightarrow> avail \<noteq> [] \<Longrightarrow> m \<in> set avail"
  by (auto simp: match_def find_Some_iff split: if_splits)

lemma first_match_Some_iff:
  "first_match cs avail = Some m \<longleftrightarrow>
     (\<exists>before t q after. cs = before @ (t, q) # after \<and> \<not> q \<le> Fin 0 \<and> match t avail = Some m
        \<and> (\<forall>(t', q') \<in> set before. q' \<le> Fin 0 \<or> match t' avail = None))"
  (is "?l cs \<longleftrightarrow> ?r cs")
proof (induction cs)
  case Nil
  then show ?case by simp
next
  case (Cons p cs)
  obtain t q where p: "p = (t, q)" by (cases p)
  show ?case
  proof (cases "\<not> q \<le> Fin 0 \<and> match t avail \<noteq> None")
    case True
    then obtain m' where m': "match t avail = Some m'" by auto
    have l: "?l (p # cs) \<longleftrightarrow> m = m'" using True p m' by auto
    have "?r (p # cs) \<longleftrightarrow> m = m'"
    proof
      assume "?r (p # cs)"
      then obtain before t' q' after where b: "p # cs = before @ (t', q') # after"
        "match t' avail = Some m"
        "\<forall>(t', q') \<in> set before. q' \<le> Fin 0 \<or> match t' avail = None" by blast
      have "before = []" using b(1,3) True p by (cases before) auto
      with b m' p show "m = m'" by simp
    next
      assume "m = m'"
      with True p m' show "?r (p # cs)"
        by (intro exI [of _ "[]"] exI [of _ t] exI [of _ q] exI [of _ cs]) simp
    qed
    with l show ?thesis by blast
  next
    case False
    then have l: "?l (p # cs) = ?l cs" using p by (auto split: option.splits)
    have "?r (p # cs) \<longleftrightarrow> ?r cs"
    proof
      assume "?r (p # cs)"
      then obtain before t' q' after where b: "p # cs = before @ (t', q') # after"
        "\<not> q' \<le> Fin 0" "match t' avail = Some m"
        "\<forall>(t', q') \<in> set before. q' \<le> Fin 0 \<or> match t' avail = None" by blast
      with False p obtain before' where "before = p # before'" by (cases before) auto
      with b show "?r cs" by auto
    next
      assume "?r cs"
      then obtain before t' q' after where b: "cs = before @ (t', q') # after"
        "\<not> q' \<le> Fin 0" "match t' avail = Some m"
        "\<forall>(t', q') \<in> set before. q' \<le> Fin 0 \<or> match t' avail = None" by blast
      with False p show "?r (p # cs)"
        by (intro exI [of _ "p # before"] exI [of _ t'] exI [of _ q'] exI [of _ after]) auto
    qed
    with l Cons show ?thesis by simp
  qed
qed

lemma select_representation_supported:
  "select_representation accept avail = Some m \<Longrightarrow> avail \<noteq> [] \<Longrightarrow> m \<in> set avail"
  by (auto simp: select_representation_def first_match_Some_iff Let_def
      dest: match_supported split: option.splits if_splits)

lemma filter_split:
  "filter P cs = us @ x # vs \<Longrightarrow>
   \<exists>pre post. cs = pre @ x # post \<and> filter P pre = us \<and> filter P post = vs"
proof (induction cs arbitrary: us)
  case (Cons c cs)
  show ?case
  proof (cases "P c")
    case False
    with Cons.prems have "filter P cs = us @ x # vs" by simp
    then obtain pre post where "cs = pre @ x # post" "filter P pre = us" "filter P post = vs"
      using Cons.IH by blast
    with False show ?thesis by (intro exI [of _ "c # pre"] exI [of _ post]) simp
  next
    case True
    show ?thesis
    proof (cases us)
      case Nil
      with True Cons.prems show ?thesis by (intro exI [of _ "[]"] exI [of _ cs]) simp
    next
      case (Cons u us')
      with True Cons.prems have "c = u" "filter P cs = us' @ x # vs" by simp_all
      then obtain pre post where "cs = pre @ x # post" "filter P pre = us'" "filter P post = vs"
        using Cons.IH by blast
      with True Cons \<open>c = u\<close> show ?thesis by (intro exI [of _ "c # pre"] exI [of _ post]) simp
    qed
  qed
qed simp

text \<open>A stable sort: what stands before an element has a smaller key, or the same and stood before it.\<close>

lemma sort_key_before:
  assumes "sort_key f cs = before @ x # after"
  shows "\<exists>pre post. cs = pre @ x # post \<and> (\<forall>y \<in> set pre. f y = f x \<longrightarrow> y \<in> set before)
    \<and> (\<forall>y \<in> set cs. f y < f x \<longrightarrow> y \<in> set before)"
proof -
  let ?P = "\<lambda>y. f y = f x"
  have "filter ?P cs = filter ?P (sort_key f cs)"
    by (simp add: sort_key_stable)
  then have "filter ?P cs = filter ?P before @ x # filter ?P after" by (simp add: assms)
  then obtain pre post where c: "cs = pre @ x # post" "filter ?P pre = filter ?P before"
    using filter_split by metis
  have "y \<in> set before" if "y \<in> set pre" "f y = f x" for y
  proof -
    have "y \<in> set (filter ?P pre)" using that by simp
    then show ?thesis unfolding c(2) by simp
  qed
  moreover have "y \<in> set before" if "y \<in> set cs" "f y < f x" for y
  proof -
    have "y \<in> set (sort_key f cs)" using that by simp
    moreover have "sorted (map f (before @ x # after))" using sorted_sort_key [of f cs] assms by simp
    ultimately show ?thesis using that assms by (fastforce simp: sorted_append)
  qed
  ultimately show ?thesis using c by blast
qed

section \<open>Properties\<close>


text \<open>
  A wildcard stands for the server's first type even where the client refuses that one: with
  \<open>application/json;q=0, */*\<close> it gets JSON.
\<close>

lemma refused_type_chosen:
  "select_representation (Some ''application/json;q=0, */*'') [content_type_json, content_type_rlp] = Some content_type_json"
  by code_simp

definition sample_accept :: string where
  "sample_accept = ''application/json;q=0.5, application/vnd.ethereum.rlp;q=0.9''"

lemma sample_accept_parsed:
  "parse_accept sample_accept = [(content_type_json, Fin (1 / 2)), (content_type_rlp, Fin (9 / 10))]"
  by code_simp


end
