(* ===== verification/Bytes.thy ===== *)
theory Bytes
  imports Encoding
begin

text \<open>
  The byte-level standard library the program uses: UTF-8 decoding, strict and with
  replacement, base64 in its URL-safe alphabet with CPython's lenient decoder, and the
  conversion between bytes and hexadecimal text. Bytes are natural numbers below 256, text
  beyond the model's characters is a list of code points. The facts: encoders and decoders
  are codecs.
\<close>

section \<open>UTF-8\<close>

definition is_cont :: "nat \<Rightarrow> bool" where
  "is_cont b = (128 \<le> b \<and> b \<le> 191)"

text \<open>Which second byte may follow a lead byte of a three- or four-byte sequence.\<close>

definition second_ok :: "nat \<Rightarrow> nat \<Rightarrow> bool" where
  "second_ok b c =
     (is_cont c \<and> (b = 224 \<longrightarrow> 160 \<le> c) \<and> (b = 237 \<longrightarrow> c \<le> 159)
      \<and> (b = 240 \<longrightarrow> 144 \<le> c) \<and> (b = 244 \<longrightarrow> c \<le> 143))"

text \<open>
  One character: its code point, or \<open>None\<close> for an ill-formed sequence, with the bytes left after
  it (the bytes of a truncated sequence are consumed together, up to the offending byte).
\<close>

definition utf8_one :: "nat \<Rightarrow> nat list \<Rightarrow> nat option \<times> nat list" where
  "utf8_one b bs =
     (if b < 128 then (Some b, bs)
      else if b < 194 then (None, bs)
      else if b < 224 then
        (case bs of [] \<Rightarrow> (None, bs)
         | c # r \<Rightarrow> if is_cont c then (Some ((b - 192) * 64 + (c - 128)), r) else (None, bs))
      else if b < 240 then
        (case bs of [] \<Rightarrow> (None, bs)
         | c # r \<Rightarrow> if \<not> second_ok b c then (None, bs)
             else (case r of [] \<Rightarrow> (None, r)
                   | d # r' \<Rightarrow> if is_cont d
                       then (Some ((b - 224) * 4096 + (c - 128) * 64 + (d - 128)), r')
                       else (None, r)))
      else if b < 245 then
        (case bs of [] \<Rightarrow> (None, bs)
         | c # r \<Rightarrow> if \<not> second_ok b c then (None, bs)
             else (case r of [] \<Rightarrow> (None, r)
                   | d # r' \<Rightarrow> if \<not> is_cont d then (None, r)
                       else (case r' of [] \<Rightarrow> (None, r')
                             | e # r'' \<Rightarrow> if is_cont e
                                 then (Some ((b - 240) * 262144 + (c - 128) * 4096
                                        + (d - 128) * 64 + (e - 128)), r'')
                                 else (None, r'))))
      else (None, bs))"

lemma utf8_one_shorter: "length (snd (utf8_one b bs)) \<le> length bs"
  by (auto simp: utf8_one_def split: list.splits)

text \<open>\<open>bytes.decode("utf-8", errors="replace")\<close> and \<open>bytes.decode("utf-8")\<close>.\<close>

function utf8_replace :: "nat list \<Rightarrow> nat list" where
  "utf8_replace [] = []"
| "utf8_replace (b # bs) =
     (case fst (utf8_one b bs) of None \<Rightarrow> 65533 | Some c \<Rightarrow> c)
       # utf8_replace (snd (utf8_one b bs))"
  by pat_completeness auto
termination
  by (relation "measure length") (auto simp: less_Suc_eq_le utf8_one_shorter)

function utf8_decode :: "nat list \<Rightarrow> nat list res" where
  "utf8_decode [] = Inr []"
| "utf8_decode (b # bs) =
     (case fst (utf8_one b bs) of
        None \<Rightarrow> Inl UnicodeDecodeError
      | Some c \<Rightarrow> mapR ((#) c) (utf8_decode (snd (utf8_one b bs))))"
  by pat_completeness auto
termination
  by (relation "measure length") (auto simp: less_Suc_eq_le utf8_one_shorter)

definition utf8_enc1 :: "nat \<Rightarrow> nat list" where
  "utf8_enc1 c =
     (if c < 128 then [c]
      else if c < 2048 then [192 + c div 64, 128 + c mod 64]
      else if c < 65536 then [224 + c div 4096, 128 + c div 64 mod 64, 128 + c mod 64]
      else [240 + c div 262144, 128 + c div 4096 mod 64, 128 + c div 64 mod 64, 128 + c mod 64])"

definition utf8_encode :: "nat list \<Rightarrow> nat list" where
  "utf8_encode cs = concat (map utf8_enc1 cs)"

text \<open>A Unicode scalar value: a code point that is not a surrogate.\<close>

definition scalar :: "nat \<Rightarrow> bool" where
  "scalar c = (c < 55296 \<or> (57344 \<le> c \<and> c < 1114112))"

lemma split3: "(c::nat) div 4096 * 4096 + c div 64 mod 64 * 64 + c mod 64 = c"
proof -
  have "c div 4096 = c div 64 div 64" by (simp add: div_mult2_eq [symmetric])
  with div_mult_mod_eq [of c 64] div_mult_mod_eq [of "c div 64" 64] show ?thesis by linarith
qed

lemma split4:
  "(c::nat) div 262144 * 262144 + c div 4096 mod 64 * 4096 + c div 64 mod 64 * 64 + c mod 64 = c"
proof -
  have "c div 262144 = c div 4096 div 64" by (simp add: div_mult2_eq [symmetric])
  with split3 [of c] div_mult_mod_eq [of "c div 4096" 64] show ?thesis by linarith
qed

lemma is_cont_low [simp]: "is_cont (128 + n mod 64)"
  by (auto simp: is_cont_def)

lemma second_ok_3:
  assumes "2048 \<le> c" "c < 65536" "scalar c"
  shows "second_ok (224 + c div 4096) (128 + c div 64 mod 64)"
proof -
  define d m r where "d = c div 4096" and "m = c div 64 mod 64" and "r = c mod 64"
  have "c = d * 4096 + m * 64 + r" "m < 64" "r < 64"
    using split3 [of c] by (simp_all add: d_def m_def r_def)
  with assms have "second_ok (224 + d) (128 + m)"
    unfolding second_ok_def is_cont_def scalar_def by (intro conjI impI; linarith)
  then show ?thesis by (simp add: d_def m_def)
qed

lemma second_ok_4:
  assumes "65536 \<le> c" "c < 1114112"
  shows "second_ok (240 + c div 262144) (128 + c div 4096 mod 64)"
proof -
  define e d m r where "e = c div 262144" and "d = c div 4096 mod 64"
    and "m = c div 64 mod 64" and "r = c mod 64"
  have "c = e * 262144 + d * 4096 + m * 64 + r" "d < 64" "m < 64" "r < 64"
    using split4 [of c] by (simp_all add: e_def d_def m_def r_def)
  with assms have "second_ok (240 + e) (128 + d)"
    unfolding second_ok_def is_cont_def by (intro conjI impI; linarith)
  then show ?thesis by (simp add: e_def d_def)
qed

lemma utf8_one_2:
  "128 \<le> c \<Longrightarrow> c < 2048 \<Longrightarrow> utf8_one (192 + c div 64) ((128 + c mod 64) # r) = (Some c, r)"
proof -
  assume "128 \<le> c" "c < 2048"
  moreover from this have "2 \<le> c div 64" "c div 64 < 32" by (simp_all add: less_mult_imp_div_less)
  ultimately show ?thesis by (simp add: utf8_one_def)
qed

lemma utf8_one_3:
  assumes "2048 \<le> c" "c < 65536" "scalar c"
  shows "utf8_one (224 + c div 4096) ((128 + c div 64 mod 64) # (128 + c mod 64) # r) = (Some c, r)"
proof -
  have "c div 4096 < 16" using assms(2) by (simp add: less_mult_imp_div_less)
  with second_ok_3 [OF assms] split3 [of c] show ?thesis by (simp add: utf8_one_def)
qed

lemma utf8_one_4:
  assumes "65536 \<le> c" "c < 1114112"
  shows "utf8_one (240 + c div 262144)
    ((128 + c div 4096 mod 64) # (128 + c div 64 mod 64) # (128 + c mod 64) # r) = (Some c, r)"
proof -
  have "c div 262144 < 5" using assms(2) by (simp add: less_mult_imp_div_less)
  with second_ok_4 [OF assms] split4 [of c] show ?thesis by (simp add: utf8_one_def)
qed

lemma utf8_one_enc1:
  assumes "scalar c"
  shows "\<exists>b bs. utf8_enc1 c = b # bs \<and> utf8_one b (bs @ r) = (Some c, r)"
proof -
  consider "c < 128" | "128 \<le> c" "c < 2048" | "2048 \<le> c" "c < 65536" | "65536 \<le> c" "c < 1114112"
    using assms by (fastforce simp: scalar_def)
  then show ?thesis
  proof cases
    case 1
    then show ?thesis by (simp add: utf8_enc1_def utf8_one_def)
  next
    case 2
    then show ?thesis by (simp add: utf8_enc1_def utf8_one_2)
  next
    case 3
    then show ?thesis using assms by (simp add: utf8_enc1_def utf8_one_3)
  next
    case 4
    then show ?thesis by (simp add: utf8_enc1_def utf8_one_4)
  qed
qed

lemma utf8_decode_append:
  "scalar c \<Longrightarrow> utf8_decode (utf8_enc1 c @ r) = mapR ((#) c) (utf8_decode r)"
  using utf8_one_enc1 [of c r] by auto

lemma utf8_replace_append: "scalar c \<Longrightarrow> utf8_replace (utf8_enc1 c @ r) = c # utf8_replace r"
  using utf8_one_enc1 [of c r] by auto

lemma utf8_decode_encode: "list_all scalar cs \<Longrightarrow> utf8_decode (utf8_encode cs) = Inr cs"
  by (induction cs) (simp_all add: utf8_encode_def utf8_decode_append)

lemma utf8_replace_encode: "list_all scalar cs \<Longrightarrow> utf8_replace (utf8_encode cs) = cs"
  by (induction cs) (simp_all add: utf8_encode_def utf8_replace_append)

lemma utf8_enc1_bytes: "scalar c \<Longrightarrow> b \<in> set (utf8_enc1 c) \<Longrightarrow> b < 256"
proof -
  assume s: "scalar c" and b: "b \<in> set (utf8_enc1 c)"
  have low: "128 + n mod 64 < 256" for n :: nat
    using mod_less_divisor [of 64 n] by linarith
  have "c < 2048 \<Longrightarrow> c div 64 < 32" "c < 65536 \<Longrightarrow> c div 4096 < 16" "c div 262144 < 5"
    using s by (auto simp: scalar_def less_mult_imp_div_less)
  with b low show ?thesis by (auto simp: utf8_enc1_def split: if_splits)
qed

lemma utf8_encode_bytes: "list_all scalar cs \<Longrightarrow> list_all (\<lambda>b. b < 256) (utf8_encode cs)"
  by (auto simp: utf8_encode_def list_all_iff utf8_enc1_bytes)

interpretation utf8: codec utf8_encode utf8_decode "list_all scalar"
  by unfold_locales (rule utf8_decode_encode)

section \<open>Bytes as hexadecimal text\<close>

definition bytes_to_hex :: "nat list \<Rightarrow> string" where
  "bytes_to_hex bs = concat (map hex2 bs)"

text \<open>\<open>bytes.fromhex\<close> on text that is an even number of hexadecimal digits.\<close>

fun hex_to_bytes :: "string \<Rightarrow> nat list" where
  "hex_to_bytes (a # b # s) = (16 * digit_val a + digit_val b) # hex_to_bytes s"
| "hex_to_bytes _ = []"

lemma hex2_byte: "b < 256 \<Longrightarrow> hex_to_bytes (hex2 b @ s) = b # hex_to_bytes s"
  by (simp add: hex2_def)

lemma hex_to_bytes_of_bytes: "list_all (\<lambda>b. b < 256) bs \<Longrightarrow> hex_to_bytes (bytes_to_hex bs) = bs"
proof (induction bs)
  case Nil
  then show ?case by (simp add: bytes_to_hex_def)
next
  case (Cons b bs)
  then show ?case using hex2_byte [of b "bytes_to_hex bs"] by (simp add: bytes_to_hex_def)
qed

lemma length_bytes_to_hex [simp]: "length (bytes_to_hex bs) = 2 * length bs"
  by (induction bs) (simp_all add: bytes_to_hex_def hex2_def)

lemma hex2_digits: "list_all is_hex_digit (hex2 b)"
  by (simp add: hex2_def)

lemma bytes_to_hex_digits: "list_all is_hex_digit (bytes_to_hex bs)"
  using hex2_digits by (auto simp: bytes_to_hex_def list_all_iff)

section \<open>Base64, URL-safe\<close>

definition b64_char :: "nat \<Rightarrow> char" where
  "b64_char v =
     (if v < 26 then char_of (65 + v) else if v < 52 then char_of (71 + v)
      else if v < 62 then char_of (v - 4) else if v = 62 then CHR ''-'' else CHR ''_'')"

text \<open>
  The decoder's alphabet: the URL-safe characters are translated to the standard ones first, and
  the standard ones pass that translation, so both are accepted.
\<close>

definition b64_val :: "char \<Rightarrow> nat option" where
  "b64_val c = (let n = cp c in
     if 65 \<le> n \<and> n \<le> 90 then Some (n - 65)
     else if 97 \<le> n \<and> n \<le> 122 then Some (n - 71)
     else if 48 \<le> n \<and> n \<le> 57 then Some (n + 4)
     else if n = 43 \<or> n = 45 then Some 62
     else if n = 47 \<or> n = 95 then Some 63 else None)"

fun b64_encode :: "nat list \<Rightarrow> string" where
  "b64_encode [] = []"
| "b64_encode [a] = [b64_char (a div 4), b64_char (a mod 4 * 16), CHR ''='', CHR ''='']"
| "b64_encode [a, b] =
     [b64_char (a div 4), b64_char (a mod 4 * 16 + b div 16), b64_char (b mod 16 * 4), CHR ''='']"
| "b64_encode (a # b # c # r) =
     [b64_char (a div 4), b64_char (a mod 4 * 16 + b div 16), b64_char (b mod 16 * 4 + c div 64),
      b64_char (c mod 64)] @ b64_encode r"

definition rstrip_eq :: "string \<Rightarrow> string" where
  "rstrip_eq s = rev (dropWhile (\<lambda>c. c = CHR ''='') (rev s))"

text \<open>
  The decoder: \<open>n\<close> counts the data characters read, \<open>left\<close> holds the bits not yet written and
  \<open>pads\<close> the padding seen since the last data character. Other characters are skipped, and a
  complete padding ends the input.
\<close>

fun b64_decode_from :: "nat \<Rightarrow> nat \<Rightarrow> nat \<Rightarrow> string \<Rightarrow> nat list res" where
  "b64_decode_from n left pads [] =
     (if n mod 4 = 0 then Inr []
      else if n mod 4 = 1 then
        Inl (ValueError (''Invalid base64-encoded string: number of data characters (''
          @ show_dec n @ '') cannot be 1 more than a multiple of 4''))
      else Inl (ValueError ''Incorrect padding''))"
| "b64_decode_from n left pads (c # cs) =
     (if c = CHR ''='' then
        (if 2 \<le> n mod 4 then
           (if 4 \<le> n mod 4 + Suc pads then Inr [] else b64_decode_from n left (Suc pads) cs)
         else b64_decode_from n left pads cs)
      else (case b64_val c of
              None \<Rightarrow> b64_decode_from n left pads cs
            | Some v \<Rightarrow>
                (if n mod 4 = 0 then b64_decode_from (Suc n) v 0 cs
                 else if n mod 4 = 1 then
                   mapR ((#) (left * 4 + v div 16)) (b64_decode_from (Suc n) (v mod 16) 0 cs)
                 else if n mod 4 = 2 then
                   mapR ((#) (left * 16 + v div 4)) (b64_decode_from (Suc n) (v mod 4) 0 cs)
                 else mapR ((#) (left * 64 + v)) (b64_decode_from (Suc n) 0 0 cs))))"

definition b64_decode :: "string \<Rightarrow> nat list res" where
  "b64_decode s =
     (if list_all (\<lambda>c. cp c < 128) s then b64_decode_from 0 0 0 s
      else Inl (ValueError ''string argument should contain only ASCII characters''))"

definition b64_pad :: "string \<Rightarrow> string" where
  "b64_pad s = replicate ((4 - length s mod 4) mod 4) (CHR ''='')"

lemma b64_val_char [simp]: "v < 64 \<Longrightarrow> b64_val (b64_char v) = Some v"
  by (auto simp: b64_val_def b64_char_def Let_def)

lemma b64_char_not_eq [simp]: "v < 64 \<Longrightarrow> b64_char v \<noteq> CHR ''=''"
proof
  assume "v < 64" "b64_char v = CHR ''=''"
  then have "b64_val (CHR ''='') = Some v" using b64_val_char [of v] by simp
  then show False by (simp add: b64_val_def)
qed

lemma b64_char_ascii [simp]: "cp (b64_char v) < 128"
  by (auto simp: b64_char_def)

text \<open>The encoding without its padding.\<close>

fun b64_body :: "nat list \<Rightarrow> string" where
  "b64_body [] = []"
| "b64_body [a] = [b64_char (a div 4), b64_char (a mod 4 * 16)]"
| "b64_body [a, b] =
     [b64_char (a div 4), b64_char (a mod 4 * 16 + b div 16), b64_char (b mod 16 * 4)]"
| "b64_body (a # b # c # r) =
     [b64_char (a div 4), b64_char (a mod 4 * 16 + b div 16), b64_char (b mod 16 * 4 + c div 64),
      b64_char (c mod 64)] @ b64_body r"

lemma byte_parts:
  "(a::nat) < 256 \<Longrightarrow> a div 4 < 64" "(a::nat) mod 4 < 4"
  "(a::nat) < 256 \<Longrightarrow> a div 16 < 16" "(a::nat) mod 16 < 16"
  "(a::nat) < 256 \<Longrightarrow> a div 64 < 4" "(a::nat) mod 64 < 64"
  by (simp_all add: less_mult_imp_div_less)

lemma sextets:
  "(a::nat) < 256 \<Longrightarrow> a div 4 < 64"
  "(a::nat) mod 4 * 16 < 64"
  "(b::nat) < 256 \<Longrightarrow> a mod 4 * 16 + b div 16 < 64"
  "(b::nat) mod 16 * 4 < 64"
  "(c::nat) < 256 \<Longrightarrow> b mod 16 * 4 + c div 64 < 64"
  "(c::nat) mod 64 < 64"
proof -
  have *: "x < 4 \<Longrightarrow> y < 16 \<Longrightarrow> x * 16 + y < 64" "x < 16 \<Longrightarrow> y < 4 \<Longrightarrow> x * 4 + y < 64"
    for x y :: nat by linarith+
  show "a < 256 \<Longrightarrow> a div 4 < 64" "c mod 64 < 64" by (simp_all add: byte_parts)
  show "b < 256 \<Longrightarrow> a mod 4 * 16 + b div 16 < 64" "c < 256 \<Longrightarrow> b mod 16 * 4 + c div 64 < 64"
    by (simp_all add: * byte_parts)
  show "a mod 4 * 16 < 64" "b mod 16 * 4 < 64"
    using *(1) [of "a mod 4" 0] *(2) [of "b mod 16" 0] by simp_all
qed

lemma rejoin:
  "(b::nat) < 256 \<Longrightarrow> (a mod 4 * 16 + b div 16) div 16 = a mod 4"
  "(b::nat) < 256 \<Longrightarrow> (a mod 4 * 16 + b div 16) mod 16 = b div 16"
  "(c::nat) < 256 \<Longrightarrow> (b mod 16 * 4 + c div 64) div 4 = b mod 16"
  "(c::nat) < 256 \<Longrightarrow> (b mod 16 * 4 + c div 64) mod 4 = c div 64"
  by (simp_all add: byte_parts)

lemma small_parts:
  "(b::nat) < 256 \<Longrightarrow> b div 16 div 16 = 0" "(b::nat) < 256 \<Longrightarrow> b div 16 mod 16 = b div 16"
  "(c::nat) < 256 \<Longrightarrow> c div 64 div 4 = 0" "(c::nat) < 256 \<Longrightarrow> c div 64 mod 4 = c div 64"
  by (simp_all add: byte_parts)

lemma count_mod_4:
  assumes "n mod 4 = 0"
  shows "Suc n mod 4 = 1" "Suc (Suc n) mod 4 = 2" "Suc (Suc (Suc n)) mod 4 = 3"
    "Suc (Suc (Suc (Suc n))) mod 4 = 0"
  using assms by (simp_all add: mod_Suc)

lemma b64_pad_simps:
  "b64_pad [] = []" "b64_pad [x, y] = [CHR ''='', CHR ''='']" "b64_pad [x, y, z] = [CHR ''='']"
  "b64_pad (x # y # z # w # s) = b64_pad s"
  by (simp_all add: b64_pad_def numeral_2_eq_2)

lemma b64_encode_body: "b64_encode bs = b64_body bs @ b64_pad (b64_body bs)"
  by (induction bs rule: b64_encode.induct) (simp_all add: b64_pad_simps)

lemma b64_body_no_eq:
  "list_all (\<lambda>b. b < 256) bs \<Longrightarrow> list_all (\<lambda>c. c \<noteq> CHR ''='') (b64_body bs)"
  by (induction bs rule: b64_body.induct) (simp_all add: sextets)

lemma b64_decode_body:
  "list_all (\<lambda>b. b < 256) bs \<Longrightarrow> n mod 4 = 0 \<Longrightarrow>
     b64_decode_from n left pads (b64_body bs @ b64_pad (b64_body bs)) = Inr bs"
proof (induction bs arbitrary: n left pads rule: b64_body.induct)
  case 1
  then show ?case by (simp add: b64_pad_simps)
next
  case (2 a)
  note m = count_mod_4 [OF 2(2)]
  from 2 m show ?case by (simp only: b64_body.simps b64_pad_simps append.simps) (simp add: sextets)
next
  case (3 a b)
  note m = count_mod_4 [OF 3(2)]
  from 3 m show ?case
    by (simp only: b64_body.simps b64_pad_simps append.simps) (simp add: sextets small_parts)
next
  case (4 a b c r)
  note m = count_mod_4 [OF 4(3)]
  have "b64_decode_from (Suc (Suc (Suc (Suc n)))) 0 0 (b64_body r @ b64_pad (b64_body r)) = Inr r"
    using 4 m by (intro 4(1)) simp_all
  with 4(2,3) m show ?case
    by (simp only: b64_body.simps b64_pad_simps append.simps) (simp add: sextets small_parts)
qed

lemma dropWhile_replicate_append: "P x \<Longrightarrow> dropWhile P (replicate k x @ ys) = dropWhile P ys"
  by (induction k) simp_all

lemma rstrip_eq_append:
  assumes "list_all (\<lambda>c. c \<noteq> CHR ''='') s"
  shows "rstrip_eq (s @ replicate k (CHR ''='')) = s"
proof -
  have "dropWhile (\<lambda>c. c = CHR ''='') (rev s) = rev s"
    using assms by (intro dropWhile_none) (auto simp: list_all_iff)
  then show ?thesis by (simp add: rstrip_eq_def dropWhile_replicate_append)
qed

text \<open>The unpadded encoding, and the decoder that restores the padding.\<close>

definition b64url_encode_bytes :: "nat list \<Rightarrow> string" where
  "b64url_encode_bytes bs = rstrip_eq (b64_encode bs)"

definition b64url_decode_bytes :: "string \<Rightarrow> nat list res" where
  "b64url_decode_bytes s = b64_decode (s @ b64_pad s)"

lemma b64url_encode_body: "list_all (\<lambda>b. b < 256) bs \<Longrightarrow> b64url_encode_bytes bs = b64_body bs"
  using rstrip_eq_append [OF b64_body_no_eq]
  by (simp add: b64url_encode_bytes_def b64_encode_body b64_pad_def)

lemma b64_body_ascii: "list_all (\<lambda>c. cp c < 128) (b64_body bs)"
  by (induction bs rule: b64_body.induct) simp_all

lemma b64url_roundtrip:
  "list_all (\<lambda>b. b < 256) bs \<Longrightarrow> b64url_decode_bytes (b64url_encode_bytes bs) = Inr bs"
proof -
  assume bs: "list_all (\<lambda>b. b < 256) bs"
  have "list_all (\<lambda>c. cp c < 128) (b64_body bs @ b64_pad (b64_body bs))"
    using b64_body_ascii [of bs] by (auto simp: b64_pad_def list_all_iff)
  with bs show ?thesis
    by (simp only: b64url_encode_body b64url_decode_bytes_def b64_decode_def if_True)
      (simp add: b64_decode_body)
qed

interpretation base64: codec b64url_encode_bytes b64url_decode_bytes "list_all (\<lambda>b. b < 256)"
  by unfold_locales (rule b64url_roundtrip)

lemma b64_decode_exn: "b64_decode s = Inl e \<Longrightarrow> \<exists>m. e = ValueError m"
proof -
  have "b64_decode_from n left pads s = Inl e \<Longrightarrow> \<exists>m. e = ValueError m" for n left pads
    by (induction n left pads s rule: b64_decode_from.induct)
      (auto simp: mapR_eq_Inl_iff split: if_splits option.splits)
  then show "b64_decode s = Inl e \<Longrightarrow> \<exists>m. e = ValueError m"
    by (auto simp: b64_decode_def split: if_splits)
qed

end
