(* ===== verification/JsonText.thy ===== *)
theory JsonText
  imports Bytes
begin

text \<open>
  The JSON text format as \<open>json.dumps\<close> with compact separators prints it and \<open>json.loads\<close> reads it.
  The printer yields ASCII; the reader works on code points, keeps the first position and the last
  value of a duplicate key, joins surrogate pairs and refuses an integer of more than 4300 digits.
  A failure carries the reader's message without the position it appends. The facts: the reader
  consumes input at every step, so the fuel given is enough, and it undoes the printer.
\<close>

section \<open>Printing\<close>

definition esc_cp :: "nat \<Rightarrow> string" where
  "esc_cp n =
     (if n = 34 then [CHR 0x5C, CHR 0x22]
      else if n = 92 then [CHR 0x5C, CHR 0x5C]
      else if n = 10 then [CHR 0x5C, CHR ''n'']
      else if n = 13 then [CHR 0x5C, CHR ''r'']
      else if n = 9 then [CHR 0x5C, CHR ''t'']
      else if n = 12 then [CHR 0x5C, CHR ''f'']
      else if n = 8 then [CHR 0x5C, CHR ''b'']
      else if 32 \<le> n \<and> n \<le> 126 then [char_of n]
      else if n < 65536 then [CHR 0x5C, CHR ''u''] @ hex4 n
      else [CHR 0x5C, CHR ''u''] @ hex4 (55296 + (n - 65536) div 1024)
        @ [CHR 0x5C, CHR ''u''] @ hex4 (56320 + (n - 65536) mod 1024))"

definition dump_str :: "string \<Rightarrow> string" where
  "dump_str s = [CHR 0x22] @ concat (map (\<lambda>c. esc_cp (cp c)) s) @ [CHR 0x22]"

fun json_dumps :: "json \<Rightarrow> string" where
  "json_dumps JNull = ''null''"
| "json_dumps (JBool b) = (if b then ''true'' else ''false'')"
| "json_dumps (JInt i) = show_int i"
| "json_dumps (JFloat s) =
     (if s = ''nan'' then ''NaN'' else if s = ''inf'' then ''Infinity''
      else if s = ''-inf'' then ''-Infinity'' else s)"
| "json_dumps (JStr s) = dump_str s"
| "json_dumps (JUni u) = [CHR 0x22] @ concat (map esc_cp u) @ [CHR 0x22]"
| "json_dumps (JList xs) = ''['' @ join '','' (map json_dumps xs) @ '']''"
| "json_dumps (JObj d) =
     ''{'' @ join '','' (map (\<lambda>(k, v). dump_str k @ '':'' @ json_dumps v) d) @ ''}''"

text \<open>Printing fails on an integer of more than 4300 digits, as \<open>str\<close> does.\<close>

fun dumpable :: "json \<Rightarrow> bool" where
  "dumpable (JInt i) = (length (show_dec (nat \<bar>i\<bar>)) \<le> max_str_digits)"
| "dumpable (JList xs) = list_all dumpable xs"
| "dumpable (JObj d) = list_all (\<lambda>(k, v). dumpable v) d"
| "dumpable _ = True"

definition json_dumps_res :: "json \<Rightarrow> string res" where
  "json_dumps_res j =
     (if dumpable j then Inr (json_dumps j)
      else Inl (ValueError (''Exceeds the limit (4300 digits) for integer string conversion''
             @ ''; use sys.set_int_max_str_digits() to increase the limit'')))"

section \<open>Reading\<close>

definition is_ws :: "nat \<Rightarrow> bool" where
  "is_ws n = (n = 32 \<or> n = 9 \<or> n = 10 \<or> n = 13)"

definition skip_ws :: "nat list \<Rightarrow> nat list" where
  "skip_ws s = dropWhile is_ws s"

definition digit_n :: "nat \<Rightarrow> bool" where
  "digit_n n = (48 \<le> n \<and> n \<le> 57)"

definition hex_n :: "nat \<Rightarrow> nat option" where
  "hex_n n = (if n < 256 \<and> is_hex_digit (char_of n) then Some (digit_val (char_of n)) else None)"

fun read_hex4 :: "nat list \<Rightarrow> (nat \<times> nat list) option" where
  "read_hex4 (a # b # c # d # r) =
     (case (hex_n a, hex_n b, hex_n c, hex_n d) of
        (Some w, Some x, Some y, Some z) \<Rightarrow> Some (4096 * w + 256 * x + 16 * y + z, r)
      | _ \<Rightarrow> None)"
| "read_hex4 _ = None"

definition simple_escape :: "nat \<Rightarrow> nat option" where
  "simple_escape e = map_of
     [(34, 34), (92, 92), (47, 47), (98, 8), (102, 12), (110, 10), (114, 13), (116, 9)] e"

abbreviation json_err :: "string \<Rightarrow> exn + 'a" where
  "json_err m \<equiv> Inl (JSONDecodeError m)"

text \<open>
  One escape after the backslash: the code point and the rest. A high surrogate followed by the
  escape of a low one yields the character the pair stands for.
\<close>

definition read_escape :: "nat list \<Rightarrow> (nat \<times> nat list) res" where
  "read_escape s =
     (case s of
        [] \<Rightarrow> json_err ''Unterminated string starting at''
      | e # r \<Rightarrow>
          if e = 117 then
            (case read_hex4 r of
               None \<Rightarrow> json_err ''Invalid uXXXX escape''
             | Some (n, r1) \<Rightarrow>
                 if 55296 \<le> n \<and> n \<le> 56319 \<and> take 2 r1 = [92, 117] then
                   (case read_hex4 (drop 2 r1) of
                      None \<Rightarrow> json_err ''Invalid uXXXX escape''
                    | Some (m, r2) \<Rightarrow>
                        if 56320 \<le> m \<and> m \<le> 57343
                        then Inr (65536 + (n - 55296) * 1024 + (m - 56320), r2)
                        else Inr (n, r1))
                 else Inr (n, r1))
          else (case simple_escape e of
                  None \<Rightarrow> json_err ''Invalid escape''
                | Some n \<Rightarrow> Inr (n, r)))"

lemma read_hex4_shorter: "read_hex4 s = Some (n, r) \<Longrightarrow> length r < length s"
  by (induction s rule: read_hex4.induct) (auto split: option.splits prod.splits)

lemma read_escape_shorter: "read_escape s = Inr (n, r) \<Longrightarrow> length r < length s"
  by (auto simp: read_escape_def dest!: read_hex4_shorter split: list.splits if_splits option.splits)

text \<open>The characters of a string after its opening quote, and the rest after the closing one.\<close>

function read_str :: "nat list \<Rightarrow> (nat list \<times> nat list) res" where
  "read_str [] = json_err ''Unterminated string starting at''"
| "read_str (c # s) =
     (if c = 34 then Inr ([], s)
      else if c = 92 then
        (case read_escape s of
           Inl e \<Rightarrow> Inl e
         | Inr (n, r) \<Rightarrow> mapR (\<lambda>(u, r'). (n # u, r')) (read_str r))
      else if c < 32 then json_err ''Invalid control character at''
      else mapR (\<lambda>(u, r'). (c # u, r')) (read_str s))"
  by pat_completeness auto
termination
  by (relation "measure length") (auto dest: read_escape_shorter)

lemma read_str_shorter: "read_str s = Inr (u, r) \<Longrightarrow> length r < length s"
proof (induction s arbitrary: u r rule: read_str.induct)
  case 1
  then show ?case by simp
next
  case (2 c s)
  show ?case
  proof (cases "c = 92")
    case True
    then obtain n r1 where e: "read_escape s = Inr (n, r1)"
      using "2.prems" by (auto split: sum.splits)
    with True "2.prems" obtain u' where "read_str r1 = Inr (u', r)"
      by (auto simp: mapR_eq_Inr_iff)
    with True e "2.IH"(1) have "length r < length r1" by fastforce
    with read_escape_shorter [OF e] show ?thesis by simp
  next
    case False
    show ?thesis
    proof (cases "c = 34")
      case True
      with "2.prems" show ?thesis by simp
    next
      case ne: False
      with False "2.prems" obtain u' where "\<not> c < 32" "read_str s = Inr (u', r)"
        by (auto simp: mapR_eq_Inr_iff split: if_splits)
      with "2.IH"(2) False ne show ?thesis by fastforce
    qed
  qed
qed

text \<open>
  Numbers: an optional sign, an integer part without a leading zero, an optional fraction and an
  optional exponent, each taken only with at least one digit. Without the last two it is an integer.
\<close>

definition int_part :: "nat list \<Rightarrow> (nat list \<times> nat list) option" where
  "int_part s =
     (case s of
        [] \<Rightarrow> None
      | d # r \<Rightarrow>
          if d = 48 then Some ([48], r)
          else if digit_n d then Some (takeWhile digit_n s, dropWhile digit_n s)
          else None)"

definition frac_part :: "nat list \<Rightarrow> nat list \<times> nat list" where
  "frac_part s =
     (case s of
        p # d # r \<Rightarrow>
          if p = 46 \<and> digit_n d
          then (46 # takeWhile digit_n (d # r), dropWhile digit_n (d # r)) else ([], s)
      | _ \<Rightarrow> ([], s))"

definition exp_part :: "nat list \<Rightarrow> nat list \<times> nat list" where
  "exp_part s =
     (case s of
        e # r \<Rightarrow>
          if e = 101 \<or> e = 69 then
            (let (sg, r1) = (case r of x # y \<Rightarrow> if x = 43 \<or> x = 45 then ([x], y) else ([], r)
                             | [] \<Rightarrow> ([], r)) in
             if takeWhile digit_n r1 = [] then ([], s)
             else (e # sg @ takeWhile digit_n r1, dropWhile digit_n r1))
          else ([], s)
      | [] \<Rightarrow> ([], s))"

definition read_num :: "nat list \<Rightarrow> (json \<times> nat list) res" where
  "read_num s =
     (let (neg, s1) = (case s of c # t \<Rightarrow> if c = 45 then (True, t) else (False, s)
                       | [] \<Rightarrow> (False, s)) in
      case int_part s1 of
        None \<Rightarrow> json_err ''Expecting value''
      | Some (ip, s2) \<Rightarrow>
          (let (fp, s3) = frac_part s2; (ep, s4) = exp_part s3 in
           if fp = [] \<and> ep = [] then
             (if max_str_digits < length ip then Inl (ValueError (int_limit_msg (length ip)))
              else (let n = int (read_digits 10 (map char_of ip))
                    in Inr (JInt (if neg then - n else n), s2)))
           else Inr (JFloat ((if neg then ''-'' else []) @ map char_of (ip @ fp @ ep)), s4)))"

definition literals :: "(string \<times> json) list" where
  "literals = [(''null'', JNull), (''true'', JBool True), (''false'', JBool False),
     (''NaN'', JFloat ''nan''), (''Infinity'', JFloat ''inf''), (''-Infinity'', JFloat ''-inf'')]"

fun read_literal :: "(string \<times> json) list \<Rightarrow> nat list \<Rightarrow> (json \<times> nat list) option" where
  "read_literal [] s = None"
| "read_literal ((w, v) # ws) s =
     (if take (length w) s = map cp w then Some (v, drop (length w) s) else read_literal ws s)"

text \<open>A key with a code point beyond 255 is kept as its escaped text.\<close>

definition key_of :: "nat list \<Rightarrow> string" where
  "key_of u = (if list_all (\<lambda>n. n < 256) u then map char_of u else concat (map esc_cp u))"

text \<open>Values, the elements of an array and the members of an object, with fuel.\<close>

fun read_value :: "nat \<Rightarrow> nat list \<Rightarrow> (json \<times> nat list) res"
  and read_elems :: "nat \<Rightarrow> json list \<Rightarrow> nat list \<Rightarrow> (json \<times> nat list) res"
  and read_members :: "nat \<Rightarrow> dict \<Rightarrow> nat list \<Rightarrow> (json \<times> nat list) res" where
  "read_value 0 s = json_err ''out of fuel''"
| "read_value (Suc f) s =
     (case s of
        [] \<Rightarrow> json_err ''Expecting value''
      | c # t \<Rightarrow>
          if c = 34 then bindE (read_str t) (\<lambda>(u, r). Inr (mk_str u, r))
          else if c = 123 then
            (case skip_ws t of
               [] \<Rightarrow> json_err ''Expecting property name enclosed in double quotes''
             | b # r \<Rightarrow> if b = 125 then Inr (JObj [], r) else read_members f [] (b # r))
          else if c = 91 then
            (case skip_ws t of
               [] \<Rightarrow> json_err ''Expecting value''
             | b # r \<Rightarrow> if b = 93 then Inr (JList [], r) else read_elems f [] (b # r))
          else (case read_literal literals s of
                  Some (v, r) \<Rightarrow> Inr (v, r)
                | None \<Rightarrow> read_num s))"
| "read_elems 0 acc s = json_err ''out of fuel''"
| "read_elems (Suc f) acc s =
     (case read_value f s of
        Inl e \<Rightarrow> Inl e
      | Inr (v, r) \<Rightarrow>
          (case skip_ws r of
             [] \<Rightarrow> json_err (''Expecting '' @ repr_str '','' @ '' delimiter'')
           | b # r' \<Rightarrow>
               if b = 93 then Inr (JList (acc @ [v]), r')
               else if b = 44 then read_elems f (acc @ [v]) (skip_ws r')
               else json_err (''Expecting '' @ repr_str '','' @ '' delimiter'')))"
| "read_members 0 acc s = json_err ''out of fuel''"
| "read_members (Suc f) acc s =
     (case s of
        [] \<Rightarrow> json_err ''Expecting property name enclosed in double quotes''
      | q # t \<Rightarrow>
          if q \<noteq> 34 then json_err ''Expecting property name enclosed in double quotes''
          else (case read_str t of
             Inl e \<Rightarrow> Inl e
           | Inr (k, r) \<Rightarrow>
               (case skip_ws r of
                  [] \<Rightarrow> json_err (''Expecting '' @ repr_str '':'' @ '' delimiter'')
                | b # r1 \<Rightarrow>
                    if b \<noteq> 58 then json_err (''Expecting '' @ repr_str '':'' @ '' delimiter'')
                    else (case read_value f (skip_ws r1) of
                       Inl e \<Rightarrow> Inl e
                     | Inr (v, r2) \<Rightarrow>
                         (case skip_ws r2 of
                            [] \<Rightarrow> json_err (''Expecting '' @ repr_str '','' @ '' delimiter'')
                          | x # r3 \<Rightarrow>
                              if x = 125 then Inr (JObj (dset (key_of k) v acc), r3)
                              else if x = 44
                              then read_members f (dset (key_of k) v acc) (skip_ws r3)
                              else json_err (''Expecting '' @ repr_str '','' @ '' delimiter''))))))"

definition json_loads :: "nat list \<Rightarrow> json res" where
  "json_loads txt =
     (if take 1 txt = [65279]
      then json_err ''Unexpected UTF-8 BOM (decode using utf-8-sig)''
      else (let s = skip_ws txt in
            bindE (read_value (2 * length s + 1) s) (\<lambda>(v, r).
              if skip_ws r = [] then Inr v else json_err ''Extra data'')))"

section \<open>The reader consumes input, so its fuel is enough\<close>

lemma skip_ws_le: "skip_ws s = c # r \<Longrightarrow> length r < length s"
  using length_dropWhile_le [of is_ws s] by (simp add: skip_ws_def)

lemma length_skip_ws: "length (skip_ws s) \<le> length s"
  by (simp add: skip_ws_def length_dropWhile_le)

lemma int_part_shorter: "int_part s = Some (p, r) \<Longrightarrow> length r < length s"
proof (cases s)
  case (Cons d t)
  assume "int_part s = Some (p, r)"
  moreover have "length (dropWhile digit_n t) \<le> length t" by (rule length_dropWhile_le)
  ultimately show ?thesis using Cons by (auto simp: int_part_def split: if_splits)
qed (simp add: int_part_def)

lemma frac_part_le: "length (snd (frac_part s)) \<le> length s"
proof -
  have "length (dropWhile digit_n t) \<le> length t" for t by (rule length_dropWhile_le)
  then show ?thesis
    by (auto simp: frac_part_def split: list.splits intro: le_SucI)
qed

lemma exp_part_le: "length (snd (exp_part s)) \<le> length s"
proof -
  have "length (dropWhile digit_n t) \<le> length t" for t by (rule length_dropWhile_le)
  then show ?thesis
    by (auto simp: exp_part_def Let_def split: list.splits intro: le_SucI)
qed

lemma read_num_shorter:
  assumes "read_num s = Inr (v, r)"
  shows "length r < length s"
proof -
  obtain neg s1 where s1: "(case s of c # t \<Rightarrow> if c = 45 then (True, t) else (False, s)
      | [] \<Rightarrow> (False, s)) = (neg, s1)" by (metis surj_pair)
  then have le: "length s1 \<le> length s" by (auto split: list.splits if_splits)
  obtain ip s2 where ip: "int_part s1 = Some (ip, s2)"
    using assms s1 by (cases "int_part s1") (auto simp: read_num_def)
  obtain fp s3 where fp: "frac_part s2 = (fp, s3)" by (cases "frac_part s2")
  obtain ep s4 where ep: "exp_part s3 = (ep, s4)" by (cases "exp_part s3")
  have "r = s2 \<or> r = s4"
    using assms s1 ip fp ep by (auto simp: read_num_def Let_def split: if_splits)
  then show ?thesis
    using le int_part_shorter [OF ip] frac_part_le [of s2] exp_part_le [of s3] fp ep by auto
qed

lemma read_literal_shorter:
  "read_literal ws s = Some (v, r) \<Longrightarrow> list_all (\<lambda>(w, x). w \<noteq> []) ws \<Longrightarrow> length r < length s"
proof (induction ws s rule: read_literal.induct)
  case (2 w x ws s)
  then show ?case by (cases s; cases w) (auto split: if_splits)
qed simp

lemma literals_nonempty: "list_all (\<lambda>(w, x). w \<noteq> []) literals"
  by (simp add: literals_def)

lemma reader_shorter:
  "(\<forall>s v r. read_value f s = Inr (v, r) \<longrightarrow> length r < length s)
   \<and> (\<forall>acc s v r. read_elems f acc s = Inr (v, r) \<longrightarrow> length r < length s)
   \<and> (\<forall>acc s v r. read_members f acc s = Inr (v, r) \<longrightarrow> length r < length s)"
proof (induction f)
  case 0
  then show ?case by simp
next
  case (Suc f)
  have V: "read_value f s = Inr (v, r) \<Longrightarrow> length r < length s"
    and E: "read_elems f acc s = Inr (v, r) \<Longrightarrow> length r < length s"
    and M: "read_members f acc2 s = Inr (v, r) \<Longrightarrow> length r < length s" for s v r acc acc2
    using Suc by blast+
  have "length r < length s" if "read_value (Suc f) s = Inr (v, r)" for s v r
    using that
    by (auto simp: res_iffs split: list.splits if_splits option.splits
        dest!: read_str_shorter skip_ws_le E M read_num_shorter
          read_literal_shorter [OF _ literals_nonempty])
  moreover have "length r < length s" if "read_elems (Suc f) acc s = Inr (v, r)" for acc s v r
    using that length_skip_ws
    by (fastforce split: list.splits if_splits sum.splits dest!: skip_ws_le V E dest: le_less_trans)
  moreover have "length r < length s" if "read_members (Suc f) acc s = Inr (v, r)" for acc s v r
  proof -
    have sk: "length (skip_ws t) \<le> length t" for t by (rule length_skip_ws)
    note m = that
    obtain t where t: "s = 34 # t"
      using m by (cases s) (auto split: if_splits)
    with m obtain k r0 where s: "s = 34 # t" "read_str t = Inr (k, r0)"
      by (cases "read_str t") auto
    with m obtain r1 where r1: "skip_ws r0 = 58 # r1"
      by (cases "skip_ws r0") (auto split: if_splits)
    with m s obtain w r2 where r2: "read_value f (skip_ws r1) = Inr (w, r2)"
      by (cases "read_value f (skip_ws r1)") auto
    with m s r1 obtain x r3 where r3: "skip_ws r2 = x # r3"
      by (cases "skip_ws r2") auto
    have "length r3 < length s"
      using read_str_shorter [OF s(2)] skip_ws_le [OF r1] V [OF r2] skip_ws_le [OF r3]
        sk [of r1] s(1) by simp
    moreover have "r = r3 \<or> read_members f (dset (key_of k) w acc) (skip_ws r3) = Inr (v, r)"
      using m s r1 r2 r3 by (auto split: if_splits)
    ultimately show ?thesis using M sk [of r3] by fastforce
  qed
  ultimately show ?case by blast
qed

lemmas read_value_shorter = reader_shorter [THEN conjunct1, rule_format]

abbreviation fuel_err :: exn where
  "fuel_err \<equiv> JSONDecodeError ''out of fuel''"

lemma read_escape_no_fuel_err: "read_escape s \<noteq> Inl fuel_err"
  by (auto simp: read_escape_def split: list.splits if_splits option.splits)

lemma read_str_no_fuel_err: "read_str s \<noteq> Inl fuel_err"
proof (induction s rule: read_str.induct)
  case (2 c s)
  then show ?case
    using read_escape_no_fuel_err [of s]
    by (auto simp: res_iffs split: if_splits sum.splits prod.splits)
qed simp

lemma read_num_no_fuel_err: "read_num s \<noteq> Inl fuel_err"
  by (auto simp: read_num_def Let_def split: option.splits prod.splits if_splits)

lemma reader_no_fuel_err:
  "(\<forall>s. 2 * length s < f \<longrightarrow> read_value f s \<noteq> Inl fuel_err)
   \<and> (\<forall>acc s. 2 * length s + 1 < f \<longrightarrow> read_elems f acc s \<noteq> Inl fuel_err)
   \<and> (\<forall>acc s. 2 * length s + 1 < f \<longrightarrow> read_members f acc s \<noteq> Inl fuel_err)"
proof (induction f)
  case 0
  then show ?case by simp
next
  case (Suc f)
  have V: "2 * length s < f \<Longrightarrow> read_value f s \<noteq> Inl fuel_err"
    and E: "2 * length s + 1 < f \<Longrightarrow> read_elems f acc s \<noteq> Inl fuel_err"
    and M: "2 * length s + 1 < f \<Longrightarrow> read_members f acc2 s \<noteq> Inl fuel_err" for s acc acc2
    using Suc by blast+
  have sk: "length (skip_ws t) \<le> length t" for t by (rule length_skip_ws)
  have "read_value (Suc f) s \<noteq> Inl fuel_err" if "2 * length s < Suc f" for s
  proof (cases s)
    case (Cons c t)
    have f: "2 * length t + 1 < f" using that Cons by simp
    have "read_elems f [] (skip_ws t) \<noteq> Inl fuel_err" "read_members f [] (skip_ws t) \<noteq> Inl fuel_err"
      using f sk [of t] by (intro E M; simp)+
    then show ?thesis
      using read_num_no_fuel_err [of "c # t"] read_str_no_fuel_err [of t] Cons
      by (auto simp: res_iffs split: list.splits option.splits)
  qed simp
  moreover have "read_elems (Suc f) acc s \<noteq> Inl fuel_err" if "2 * length s + 1 < Suc f" for acc s
  proof
    assume err: "read_elems (Suc f) acc s = Inl fuel_err"
    have "read_value f s \<noteq> Inl fuel_err" using that by (intro V) simp
    with err obtain v r where r: "read_value f s = Inr (v, r)"
      by (auto split: sum.splits)
    with err obtain r' where r': "skip_ws r = 44 # r'"
      and rec: "read_elems f (acc @ [v]) (skip_ws r') = Inl fuel_err"
      by (auto split: list.splits if_splits)
    have "length r < length s" using reader_shorter r by blast
    with that sk [of r'] skip_ws_le [OF r'] have "2 * length (skip_ws r') + 1 < f" by simp
    with E rec show False by blast
  qed
  moreover have "read_members (Suc f) acc s \<noteq> Inl fuel_err" if "2 * length s + 1 < Suc f" for acc s
  proof
    assume err: "read_members (Suc f) acc s = Inl fuel_err"
    then obtain t k r0 where s: "s = 34 # t" "read_str t = Inr (k, r0)"
      using read_str_no_fuel_err by (auto split: list.splits if_splits sum.splits)
    with err obtain r1 where r1: "skip_ws r0 = 58 # r1"
      by (auto split: list.splits if_splits)
    have l1: "length r1 < length s"
      using read_str_shorter [OF s(2)] skip_ws_le [OF r1] s(1) by simp
    with that sk [of r1] have "read_value f (skip_ws r1) \<noteq> Inl fuel_err" by (intro V) simp
    with err s r1 obtain w r2 where r2: "read_value f (skip_ws r1) = Inr (w, r2)"
      by (auto split: sum.splits)
    have l2: "length r2 < length s" using reader_shorter r2 l1 sk [of r1] by (meson le_less_trans less_trans less_le_trans)
    from err s r1 r2 obtain r3 where r3: "skip_ws r2 = 44 # r3"
      "read_members f (dset (key_of k) w acc) (skip_ws r3) = Inl fuel_err"
      by (auto split: list.splits if_splits)
    have "2 * length (skip_ws r3) + 1 < f"
      using that l2 sk [of r3] skip_ws_le [OF r3(1)] by simp
    with M r3(2) show False by blast
  qed
  ultimately show ?case by blast
qed

lemma json_loads_no_fuel_err: "json_loads txt \<noteq> Inl fuel_err"
  using reader_no_fuel_err [of "2 * length (skip_ws txt) + 1"]
  by (auto simp: json_loads_def Let_def res_iffs simp del: read_value.simps split: if_splits)

section \<open>Reading what was printed\<close>

text \<open>
  The values whose text the reader gives back: strings of the model's characters, integers the
  reader converts, dictionaries without duplicate keys; no float, whose text is not unique.
\<close>

fun json_plain :: "json \<Rightarrow> bool" where
  "json_plain JNull = True"
| "json_plain (JBool b) = True"
| "json_plain (JInt i) = (length (show_dec (nat \<bar>i\<bar>)) \<le> max_str_digits)"
| "json_plain (JFloat s) = False"
| "json_plain (JStr s) = True"
| "json_plain (JUni u) = False"
| "json_plain (JList xs) = list_all json_plain xs"
| "json_plain (JObj d) = (distinct (map fst d) \<and> list_all (\<lambda>(k, v). json_plain v) d)"

abbreviation cps :: "string \<Rightarrow> nat list" where
  "cps s \<equiv> map cp s"

text \<open>What may follow a value inside a document: nothing, a comma or a closing bracket.\<close>

definition delim :: "nat list \<Rightarrow> bool" where
  "delim r = (case r of [] \<Rightarrow> True | c # t \<Rightarrow> c = 44 \<or> c = 93 \<or> c = 125)"

lemma hex_n_digit [simp]: "d < 16 \<Longrightarrow> hex_n (cp (digit_char d)) = Some d"
  by (simp add: hex_n_def)

lemma hex_n_digit_char: "is_hex_digit c \<Longrightarrow> hex_n (cp c) = Some (digit_val c)"
  by (simp add: hex_n_def)

lemma read_hex4_hex4:
  assumes "n < 65536"
  shows "read_hex4 (cps (hex4 n) @ r) = Some (n, r)"
proof -
  define a b c where "a = n div 16" and "b = a div 16" and "c = b div 16"
  have b: "n div 256 = b" by (simp add: a_def b_def div_mult2_eq [symmetric])
  have "c < 16" using assms by (simp add: a_def b_def c_def div_mult2_eq [symmetric] less_mult_imp_div_less)
  moreover have "n = a * 16 + n mod 16" "a = b * 16 + a mod 16" "b = c * 16 + b mod 16"
    by (simp_all add: a_def b_def c_def)
  ultimately have "4096 * (c mod 16) + 256 * (b mod 16) + 16 * (a mod 16) + n mod 16 = n"
    by simp
  then show ?thesis
    by (simp add: hex4_def hex2_def b a_def [symmetric] c_def [symmetric])
qed

text \<open>A string of the model's characters, printed and read.\<close>

lemma read_str_esc:
  assumes "n < 256"
  shows "read_str (cps (esc_cp n) @ s) = mapR (\<lambda>(u, r). (n # u, r)) (read_str s)"
proof -
  have *: "read_escape (117 # cps (hex4 n) @ s) = Inr (n, s)"
    using assms read_hex4_hex4 [of n s] by (simp add: read_escape_def)
  show ?thesis
    using assms * by (auto simp: esc_cp_def read_escape_def simple_escape_def)
qed

lemma read_str_dump:
  "read_str (cps (concat (map (\<lambda>c. esc_cp (cp c)) s)) @ 34 # r) = Inr (cps s, r)"
proof (induction s)
  case Nil
  then show ?case by simp
next
  case (Cons c s)
  then show ?case using read_str_esc [of "cp c"] by (simp add: cp_less)
qed

lemma mk_str_cps [simp]: "mk_str (cps s) = JStr s"
  by (simp add: mk_str_def list_all_iff comp_def)

lemma key_of_cps [simp]: "key_of (cps s) = s"
  by (simp add: key_of_def list_all_iff comp_def)

text \<open>An integer, printed and read.\<close>

lemma digit_n_cp [simp]: "digit_n (cp c) = is_dec_digit c"
  by (simp add: digit_n_def is_dec_digit_def)

lemma delim_not_digit: "delim r \<Longrightarrow> takeWhile digit_n r = [] \<and> dropWhile digit_n r = r"
  by (cases r) (auto simp: delim_def digit_n_def)

lemma takeWhile_digits:
  assumes "list_all is_dec_digit s" "delim r"
  shows "takeWhile digit_n (cps s @ r) = cps s" "dropWhile digit_n (cps s @ r) = r"
  using assms delim_not_digit [OF assms(2)] by (induction s) auto

lemma show_dec_pos:
  assumes "0 < n"
  shows "\<exists>d ds. show_dec n = digit_char d # ds \<and> 0 < d \<and> d < 10"
proof -
  obtain d ds where d: "digits_of 10 n = d # ds" by (cases "digits_of 10 n") auto
  then have "d \<noteq> 0" "d < 10"
    using digits_of_hd [of 10 n] digits_of_lt [of 10 d n] assms by auto
  with d show ?thesis by (auto simp: show_dec_def)
qed

lemma show_dec_0 [simp]: "show_dec 0 = ''0''"
  by code_simp

lemma int_part_show:
  assumes "delim r"
  shows "int_part (cps (show_dec n) @ r) = Some (cps (show_dec n), r)"
proof (cases "n = 0")
  case True
  then show ?thesis by (simp add: int_part_def)
next
  case False
  then obtain d ds where d: "show_dec n = digit_char d # ds" "0 < d" "d < 10"
    using show_dec_pos [of n] by auto
  then have "cp (digit_char d) = 48 + d" by (simp add: digit_char_def)
  moreover have "int_part (cps (show_dec n) @ r) =
      (if cp (digit_char d) = 48 then Some ([48], cps ds @ r)
       else Some (takeWhile digit_n (cps (show_dec n) @ r), dropWhile digit_n (cps (show_dec n) @ r)))"
    using d by (simp add: int_part_def)
  ultimately show ?thesis
    using d(2) takeWhile_digits [OF show_dec_digits assms] by simp
qed

lemma delim_no_frac: "delim r \<Longrightarrow> frac_part r = ([], r) \<and> exp_part r = ([], r)"
  by (cases r) (auto simp: delim_def frac_part_def exp_part_def split: list.splits)

lemma show_dec_not_minus: "\<exists>c s. show_dec n = c # s \<and> cp c \<noteq> 45 \<and> is_dec_digit c"
proof -
  obtain c s where cs: "show_dec n = c # s" by (cases "show_dec n") auto
  with show_dec_digits [of n] have "is_dec_digit c" by simp
  with cs show ?thesis by (auto simp: is_dec_digit_def)
qed

lemma read_num_show:
  assumes "delim r" "length (show_dec (nat \<bar>i\<bar>)) \<le> max_str_digits"
  shows "read_num (cps (show_int i) @ r) = Inr (JInt i, r)"
proof (cases "i < 0")
  case True
  then show ?thesis
    using assms int_part_show [OF assms(1), of "nat (- i)"] delim_no_frac [OF assms(1)]
    by (simp add: read_num_def show_int_def Let_def comp_def)
next
  case False
  obtain c s where cs: "show_dec (nat i) = c # s" "cp c \<noteq> 45"
    using show_dec_not_minus by blast
  have "int (read_digits 10 (c # s)) = i"
    using read_show_dec [of "nat i"] cs(1) False by simp
  with cs False show ?thesis
    using assms int_part_show [OF assms(1), of "nat i"] delim_no_frac [OF assms(1)]
    by (simp add: read_num_def show_int_def Let_def comp_def split: list.splits)
qed

text \<open>What a printed value starts with.\<close>

definition value_start :: "nat list \<Rightarrow> bool" where
  "value_start s = (case s of [] \<Rightarrow> False | c # t \<Rightarrow> \<not> is_ws c \<and> c \<noteq> 93 \<and> c \<noteq> 125)"

lemma dec_digit_range: "is_dec_digit c \<Longrightarrow> 48 \<le> cp c \<and> cp c \<le> 57"
  by (simp add: is_dec_digit_def)

lemma value_start_dump: "json_plain j \<Longrightarrow> value_start (cps (json_dumps j) @ r)"
proof (cases j)
  case (JInt i)
  obtain c s where "show_dec (nat \<bar>i\<bar>) = c # s" "is_dec_digit c"
    using show_dec_not_minus by blast
  with JInt dec_digit_range [of c] show ?thesis
    by (auto simp: value_start_def show_int_def is_ws_def split: if_splits)
qed (auto simp: value_start_def is_ws_def dump_str_def)

lemma skip_ws_start: "value_start s \<Longrightarrow> skip_ws s = s"
  by (cases s) (auto simp: value_start_def skip_ws_def)

lemma skip_ws_delim: "delim r \<Longrightarrow> skip_ws r = r"
  by (cases r) (auto simp: delim_def skip_ws_def is_ws_def)

lemma skip_ws_Cons [simp]: "\<not> is_ws c \<Longrightarrow> skip_ws (c # s) = c # s"
  by (simp add: skip_ws_def)

lemma read_value_int:
  assumes "delim r" "json_plain (JInt i)"
  shows "read_value (Suc f) (cps (show_int i) @ r) = Inr (JInt i, r)"
proof -
  obtain c s where cs: "show_dec (nat \<bar>i\<bar>) = c # s" "is_dec_digit c"
    using show_dec_not_minus by blast
  let ?s = "cps (show_int i) @ r"
  have i: "?s = (if i < 0 then 45 # cp c # cps s @ r else cp c # cps s @ r)"
    using cs by (cases "i < 0") (simp_all add: show_int_def)
  have lit: "read_literal literals ?s = None"
    using dec_digit_range [OF cs(2)] unfolding i by (auto simp: literals_def)
  have c': "?s = (if i < 0 then 45 else cp c) # (if i < 0 then cp c # cps s @ r else cps s @ r)"
    "(if i < 0 then 45 else cp c) \<notin> {34, 123, 91}"
    using dec_digit_range [OF cs(2)] unfolding i by auto
  have step: "read_value (Suc f) ?s =
      (case read_literal literals ?s of Some (v, r) \<Rightarrow> Inr (v, r) | None \<Rightarrow> read_num ?s)"
    using c'(2) by (subst c'(1), subst read_value.simps) (simp only: list.case, simp add: c'(1))
  have "read_num ?s = Inr (JInt i, r)"
    using assms by (intro read_num_show) simp_all
  with step lit show ?thesis by simp
qed

lemma read_value_empty:
  "read_value (Suc f) (cps (json_dumps (JList [])) @ r) = Inr (JList [], r)"
  "read_value (Suc f) (cps (json_dumps (JObj [])) @ r) = Inr (JObj [], r)"
  "read_value (Suc f) (cps (json_dumps JNull) @ r) = Inr (JNull, r)"
  "read_value (Suc f) (cps (json_dumps (JBool b)) @ r) = Inr (JBool b, r)"
  by (simp_all add: is_ws_def literals_def)

definition reads_back :: "json \<Rightarrow> bool" where
  "reads_back j \<longleftrightarrow> (\<forall>f r. delim r \<longrightarrow> 2 * length (json_dumps j) < f \<longrightarrow>
     read_value f (cps (json_dumps j) @ r) = Inr (j, r))"

lemma read_elems_dump:
  assumes "\<And>x. x \<in> set (x0 # xs) \<Longrightarrow> reads_back x \<and> json_plain x"
    and "2 * length (join '','' (map json_dumps (x0 # xs))) + 1 < f"
  shows "read_elems f acc (cps (join '','' (map json_dumps (x0 # xs))) @ 93 # r)
    = Inr (JList (acc @ x0 # xs), r)"
  using assms
proof (induction xs arbitrary: x0 acc f)
  case Nil
  then obtain g where f: "f = Suc g" "2 * length (json_dumps x0) < g"
    by (cases f) auto
  with Nil have "read_value g (cps (json_dumps x0) @ 93 # r) = Inr (x0, 93 # r)"
    by (auto simp: reads_back_def delim_def)
  with f show ?case by (simp add: is_ws_def)
next
  case (Cons y ys)
  let ?rest = "cps (join '','' (map json_dumps (y # ys))) @ 93 # r"
  from Cons.prems(2) obtain g where f: "f = Suc g" "2 * length (json_dumps x0) < g"
    "2 * length (join '','' (map json_dumps (y # ys))) + 1 < g"
    by (cases f) auto
  have "read_value g (cps (json_dumps x0) @ 44 # ?rest) = Inr (x0, 44 # ?rest)"
    using Cons.prems(1) f(2) by (auto simp: reads_back_def delim_def)
  moreover have "skip_ws ?rest = ?rest"
  proof -
    obtain t where "join '','' (map json_dumps (y # ys)) = json_dumps y @ t"
      by (cases ys) auto
    with value_start_dump [of y "cps t @ 93 # r"] Cons.prems(1) show ?thesis
      by (simp add: skip_ws_start)
  qed
  moreover have "read_elems g (acc @ [x0]) ?rest = Inr (JList ((acc @ [x0]) @ y # ys), r)"
    using Cons.prems(1) f(3) by (intro Cons.IH) auto
  ultimately show ?case by (simp add: f(1) is_ws_def)
qed

abbreviation dump_item :: "string \<times> json \<Rightarrow> string" where
  "dump_item p \<equiv> (case p of (k, v) \<Rightarrow> dump_str k @ '':'' @ json_dumps v)"

lemma read_members_step:
  assumes "read_value g (cps (json_dumps v0) @ x # rest) = Inr (v0, x # rest)"
    and "json_plain v0" and "x = 125 \<or> x = 44"
  shows "read_members (Suc g) acc (cps (dump_item (k0, v0)) @ x # rest) =
    (if x = 125 then Inr (JObj (dset k0 v0 acc), rest)
     else read_members g (dset k0 v0 acc) (skip_ws rest))"
proof -
  have "\<not> is_ws x" using assms(3) by (auto simp: is_ws_def)
  then show ?thesis
    using assms value_start_dump [of v0 "x # rest"]
    by (auto simp: dump_str_def read_str_dump is_ws_def skip_ws_start simp del: map_concat)
qed

lemma read_members_dump:
  assumes "\<And>k v. (k, v) \<in> set ((k0, v0) # d) \<Longrightarrow> reads_back v \<and> json_plain v"
    and "2 * length (join '','' (map dump_item ((k0, v0) # d))) + 1 < f"
    and "distinct (map fst (acc @ (k0, v0) # d))"
  shows "read_members f acc (cps (join '','' (map dump_item ((k0, v0) # d))) @ 125 # r)
    = Inr (JObj (acc @ (k0, v0) # d), r)"
  using assms
proof (induction d arbitrary: k0 v0 acc f)
  case Nil
  then obtain g where f: "f = Suc g" "2 * length (json_dumps v0) < g"
    by (cases f) auto
  with Nil have v: "read_value g (cps (json_dumps v0) @ 125 # r) = Inr (v0, 125 # r)"
    by (auto simp: reads_back_def delim_def)
  have "dset k0 v0 acc = acc @ [(k0, v0)]"
    using Nil.prems(3) by (intro dset_fresh) (simp add: dhas_iff)
  with v f value_start_dump [of v0 "125 # r"] Nil.prems(1) show ?case
    by (simp add: dump_str_def read_str_dump is_ws_def skip_ws_start)
next
  case (Cons p d)
  obtain k1 v1 where p: "p = (k1, v1)" by (cases p)
  let ?rest = "cps (join '','' (map dump_item ((k1, v1) # d))) @ 125 # r"
  from Cons.prems(2) obtain g where f: "f = Suc g" "2 * length (json_dumps v0) < g"
    "2 * length (join '','' (map dump_item ((k1, v1) # d))) + 1 < g"
    by (cases f) (auto simp: p)
  have v: "read_value g (cps (json_dumps v0) @ 44 # ?rest) = Inr (v0, 44 # ?rest)"
  proof -
    have "reads_back v0" using Cons.prems(1) [of k0 v0] by simp
    moreover have "delim (44 # ?rest)" by (simp add: delim_def)
    ultimately show ?thesis using f(2) unfolding reads_back_def by blast
  qed
  have skip: "skip_ws ?rest = ?rest"
    by (cases d) (simp_all add: dump_str_def is_ws_def)
  have new: "dset k0 v0 acc = acc @ [(k0, v0)]"
    using Cons.prems(3) by (intro dset_fresh) (simp add: dhas_iff)
  have rec: "read_members g (acc @ [(k0, v0)]) ?rest = Inr (JObj ((acc @ [(k0, v0)]) @ (k1, v1) # d), r)"
    using Cons.prems(1,3) f(3) by (intro Cons.IH) (auto simp: p)
  have eq: "cps (join '','' (map dump_item ((k0, v0) # p # d))) @ 125 # r
      = cps (dump_item (k0, v0)) @ 44 # ?rest"
    by (simp add: p)
  have pl: "json_plain v0" using Cons.prems(1) [of k0 v0] by simp
  have "read_members f acc (cps (dump_item (k0, v0)) @ 44 # ?rest)
      = read_members g (dset k0 v0 acc) (skip_ws ?rest)"
    unfolding f(1) by (subst read_members_step [OF v pl]) simp_all
  also have "\<dots> = Inr (JObj ((acc @ [(k0, v0)]) @ (k1, v1) # d), r)"
    unfolding skip new by (rule rec)
  finally show ?case by (simp only: eq) (simp add: p)
qed

lemma json_plain_reads_back: "json_plain j \<Longrightarrow> reads_back j"
proof (induction j rule: json.induct)
  case (JInt i)
  then show ?case
    using read_value_int [of _ i] by (auto simp: reads_back_def elim!: less_natE)
next
  case (JStr s)
  have "cps (dump_str s) @ r = 34 # cps (concat (map (\<lambda>c. esc_cp (cp c)) s)) @ 34 # r" for r
    by (simp add: dump_str_def)
  then show ?case
    by (auto simp: reads_back_def read_str_dump simp del: map_concat elim!: less_natE)
next
  case (JList xs)
  show ?case
  proof (cases xs)
    case Nil
    then show ?thesis
      unfolding reads_back_def
      by (metis (no_types, lifting) read_value_empty less_imp_Suc_add)
  next
    case (Cons x ys)
    have IH: "y \<in> set (x # ys) \<Longrightarrow> reads_back y \<and> json_plain y" for y
      using JList Cons by (auto simp: list_all_iff)
    show ?thesis
      unfolding reads_back_def
    proof (intro allI impI)
      fix f r assume "delim r" and f: "2 * length (json_dumps (JList xs)) < f"
      then obtain g where g: "f = Suc g" "2 * length (join '','' (map json_dumps (x # ys))) + 1 < g"
        by (cases f) (auto simp: Cons)
      let ?t = "cps (join '','' (map json_dumps (x # ys))) @ 93 # r"
      obtain t where "join '','' (map json_dumps (x # ys)) = json_dumps x @ t"
        by (cases ys) auto
      then have st: "value_start ?t"
        using value_start_dump [of x "cps t @ 93 # r"] IH [of x] by simp
      then obtain b t' where t': "?t = b # t'" "b \<noteq> 93" "\<not> is_ws b"
        by (cases ?t) (auto simp: value_start_def)
      have "read_value f (cps (json_dumps (JList xs)) @ r) = read_elems g [] ?t"
        using t' by (simp add: g(1) Cons)
      also have "\<dots> = Inr (JList ([] @ x # ys), r)"
        by (rule read_elems_dump [OF IH g(2)])
      finally show "read_value f (cps (json_dumps (JList xs)) @ r) = Inr (JList xs, r)"
        by (simp add: Cons)
    qed
  qed
next
  case (JObj d)
  show ?case
  proof (cases d)
    case Nil
    then show ?thesis
      unfolding reads_back_def
      by (metis (no_types, lifting) read_value_empty less_imp_Suc_add)
  next
    case (Cons p e)
    obtain k v where p: "p = (k, v)" by (cases p)
    have IH: "(k', v') \<in> set ((k, v) # e) \<Longrightarrow> reads_back v' \<and> json_plain v'" for k' v'
      using JObj Cons p by (fastforce simp: list_all_iff)
    show ?thesis
      unfolding reads_back_def
    proof (intro allI impI)
      fix f r assume "delim r" and f: "2 * length (json_dumps (JObj d)) < f"
      then obtain g where g: "f = Suc g"
        "2 * length (join '','' (map dump_item ((k, v) # e))) + 1 < g"
        by (cases f) (auto simp: Cons p)
      let ?t = "cps (join '','' (map dump_item ((k, v) # e))) @ 125 # r"
      obtain t' where t': "?t = 34 # t'"
        by (cases e) (auto simp: dump_str_def)
      have "read_value f (cps (json_dumps (JObj d)) @ r) = read_members g [] ?t"
        using t' by (simp add: g(1) Cons p is_ws_def)
      also have "\<dots> = Inr (JObj ([] @ (k, v) # e), r)"
        using JObj.prems by (intro read_members_dump [OF IH g(2)]) (auto simp: Cons p)
      finally show "read_value f (cps (json_dumps (JObj d)) @ r) = Inr (JObj d, r)"
        by (simp add: Cons p)
    qed
  qed
next
  case JNull
  show ?case unfolding reads_back_def by (metis read_value_empty(3) less_imp_Suc_add)
next
  case (JBool b)
  show ?case unfolding reads_back_def by (metis read_value_empty(4) less_imp_Suc_add)
qed simp_all

lemma json_roundtrip: "json_plain j \<Longrightarrow> json_loads (cps (json_dumps j)) = Inr j"
proof -
  assume j: "json_plain j"
  from value_start_dump [OF j, of "[]"] have st: "value_start (cps (json_dumps j))" by simp
  have "delim [] \<longrightarrow> 2 * length (json_dumps j) < 2 * length (json_dumps j) + 1 \<longrightarrow>
      read_value (2 * length (json_dumps j) + 1) (cps (json_dumps j) @ []) = Inr (j, [])"
    using json_plain_reads_back [OF j] unfolding reads_back_def by blast
  then have "read_value (2 * length (json_dumps j) + 1) (cps (json_dumps j)) = Inr (j, [])"
    by (simp only: append_Nil2) (simp add: delim_def del: read_value.simps)
  moreover have "take 1 (cps (json_dumps j)) \<noteq> [65279]"
  proof
    assume "take 1 (cps (json_dumps j)) = [65279]"
    then obtain c where "cp c = 65279" by (cases "json_dumps j") auto
    with cp_less [of c] show False by simp
  qed
  ultimately show ?thesis
    using skip_ws_start [OF st]
    by (simp add: json_loads_def Let_def skip_ws_def del: read_value.simps)
qed

lemma json_plain_dumpable: "json_plain j \<Longrightarrow> dumpable j"
  by (induction j rule: json_plain.induct) (auto simp: list_all_iff)

interpretation json_text: codec "\<lambda>j. cps (json_dumps j)" json_loads json_plain
  by unfold_locales (rule json_roundtrip)

end
