(* ===== verification/Errors.thy ===== *)
theory Errors
  imports JsonText
begin

text \<open>
  \<open>errors.py\<close>: the Problem Details body every error response is built from, the response type the
  handlers return, and the table that maps a JSON-RPC error to a Problem. The facts: what the
  table answers on every code, that the first matching pattern of the -32000 family decides, and
  that the error's message and data reach the client.
\<close>

section \<open>Responses\<close>

datatype body =
    JsonBody json
  | BytesBody "nat list"
  | TextBody string

record response =
  resp_status :: int
  resp_type :: string
  resp_body :: body
  resp_headers :: "(string \<times> string) list"

text \<open>
  \<open>web.json_response\<close>, which fails where \<open>json.dumps\<close> does; the body stays a value here.
\<close>

definition json_reply :: "int \<Rightarrow> (string \<times> string) list \<Rightarrow> json \<Rightarrow> response res" where
  "json_reply st hs v =
     (if dumpable v
      then Inr \<lparr>resp_status = st, resp_type = ''application/json'', resp_body = JsonBody v,
                resp_headers = hs\<rparr>
      else Inl (ValueError (''Exceeds the limit (4300 digits) for integer string conversion''
             @ ''; use sys.set_int_max_str_digits() to increase the limit'')))"

abbreviation json_response :: "json \<Rightarrow> response res" where
  "json_response v \<equiv> json_reply 200 [] v"

section \<open>Problems\<close>

definition error_type_base :: string where
  "error_type_base = ''https://errors.ethereum-rest''"

record problem =
  p_status :: int
  type_slug :: string
  title :: string
  p_detail :: "string option"
  p_instance :: "string option"
  p_code :: "int option"
  p_data :: json

definition opt_field :: "string \<Rightarrow> json option \<Rightarrow> dict \<Rightarrow> dict" where
  "opt_field k v d = (case v of None \<Rightarrow> d | Some x \<Rightarrow> dset k x d)"

definition to_dict :: "problem \<Rightarrow> dict" where
  "to_dict p =
     opt_field ''data'' (if p_data p = JNull then None else Some (p_data p))
      (opt_field ''code'' (map_option JInt (p_code p))
        (opt_field ''instance'' (map_option JStr (p_instance p))
          (opt_field ''detail'' (map_option JStr (p_detail p))
            [(''type'', JStr (error_type_base @ ''/'' @ type_slug p)),
             (''title'', JStr (title p)),
             (''status'', JInt (p_status p))])))"

text \<open>
  The code and the data come out of JSON that was parsed, so \<open>json.dumps\<close> cannot fail on them.
\<close>

definition problem_response :: "problem \<Rightarrow> response" where
  "problem_response p =
     \<lparr>resp_status = p_status p, resp_type = ''application/problem+json'',
      resp_body = JsonBody (JObj (to_dict p)), resp_headers = []\<rparr>"

text \<open>The Problem the handlers build by hand, and the bad request most of them share.\<close>

definition simple_problem :: "int \<Rightarrow> string \<Rightarrow> string \<Rightarrow> string \<Rightarrow> string \<Rightarrow> response" where
  "simple_problem st slug ttl detail path =
     problem_response \<lparr>p_status = st, type_slug = slug, title = ttl, p_detail = Some detail,
       p_instance = Some path, p_code = None, p_data = JNull\<rparr>"

definition bad_request :: "string \<Rightarrow> string \<Rightarrow> response" where
  "bad_request path detail = simple_problem 400 ''invalid-request'' ''Invalid request'' detail path"

definition not_found :: "string \<Rightarrow> string \<Rightarrow> response" where
  "not_found path detail = simple_problem 404 ''not-found'' ''Not found'' detail path"

definition upstream_problem :: "string \<Rightarrow> string \<Rightarrow> response" where
  "upstream_problem path detail = simple_problem 502 ''upstream-error'' ''Upstream error'' detail path"

section \<open>Mapping JSON-RPC errors\<close>

definition standard_codes :: "(int \<times> int \<times> string \<times> string) list" where
  "standard_codes =
     [(-32600, 400, ''invalid-request'', ''Invalid request''),
      (-32601, 501, ''method-not-supported-by-upstream'', ''Method not supported by upstream''),
      (-32602, 400, ''invalid-request'', ''Invalid request''),
      (-32603, 502, ''upstream-error'', ''Upstream error''),
      (-32700, 502, ''upstream-error'', ''Upstream error''),
      (-32001, 404, ''not-found'', ''Not found''),
      (-32002, 503, ''upstream-unavailable'', ''Upstream unavailable''),
      (-32003, 422, ''transaction-rejected'', ''Transaction rejected''),
      (-32004, 501, ''method-not-supported-by-upstream'', ''Method not supported by upstream''),
      (-32005, 429, ''rate-limited'', ''Rate limited'')]"

definition m32000_patterns :: "(string \<times> int \<times> string \<times> string) list" where
  "m32000_patterns =
     [(''nonce too low'', 422, ''transaction-rejected/nonce-too-low'', ''Transaction rejected''),
      (''already known'', 422, ''transaction-rejected/already-known'', ''Transaction rejected''),
      (''replacement transaction underpriced'', 422,
       ''transaction-rejected/replacement-underpriced'', ''Transaction rejected''),
      (''transaction underpriced'', 422, ''transaction-rejected/underpriced'',
       ''Transaction rejected''),
      (''insufficient funds'', 422, ''transaction-rejected/insufficient-funds'',
       ''Transaction rejected''),
      (''intrinsic gas too low'', 422, ''transaction-rejected/intrinsic-gas-too-low'',
       ''Transaction rejected''),
      (''exceeds block gas limit'', 422, ''transaction-rejected/gas-limit-exceeded'',
       ''Transaction rejected''),
      (''query returned more than'', 413, ''payload-too-large'', ''Payload too large''),
      (''exceed maximum block range'', 413, ''payload-too-large'', ''Payload too large'')]"

fun first_pattern :: "string \<Rightarrow> (string \<times> 'a) list \<Rightarrow> 'a option" where
  "first_pattern msg [] = None"
| "first_pattern msg ((pat, r) # ps) = (if occurs_in pat msg then Some r else first_pattern msg ps)"

definition map_jsonrpc_error :: "int \<Rightarrow> string \<Rightarrow> json \<Rightarrow> problem" where
  "map_jsonrpc_error code message data =
     (let mk = (\<lambda>(st, slug, ttl).
        \<lparr>p_status = st, type_slug = slug, title = ttl, p_detail = Some message,
         p_instance = None, p_code = Some code, p_data = data\<rparr>)
      in case map_of standard_codes code of
           Some r \<Rightarrow> mk r
         | None \<Rightarrow>
             (case (if code = -32000 then first_pattern (lower message) m32000_patterns else None) of
                Some r \<Rightarrow> mk r
              | None \<Rightarrow> mk (502, ''upstream-error'', ''Upstream error'')))"

section \<open>Facts\<close>

lemma first_pattern_Some_iff:
  "first_pattern msg ps = Some r \<longleftrightarrow>
     (\<exists>before pat after. ps = before @ (pat, r) # after \<and> occurs_in pat msg
        \<and> (\<forall>(q, s) \<in> set before. \<not> occurs_in q msg))"
proof (induction ps)
  case Nil
  then show ?case by simp
next
  case (Cons p ps)
  obtain q s where p: "p = (q, s)" by (cases p)
  show ?case
  proof (cases "occurs_in q msg")
    case True
    have "\<exists>before pat after. (q, s) # ps = before @ (pat, s) # after \<and> occurs_in pat msg
        \<and> (\<forall>(q, s) \<in> set before. \<not> occurs_in q msg)"
      using True by (intro exI [of _ "[]"] exI [of _ q] exI [of _ ps]) simp
    moreover have "s = r" if "(q, s) # ps = before @ (pat, r) # after"
      "\<forall>(q, s) \<in> set before. \<not> occurs_in q msg" for before pat after
      using that True by (cases before) auto
    ultimately show ?thesis using True p by auto
  next
    case False
    have "(\<exists>before pat after. (q, s) # ps = before @ (pat, r) # after \<and> occurs_in pat msg
        \<and> (\<forall>(q, s) \<in> set before. \<not> occurs_in q msg)) \<longleftrightarrow>
      (\<exists>before pat after. ps = before @ (pat, r) # after \<and> occurs_in pat msg
        \<and> (\<forall>(q, s) \<in> set before. \<not> occurs_in q msg))" (is "?l \<longleftrightarrow> ?r")
    proof
      assume ?l
      then obtain before pat after where b: "(q, s) # ps = before @ (pat, r) # after"
        "occurs_in pat msg" "\<forall>(q, s) \<in> set before. \<not> occurs_in q msg" by blast
      with False obtain before' where "before = (q, s) # before'" by (cases before) auto
      with b show ?r by auto
    next
      assume ?r
      then obtain before pat after where b: "ps = before @ (pat, r) # after"
        "occurs_in pat msg" "\<forall>(q, s) \<in> set before. \<not> occurs_in q msg" by blast
      with False show ?l
        by (intro exI [of _ "(q, s) # before"] exI [of _ pat] exI [of _ after]) simp
    qed
    with False p Cons show ?thesis by simp
  qed
qed

lemma first_pattern_in: "first_pattern msg ps = Some r \<Longrightarrow> \<exists>pat. (pat, r) \<in> set ps \<and> occurs_in pat msg"
  by (induction ps) (auto split: if_splits)

lemma map_jsonrpc_error_fields [simp]:
  "p_detail (map_jsonrpc_error c m d) = Some m"
  "p_instance (map_jsonrpc_error c m d) = None"
  "p_code (map_jsonrpc_error c m d) = Some c"
  "p_data (map_jsonrpc_error c m d) = d"
  by (simp_all add: map_jsonrpc_error_def Let_def split: option.splits prod.splits)

lemma problem_response_fields [simp]:
  "resp_status (problem_response p) = p_status p"
  "resp_type (problem_response p) = ''application/problem+json''"
  by (simp_all add: problem_response_def)

lemma bad_request_status [simp]:
  "resp_status (bad_request path d) = 400"
  "resp_status (not_found path d) = 404"
  "resp_status (upstream_problem path d) = 502"
  by (simp_all add: bad_request_def not_found_def upstream_problem_def simple_problem_def)

lemma json_reply_Inr_iff:
  "json_reply st hs v = Inr r \<longleftrightarrow> dumpable v \<and>
     r = \<lparr>resp_status = st, resp_type = ''application/json'', resp_body = JsonBody v,
          resp_headers = hs\<rparr>"
  by (auto simp: json_reply_def)

lemma to_dict_get:
  "dget ''status'' (to_dict p) = Some (JInt (p_status p))"
  "dget ''detail'' (to_dict p) = map_option JStr (p_detail p)"
  "dget ''instance'' (to_dict p) = map_option JStr (p_instance p)"
  "dget ''code'' (to_dict p) = map_option JInt (p_code p)"
  "dget ''data'' (to_dict p) = (if p_data p = JNull then None else Some (p_data p))"
  by (simp_all add: to_dict_def opt_field_def split: option.splits)

lemma to_dict_dwf: "dwf (to_dict p)"
  by (simp add: to_dict_def opt_field_def dwf_def split: option.splits)

lemma map_error_row:
  "map_of standard_codes c = Some (st, slug, ttl) \<or>
   (map_of standard_codes c = None \<and> c = -32000
      \<and> first_pattern (lower m) m32000_patterns = Some (st, slug, ttl)) \<Longrightarrow>
   p_status (map_jsonrpc_error c m d) = st \<and> type_slug (map_jsonrpc_error c m d) = slug
   \<and> title (map_jsonrpc_error c m d) = ttl"
  by (auto simp: map_jsonrpc_error_def Let_def)

lemma map_error_default:
  "map_of standard_codes c = None \<Longrightarrow>
   c \<noteq> -32000 \<or> first_pattern (lower m) m32000_patterns = None \<Longrightarrow>
   p_status (map_jsonrpc_error c m d) = 502"
  by (auto simp: map_jsonrpc_error_def Let_def)

lemma vendor_not_standard: "map_of standard_codes (-32000) = None"
  by (simp add: standard_codes_def)

lemma pattern_status:
  "first_pattern m m32000_patterns = Some (st, slug, ttl) \<Longrightarrow> st = 422 \<or> st = 413"
  by (drule first_pattern_in) (auto simp: m32000_patterns_def)

lemma first_pattern_None_iff:
  "first_pattern m ps = None \<longleftrightarrow> (\<forall>(pat, r) \<in> set ps. \<not> occurs_in pat m)"
proof (induction ps)
  case (Cons p ps)
  obtain q s where "p = (q, s)" by (cases p)
  with Cons show ?case by simp
qed simp

lemma pattern_occurs_iff:
  "(\<exists>r. first_pattern m ps = Some r) \<longleftrightarrow> (\<exists>(pat, r) \<in> set ps. occurs_in pat m)"
  using first_pattern_None_iff [of m ps] by (cases "first_pattern m ps") auto

lemma occurs_in_sub: "occurs_in p q \<Longrightarrow> occurs_in q s \<Longrightarrow> occurs_in p s"
proof -
  assume "occurs_in p q" "occurs_in q s"
  then obtain a b c d where "q = a @ p @ b" "s = c @ q @ d" by (auto simp: occurs_in_iff)
  then have "s = (c @ a) @ p @ (b @ d)" by simp
  then show ?thesis unfolding occurs_in_iff by blast
qed

section \<open>Properties\<close>

text \<open>
  C32. The client is blamed exactly when it should be: the mapped status is a 4xx one exactly for the
  five standard codes that name a client fault and for a -32000 error whose message matches a
  known pattern in any letter case; every other code gives 501, 502 or 503.
\<close>

theorem map_jsonrpc_error_blame:
  "(p_status (map_jsonrpc_error c m d) \<in> {400, 404, 413, 422, 429} \<longleftrightarrow>
      c \<in> {-32600, -32602, -32001, -32003, -32005} \<or>
      (c = -32000 \<and> (\<exists>(pat, r) \<in> set m32000_patterns. occurs_in pat (lower m))))
   \<and> p_status (map_jsonrpc_error c m d) \<in> {400, 404, 413, 422, 429, 501, 502, 503}"
proof (cases "map_of standard_codes c")
  case (Some r)
  obtain st slug ttl where r: "r = (st, slug, ttl)" by (cases r)
  have "p_status (map_jsonrpc_error c m d) = st" using map_error_row Some r by blast
  with Some r show ?thesis by (auto simp: standard_codes_def split: if_splits)
next
  case None
  then have c: "c \<notin> {-32600, -32602, -32001, -32003, -32005}"
    by (auto simp: standard_codes_def split: if_splits)
  show ?thesis
  proof (cases "c = -32000 \<and> (\<exists>r. first_pattern (lower m) m32000_patterns = Some r)")
    case True
    then obtain st slug ttl where f: "first_pattern (lower m) m32000_patterns = Some (st, slug, ttl)"
      by auto
    with True None map_error_row have "p_status (map_jsonrpc_error c m d) = st" by blast
    with True pattern_status [OF f] pattern_occurs_iff [of "lower m" m32000_patterns]
    show ?thesis by auto
  next
    case False
    with None map_error_default have "p_status (map_jsonrpc_error c m d) = 502" by blast
    with False c pattern_occurs_iff [of "lower m" m32000_patterns] show ?thesis by auto
  qed
qed

text \<open>
  The more specific pattern wins: a message about an underpriced replacement is answered with
  the replacement problem although it also contains the text of the general underpriced one,
  unless it names one of the two errors that come earlier in the table.
\<close>

lemma replacement_before_underpriced:
  assumes "occurs_in ''replacement transaction underpriced'' (lower m)"
    and "\<not> occurs_in ''nonce too low'' (lower m)" "\<not> occurs_in ''already known'' (lower m)"
  shows "type_slug (map_jsonrpc_error (-32000) m d) = ''transaction-rejected/replacement-underpriced''
    \<and> occurs_in ''transaction underpriced'' (lower m)"
proof -
  have "first_pattern (lower m) m32000_patterns =
      Some (422, ''transaction-rejected/replacement-underpriced'', ''Transaction rejected'')"
    using assms by (simp add: m32000_patterns_def)
  moreover have "occurs_in ''transaction underpriced'' ''replacement transaction underpriced''"
    by code_simp
  ultimately show ?thesis
    using map_error_row vendor_not_standard occurs_in_sub [OF _ assms(1)] by blast
qed

lemma replacement_before_underpriced_witness:
  "type_slug (map_jsonrpc_error (-32000) ''Replacement transaction underpriced'' JNull)
     = ''transaction-rejected/replacement-underpriced''"
proof -
  have "occurs_in ''replacement transaction underpriced''
      (lower ''Replacement transaction underpriced'')"
    "\<not> occurs_in ''nonce too low'' (lower ''Replacement transaction underpriced'')"
    "\<not> occurs_in ''already known'' (lower ''Replacement transaction underpriced'')"
    by code_simp+
  from replacement_before_underpriced [OF this] show ?thesis by blast
qed

end
