(* ===== verification/AbiRevert.thy ===== *)
theory AbiRevert
  imports Errors
begin

text \<open>
  \<open>abi_revert.py\<close>: which upstream errors are reverts, and the decoding of the two standard revert
  payloads of the Solidity ABI. The facts: decoding undoes the ABI encoding of \<open>Error(string)\<close> and
  \<open>Panic(uint256)\<close>, at most one of the two results is set, and hostile lengths are refused.
\<close>

section \<open>Detection\<close>

text \<open>The code, the message and the data of an \<open>UpstreamJsonRpcError\<close>.\<close>

record rpc_error =
  err_code :: int
  err_message :: string
  err_data :: json

definition is_revert :: "rpc_error \<Rightarrow> bool" where
  "is_revert err = (err_code err = -32000 \<and> occurs_in ''execution reverted'' (lower (err_message err)))"

definition is_out_of_gas :: "rpc_error \<Rightarrow> bool" where
  "is_out_of_gas err =
     list_ex (\<lambda>m. occurs_in m (lower (err_message err)))
       [''out of gas'', ''gas required exceeds allowance'']"

section \<open>Decoding\<close>

definition error_selector :: string where
  "error_selector = ''08c379a0''"

definition panic_selector :: string where
  "panic_selector = ''4e487b71''"

definition max_reason_bytes :: nat where
  "max_reason_bytes = 2 ^ 20"

text \<open>\<open>s[a:b]\<close>, for \<open>a \<le> b\<close>.\<close>

definition slice :: "nat \<Rightarrow> nat \<Rightarrow> string \<Rightarrow> string" where
  "slice a b s = take (b - a) (drop a s)"

text \<open>
  Every character of the tail is a hexadecimal digit, so the conversions below cannot raise; the
  reason is text, which may hold code points beyond the model's characters.
\<close>

definition decode_error_string :: "string \<Rightarrow> json" where
  "decode_error_string tail_hex =
     (if length tail_hex < 128 then JNull
      else (let start = read_digits 16 (slice 0 64 tail_hex) * 2 in
        if length tail_hex < start + 64 then JNull
        else (let len = read_digits 16 (slice start (start + 64) tail_hex) in
          if max_reason_bytes < len then JNull
          else (let data_start = start + 64; data_end = data_start + len * 2 in
            if length tail_hex < data_end then JNull
            else mk_str (utf8_replace (hex_to_bytes (slice data_start data_end tail_hex)))))))"

definition decode_panic_uint :: "string \<Rightarrow> json" where
  "decode_panic_uint tail_hex =
     (if length tail_hex < 64 then JNull
      else JInt (int (read_digits 16 (slice 0 64 tail_hex))))"

definition decode_revert_data :: "json \<Rightarrow> json \<times> json" where
  "decode_revert_data data =
     (case data of
        JStr s \<Rightarrow>
          (if \<not> re_hex_star s then (JNull, JNull)
           else (let bod = drop 2 s in
             if length bod < 8 then (JNull, JNull)
             else (let selector = lower (take 8 bod); tl_hex = drop 8 bod in
               if selector = error_selector then (decode_error_string tl_hex, JNull)
               else if selector = panic_selector then (JNull, decode_panic_uint tl_hex)
               else (JNull, JNull))))
      | _ \<Rightarrow> (JNull, JNull))"

definition revert_raw_data :: "rpc_error \<Rightarrow> string" where
  "revert_raw_data err =
     (case err_data err of
        JStr s \<Rightarrow> (if re_hex_star s then s else ''0x'')
      | _ \<Rightarrow> ''0x'')"

definition revert_body :: "rpc_error \<Rightarrow> json" where
  "revert_body err =
     (let raw_data = revert_raw_data err;
          (reason, panic) = decode_revert_data (JStr raw_data);
          out = [(''reverted'', JBool True),
                 (''data'', JStr (if raw_data \<noteq> ''0x'' then lower raw_data else ''0x'')),
                 (''reason'', reason), (''panicCode'', panic)]
      in JObj (if is_out_of_gas err then dset ''outOfGas'' (JBool True) out else out))"

section \<open>The ABI encoding\<close>

text \<open>A 32-byte big-endian word, and the payloads a contract reverts with.\<close>

definition abi_word :: "nat \<Rightarrow> string" where
  "abi_word n = replicate (64 - length (show_hex n)) (CHR ''0'') @ show_hex n"

definition abi_error :: "nat list \<Rightarrow> string \<Rightarrow> string" where
  "abi_error bytes pad =
     ''0x'' @ error_selector @ abi_word 32 @ abi_word (length bytes) @ bytes_to_hex bytes @ pad"

definition abi_panic :: "nat \<Rightarrow> string" where
  "abi_panic n = ''0x'' @ panic_selector @ abi_word n"

lemma length_digits_of: "2 \<le> b \<Longrightarrow> 0 < k \<Longrightarrow> n < b ^ k \<Longrightarrow> length (digits_of b n) \<le> k"
proof (induction b n arbitrary: k rule: digits_of.induct)
  case (1 b n)
  show ?case
  proof (cases "n < b")
    case True
    with "1.prems" show ?thesis by (simp add: digits_of_small)
  next
    case False
    with "1.prems" obtain j where k: "k = Suc j" "0 < j"
      by (cases k; cases "k - 1") auto
    with "1.prems" have "n div b < b ^ j" by (simp add: less_mult_imp_div_less mult.commute)
    with "1.IH" "1.prems" False k have "length (digits_of b (n div b)) \<le> j" by simp
    with "1.prems" False k show ?thesis by (simp add: digits_of_big)
  qed
qed

lemma small_plain: "n < 100 \<Longrightarrow> length (show_dec n) \<le> max_str_digits" "Suc 0 \<le> max_str_digits"
proof -
  assume "n < 100"
  then have "length (show_dec n) \<le> 2"
    using length_digits_of [of 10 2 n] by (simp add: show_dec_def)
  then show "length (show_dec n) \<le> max_str_digits" by (simp add: max_str_digits_def)
qed (simp add: max_str_digits_def)

lemma length_show_hex: "n < 16 ^ 64 \<Longrightarrow> length (show_hex n) \<le> 64"
  using length_digits_of [of 16 64 n] by (simp add: show_hex_def)

lemma length_abi_word [simp]: "n < 16 ^ 64 \<Longrightarrow> length (abi_word n) = 64"
  using length_show_hex [of n] by (simp add: abi_word_def)

lemma read_leading_zeros:
  "read_digits b (replicate k (CHR ''0'') @ s) = read_digits b s"
proof -
  have "foldl (\<lambda>a d. b * a + d) 0 (replicate k 0 @ ds) = foldl (\<lambda>a d. b * a + d) 0 ds" for ds
    by (induction k) simp_all
  moreover have "digit_val (CHR ''0'') = 0" by (simp add: digit_val_def)
  ultimately show ?thesis by (simp add: read_digits_def value_of_def)
qed

lemma read_abi_word [simp]: "read_digits 16 (abi_word n) = n"
  by (simp add: abi_word_def read_leading_zeros)

lemma abi_word_digits: "list_all is_hex_digit (abi_word n)"
proof -
  have "is_hex_digit (CHR ''0'')" by code_simp
  then show ?thesis using show_hex_digits [of n] by (auto simp: abi_word_def list_all_iff)
qed

lemma decode_error_string_abi:
  assumes "list_all (\<lambda>b. b < 256) bytes" "length bytes \<le> max_reason_bytes"
  shows "decode_error_string (abi_word 32 @ abi_word (length bytes) @ bytes_to_hex bytes @ pad)
    = mk_str (utf8_replace bytes)"
proof -
  have l32: "length (abi_word 32) = 64" by simp
  have "length bytes < 16 ^ 64"
  proof -
    have "(2::nat) ^ 20 < 16 ^ 64" by simp
    with assms(2) show ?thesis unfolding max_reason_bytes_def by linarith
  qed
  then have ln: "length (abi_word (length bytes)) = 64" by simp
  have s1: "slice 0 64 (abi_word 32 @ t) = abi_word 32" for t
    using l32 by (simp add: slice_def)
  have s2: "slice 64 128 (abi_word 32 @ abi_word (length bytes) @ t) = abi_word (length bytes)" for t
    using l32 ln by (simp add: slice_def)
  have s3: "slice 128 (128 + length bytes * 2)
      (abi_word 32 @ abi_word (length bytes) @ bytes_to_hex bytes @ pad) = bytes_to_hex bytes"
    using l32 ln by (simp add: slice_def)
  show ?thesis
    using l32 ln assms s1 s2 s3
    by (simp add: decode_error_string_def Let_def hex_to_bytes_of_bytes)
qed

lemma selectors_hex:
  "list_all is_hex_digit error_selector" "list_all is_hex_digit panic_selector"
  "length error_selector = 8" "length panic_selector = 8"
  "lower error_selector = error_selector" "lower panic_selector = panic_selector"
  "error_selector \<noteq> panic_selector"
  by code_simp+

lemma decode_with_selector:
  assumes "list_all is_hex_digit sel" "length sel = 8" "list_all is_hex_digit t"
  shows "decode_revert_data (JStr (''0x'' @ sel @ t)) =
    (if lower sel = error_selector then (decode_error_string t, JNull)
     else if lower sel = panic_selector then (JNull, decode_panic_uint t) else (JNull, JNull))"
  using assms by (simp add: decode_revert_data_def re_hex_star_def Let_def)

lemma abi_payload_digits:
  "list_all is_hex_digit pad \<Longrightarrow>
   list_all is_hex_digit (abi_word m @ abi_word n @ bytes_to_hex bs @ pad)"
  by (simp add: abi_word_digits bytes_to_hex_digits)

lemma decode_abi_panic:
  "n < 16 ^ 64 \<Longrightarrow> decode_revert_data (JStr (abi_panic n)) = (JNull, JInt (int n))"
  using decode_with_selector [OF selectors_hex(2,4) abi_word_digits, of n] selectors_hex(6,7)
  by (simp add: abi_panic_def decode_panic_uint_def slice_def)

lemma decode_abi_error:
  assumes "list_all scalar cs" "length (utf8_encode cs) \<le> max_reason_bytes"
    "list_all is_hex_digit pad"
  shows "decode_revert_data (JStr (abi_error (utf8_encode cs) pad)) = (mk_str cs, JNull)"
  unfolding abi_error_def
  using decode_with_selector [OF selectors_hex(1,3) abi_payload_digits [OF assms(3)]]
    decode_error_string_abi [OF utf8_encode_bytes [OF assms(1)] assms(2), of pad]
    selectors_hex(5) utf8_replace_encode [OF assms(1)]
  by simp

lemma decode_error_string_cases: "\<exists>u. decode_error_string t = JNull \<or> decode_error_string t = mk_str u"
  by (auto simp: decode_error_string_def Let_def)

lemma mk_str_is_str [simp]: "is_str (mk_str u)"
  by (simp add: mk_str_def)

lemma read_digits_bound: "read_digits 16 s < 16 ^ length s"
proof (induction s rule: rev_induct)
  case (snoc c s)
  have "read_digits 16 (s @ [c]) = 16 * read_digits 16 s + digit_val c"
    by (simp add: read_digits_def)
  moreover have "digit_val c < 16" by simp
  ultimately have "read_digits 16 (s @ [c]) < 16 * 16 ^ length s" using snoc by linarith
  then show ?case by simp
qed (simp add: read_digits_def)

section \<open>Properties\<close>

text \<open>
  C35. Decoding undoes the ABI encoding of the two standard reverts: any Unicode text of at most a
  mebibyte comes back as the reason, whatever hexadecimal padding follows it, and any 256-bit panic
  code comes back as the panic code.
\<close>

theorem revert_payload_roundtrip:
  assumes "list_all scalar cs" "length (utf8_encode cs) \<le> max_reason_bytes"
    and "list_all is_hex_digit pad" "n < 2 ^ 256"
  shows "decode_revert_data (JStr (abi_error (utf8_encode cs) pad)) = (mk_str cs, JNull)
    \<and> decode_revert_data (JStr (abi_panic n)) = (JNull, JInt (int n))"
proof -
  have "(2::nat) ^ 256 = 16 ^ 64" by simp
  with assms(4) have "n < 16 ^ 64" by simp
  then show ?thesis using decode_abi_error [OF assms(1-3)] decode_abi_panic by blast
qed

theorem revert_payload_roundtrip_witness:
  "decode_revert_data (JStr (abi_error (utf8_encode [110, 111, 8364]) ''00'')) = (JUni [110, 111, 8364], JNull)"
proof -
  have "list_all scalar [110, 111, 8364]" "list_all is_hex_digit ''00''"
    by (simp_all add: scalar_def is_hex_digit_def)
  moreover have "length (utf8_encode [110, 111, 8364]) \<le> max_reason_bytes"
    by (simp add: utf8_encode_def utf8_enc1_def max_reason_bytes_def)
  moreover have "mk_str [110, 111, 8364] = JUni [110, 111, 8364]" by (simp add: mk_str_def)
  ultimately show ?thesis using revert_payload_roundtrip [of "[110, 111, 8364]" "''00''" 17] by simp
qed

text \<open>
  Whatever the upstream sends as revert data, decoding yields a reason or a panic code or
  neither, never both: a result is only set for hexadecimal text under the matching selector, a
  reason is text, and a panic code fits 256 bits.
\<close>

lemma decode_revert_data_shape:
  assumes "decode_revert_data v = (reason, panic)"
  shows "(reason = JNull \<or> panic = JNull)
    \<and> (reason \<noteq> JNull \<longrightarrow> is_str reason
        \<and> (\<exists>s. v = JStr s \<and> re_hex_star s \<and> lower (take 8 (drop 2 s)) = error_selector))
    \<and> (panic \<noteq> JNull \<longrightarrow> (\<exists>n < 2 ^ 256. panic = JInt (int n))
        \<and> (\<exists>s. v = JStr s \<and> re_hex_star s \<and> lower (take 8 (drop 2 s)) = panic_selector))"
proof (cases "\<exists>s. v = JStr s \<and> re_hex_star s \<and> \<not> length (drop 2 s) < 8")
  case False
  then have "reason = JNull \<and> panic = JNull"
    using assms by (auto simp: decode_revert_data_def Let_def split: json.splits if_splits)
  then show ?thesis by simp
next
  case True
  then obtain s where s: "v = JStr s" "re_hex_star s" "\<not> length (drop 2 s) < 8" by blast
  have "\<exists>n < 2 ^ 256. decode_panic_uint t = JInt (int n)" if "decode_panic_uint t \<noteq> JNull" for t
  proof -
    have "read_digits 16 (slice 0 64 t) < 16 ^ length (slice 0 64 t)" by (rule read_digits_bound)
    also have "\<dots> \<le> (16::nat) ^ 64" by (intro power_increasing) (simp_all add: slice_def)
    also have "(16::nat) ^ 64 = 2 ^ 256" by simp
    finally show ?thesis using that by (auto simp: decode_panic_uint_def split: if_splits)
  qed
  moreover have "is_str (decode_error_string t)" if "decode_error_string t \<noteq> JNull" for t
    using that decode_error_string_cases [of t] by auto
  ultimately show ?thesis
    using assms s selectors_hex(7)
    by (auto simp: decode_revert_data_def Let_def split: if_splits)
qed

lemma decode_revert_data_shape_witness:
  "(\<exists>n < 2 ^ 256. JInt 17 = JInt (int n)) \<and> decode_revert_data (JStr (abi_panic 17)) = (JNull, JInt 17)"
proof -
  have d: "decode_revert_data (JStr (abi_panic 17)) = (JNull, JInt 17)"
    using decode_abi_panic [of 17] by simp
  from decode_revert_data_shape [OF d] d show ?thesis by blast
qed

end
