(* ===== verification/Upstream.thy ===== *)
theory Upstream
  imports BlockId ContentNeg AbiRevert
begin

text \<open>
  \<open>upstream.py\<close> and \<open>block_resolve.py\<close>: the JSON-RPC client over HTTP and the resolution of block
  identifiers. The upstream is a parameter: a function from the bodies posted so far to the reply
  to the last one, so that its answers may change over time. A computation takes the upstream and
  the client's state and returns a result or an exception with the new state. The facts: the
  outcome of a call for every reply, one request per call with a fresh id, and what a block
  identifier resolves to.
\<close>

section \<open>Computations\<close>

text \<open>
  What the HTTP session gives back for one post: a status with a body that is JSON or not (then with
  the decoder's message), a client error, or the session's timeout.
\<close>

datatype http_outcome =
    HttpReply int "string + json"
  | HttpClientError string
  | HttpTimeout

text \<open>\<open>ends\<close> says when each of several concurrent calls ends, by the requests posted so far and its place among them.\<close>

record net =
  reply :: "json list \<Rightarrow> http_outcome"
  ends :: "json list \<Rightarrow> nat \<Rightarrow> nat"

text \<open>
  The client: its counter, what it has posted, what its observer was told of each call that is over (the method and
  the status), and the same of the calls whose replies nobody waits for any more.
\<close>

record world =
  next_id :: int
  posted :: "json list"
  observed :: "(string \<times> string) list"
  late :: "(string \<times> string) list"

type_synonym 'a io = "net \<Rightarrow> world \<Rightarrow> 'a res \<times> world"

definition retI :: "'a \<Rightarrow> 'a io" where
  "retI a = (\<lambda>net w. (Inr a, w))"

definition raiseI :: "exn \<Rightarrow> 'a io" where
  "raiseI e = (\<lambda>net w. (Inl e, w))"

definition liftI :: "'a res \<Rightarrow> 'a io" where
  "liftI r = (\<lambda>net w. (r, w))"

definition bindI :: "'a io \<Rightarrow> ('a \<Rightarrow> 'b io) \<Rightarrow> 'b io" where
  "bindI m f = (\<lambda>net w. case m net w of
     (Inl e, w') \<Rightarrow> (Inl e, w')
   | (Inr a, w') \<Rightarrow> f a net w')"

text \<open>\<open>try\<close>: the handler answers an exception or raises it again.\<close>

definition catchI :: "'a io \<Rightarrow> (exn \<Rightarrow> 'a io) \<Rightarrow> 'a io" where
  "catchI m h = (\<lambda>net w. case m net w of
     (Inl e, w') \<Rightarrow> h e net w'
   | (Inr a, w') \<Rightarrow> (Inr a, w'))"

section \<open>One call\<close>

definition rpc_body :: "int \<Rightarrow> string \<Rightarrow> json list \<Rightarrow> json" where
  "rpc_body i meth params =
     JObj [(''jsonrpc'', JStr ''2.0''), (''id'', JInt i), (''method'', JStr meth),
           (''params'', JList params)]"

text \<open>
  \<open>int(v)\<close> of a JSON value: a float is truncated towards zero, a string is read as a decimal.
\<close>

definition trunc_rat :: "rat \<Rightarrow> int" where
  "trunc_rat q = (if 0 \<le> q then \<lfloor>q\<rfloor> else - \<lfloor>- q\<rfloor>)"

definition int_of_json :: "json \<Rightarrow> int res" where
  "int_of_json v =
     (case v of
        JInt i \<Rightarrow> Inr i
      | JBool b \<Rightarrow> Inr (if b then 1 else 0)
      | JStr s \<Rightarrow> int_of_str s
      | JUni u \<Rightarrow> Inl (ValueError (''invalid literal for int() with base 10: '' @ py_repr v))
      | JFloat s \<Rightarrow>
          (case float_of_str s of
             Some (Fin q) \<Rightarrow> Inr (trunc_rat q)
           | Some NaN \<Rightarrow> Inl (ValueError ''cannot convert float NaN to integer'')
           | _ \<Rightarrow> Inl OverflowError)
      | _ \<Rightarrow> Inl TypeError)"

text \<open>
  \<open>str(v)\<close>: a string is itself (a code point the model's strings cannot hold is written as its JSON
  escape), everything else its \<open>repr\<close>.
\<close>

definition py_str :: "json \<Rightarrow> string" where
  "py_str v =
     (case v of
        JStr s \<Rightarrow> s
      | JUni u \<Rightarrow> concat (map (\<lambda>n. if n < 256 then [char_of n] else esc_cp n) u)
      | _ \<Rightarrow> py_repr v)"

definition dget_or :: "string \<Rightarrow> json \<Rightarrow> dict \<Rightarrow> json" where
  "dget_or k dflt d = (case dget k d of Some v \<Rightarrow> v | None \<Rightarrow> dflt)"

text \<open>What the client makes of a decoded body: the status it reports and the outcome.\<close>

definition read_payload :: "json \<Rightarrow> string \<times> json res" where
  "read_payload payload =
     (case payload of
        JObj d \<Rightarrow>
          (case dget ''error'' d of
             Some (JObj err) \<Rightarrow>
               (''error'',
                bindE (int_of_json (dget_or ''code'' (JInt (-32603)) err)) (\<lambda>code.
                  Inl (UpstreamJsonRpcError code (py_str (dget_or ''message'' (JStr []) err))
                    (dget_or ''data'' JNull err))))
           | Some err \<Rightarrow>
               (''transport-error'',
                Inl (UpstreamError (''upstream error object malformed: '' @ py_repr err)))
           | None \<Rightarrow>
               (case dget ''result'' d of
                  Some v \<Rightarrow> (''ok'', Inr v)
                | None \<Rightarrow>
                    (''transport-error'',
                     Inl (UpstreamError (''upstream response has neither result nor error: ''
                       @ py_repr payload)))))
      | _ \<Rightarrow>
          (''transport-error'', Inl (UpstreamError (''upstream returned non-object: '' @ py_repr payload))))"

definition read_outcome :: "http_outcome \<Rightarrow> string \<times> json res" where
  "read_outcome r =
     (case r of
        HttpReply status bod \<Rightarrow>
          (if status \<noteq> 200
           then (''transport-error'', Inl (UpstreamError (''upstream HTTP '' @ show_int status)))
           else (case bod of
                   Inl msg \<Rightarrow> (''transport-error'',
                     Inl (UpstreamError (''upstream returned non-JSON body: '' @ msg)))
                 | Inr payload \<Rightarrow> read_payload payload))
      | HttpClientError msg \<Rightarrow>
          (''transport-error'', Inl (UpstreamError (''upstream transport error: '' @ msg)))
      | HttpTimeout \<Rightarrow> (''ok'', Inl TimeoutError))"

text \<open>
  The body is printed before it is sent, which fails on a parameter that holds an integer of more
  than 4300 digits (the id, a counter, never gets there).
\<close>

definition upstream_call :: "string \<Rightarrow> json list \<Rightarrow> json io" where
  "upstream_call meth params = (\<lambda>net w.
     (let bod = rpc_body (next_id w) meth params;
          w1 = w\<lparr>next_id := next_id w + 1\<rparr> in
      case json_dumps_res (JList params) of
        Inl e \<Rightarrow> (Inl e, w1\<lparr>observed := observed w @ [(meth, ''ok'')]\<rparr>)
      | Inr t \<Rightarrow>
          (let w2 = w1\<lparr>posted := posted w @ [bod]\<rparr>;
               (status, out) = read_outcome (reply net (posted w2)) in
           (out, w2\<lparr>observed := observed w @ [(meth, status)]\<rparr>))))"

text \<open>
  \<open>asyncio.gather\<close>: all are issued, in order, and end in an order of their own. The first failure is raised as
  soon as it happens; the others go on, but the observer hears of them only later.
\<close>

definition new_calls :: "world \<Rightarrow> world \<Rightarrow> (string \<times> string) list" where
  "new_calls w w' = drop (length (observed w)) (observed w')"

fun run_all :: "json io list \<Rightarrow> net \<Rightarrow> world \<Rightarrow> (json res \<times> (string \<times> string) list) list \<times> world" where
  "run_all [] net w = ([], w)"
| "run_all (m # ms) net w =
     (let (r, w1) = m net w; (rs, w2) = run_all ms net w1 in ((r, new_calls w w1) # rs, w2))"

definition failed :: "'a res \<Rightarrow> bool" where
  "failed r = (case r of Inl e \<Rightarrow> True | Inr v \<Rightarrow> False)"

text \<open>The members that end before the whole does, and the others.\<close>

definition until_failure :: "(nat \<Rightarrow> bool) \<Rightarrow> nat list \<Rightarrow> nat list \<times> nat list" where
  "until_failure fails is =
     (takeWhile (\<lambda>i. \<not> fails i) is @ take 1 (dropWhile (\<lambda>i. \<not> fails i) is),
      drop 1 (dropWhile (\<lambda>i. \<not> fails i) is))"

definition gather :: "json io list \<Rightarrow> json list io" where
  "gather ms = (\<lambda>net w.
     (let (rs, w') = run_all ms net w;
          order = sort_key (ends net (posted w')) [0..<length rs];
          (over, open) = until_failure (\<lambda>i. failed (fst (rs ! i))) order in
      (bindE (mapE (\<lambda>i. fst (rs ! i)) over) (\<lambda>vs. mapE fst rs),
       w'\<lparr>observed := observed w @ concat (map (\<lambda>i. snd (rs ! i)) over),
          late := late w' @ concat (map (\<lambda>i. snd (rs ! i)) open)\<rparr>)))"

section \<open>Resolving block identifiers\<close>

definition resolve_summary :: "json \<Rightarrow> int option io" where
  "resolve_summary rpc =
     (if rpc = JNull then retI None
      else liftI (bindE (jindex ''number'' rpc) (\<lambda>n. mapR Some (hex_to_int n))))"

definition resolve_block_id :: "block_id \<Rightarrow> int option io" where
  "resolve_block_id bid =
     (case bid_number bid of
        Some n \<Rightarrow> retI (Some n)
      | None \<Rightarrow>
          (case bid_tag bid of
             Some t \<Rightarrow>
               (if t = ''earliest'' then retI (Some 0)
                else if t = ''latest''
                then bindI (upstream_call ''eth_blockNumber'' []) (\<lambda>h. liftI (mapR Some (hex_to_int h)))
                else bindI (upstream_call ''eth_getBlockByNumber'' [JStr t, JBool False])
                       resolve_summary)
           | None \<Rightarrow>
               (case bid_hash bid of
                  None \<Rightarrow> raiseI AssertionError
                | Some h \<Rightarrow>
                    bindI (upstream_call ''eth_getBlockByHash'' [JStr h, JBool False])
                      resolve_summary)))"

section \<open>Interface: a relation every computation keeps\<close>

text \<open>
  A reflexive and transitive relation on the client's states that one call keeps is kept by every
  computation built from calls: the rules below follow the structure of the handlers.
\<close>

definition keeps :: "(world \<Rightarrow> world \<Rightarrow> bool) \<Rightarrow> 'a io \<Rightarrow> bool" where
  "keeps R m \<longleftrightarrow> (\<forall>net w. R w (snd (m net w)))"

locale io_relation =
  fixes R :: "world \<Rightarrow> world \<Rightarrow> bool"
  assumes R_refl: "R w w"
    and R_trans: "R w1 w2 \<Longrightarrow> R w2 w3 \<Longrightarrow> R w1 w3"
    and R_call: "R w (snd (upstream_call meth params net w))"
begin

lemma keeps_ret: "keeps R (retI a)"
  by (simp add: keeps_def retI_def R_refl)

lemma keeps_raise: "keeps R (raiseI e)"
  by (simp add: keeps_def raiseI_def R_refl)

lemma keeps_lift: "keeps R (liftI r)"
  by (simp add: keeps_def liftI_def R_refl)

lemma keeps_call: "keeps R (upstream_call meth params)"
  by (simp add: keeps_def R_call)

lemma keeps_bind: "keeps R m \<Longrightarrow> (\<And>a. keeps R (f a)) \<Longrightarrow> keeps R (bindI m f)"
proof -
  assume m: "keeps R m" and f: "\<And>a. keeps R (f a)"
  have "R w (snd (bindI m f net w))" for net w
  proof -
    obtain r w' where mw: "m net w = (r, w')" by (cases "m net w")
    then have "R w w'" using m unfolding keeps_def by (metis snd_conv)
    moreover have "R w' (snd (f a net w'))" for a using f by (simp add: keeps_def)
    ultimately show ?thesis using R_trans by (cases r) (auto simp: bindI_def mw)
  qed
  then show ?thesis by (simp add: keeps_def)
qed

lemma keeps_catch: "keeps R m \<Longrightarrow> (\<And>e. keeps R (h e)) \<Longrightarrow> keeps R (catchI m h)"
proof -
  assume m: "keeps R m" and h: "\<And>e. keeps R (h e)"
  have "R w (snd (catchI m h net w))" for net w
  proof -
    obtain r w' where mw: "m net w = (r, w')" by (cases "m net w")
    then have "R w w'" using m unfolding keeps_def by (metis snd_conv)
    moreover have "R w' (snd (h a net w'))" for a using h by (simp add: keeps_def)
    ultimately show ?thesis using R_trans by (cases r) (auto simp: catchI_def mw)
  qed
  then show ?thesis by (simp add: keeps_def)
qed

lemma keeps_if: "(b \<Longrightarrow> keeps R m) \<Longrightarrow> (\<not> b \<Longrightarrow> keeps R n) \<Longrightarrow> keeps R (if b then m else n)"
  by simp

lemmas keeps_rules = keeps_ret keeps_raise keeps_lift keeps_call keeps_bind keeps_catch keeps_if

end

text \<open>
  The history of requests: a computation only appends to it, and the ids of what it appends are
  increasing and taken from the counter's range, so no two requests ever share an id.
\<close>

definition body_id :: "json \<Rightarrow> int" where
  "body_id b = (case b of JObj d \<Rightarrow> (case dget ''id'' d of Some (JInt i) \<Rightarrow> i | _ \<Rightarrow> 0) | _ \<Rightarrow> 0)"

definition history_step :: "world \<Rightarrow> world \<Rightarrow> bool" where
  "history_step w w' \<longleftrightarrow> next_id w \<le> next_id w' \<and>
     (\<exists>news. posted w' = posted w @ news \<and> sorted_wrt (<) (map body_id news)
        \<and> (\<forall>b \<in> set news. next_id w \<le> body_id b \<and> body_id b < next_id w'))
     \<and> (\<exists>seen. observed w' = observed w @ seen
        \<and> int (length seen + length (late w')) = int (length (late w)) + (next_id w' - next_id w))"

lemma body_id_rpc [simp]: "body_id (rpc_body i m ps) = i"
  by (simp add: body_id_def rpc_body_def)

lemma history_step_refl: "history_step w w"
  by (simp add: history_step_def)

lemma history_step_trans:
  assumes "history_step w1 w2" "history_step w2 w3"
  shows "history_step w1 w3"
proof -
  from assms obtain n1 n2 s1 s2 where
    "posted w2 = posted w1 @ n1" "posted w3 = posted w2 @ n2"
    "sorted_wrt (<) (map body_id n1)" "sorted_wrt (<) (map body_id n2)"
    "\<forall>b \<in> set n1. next_id w1 \<le> body_id b \<and> body_id b < next_id w2"
    "\<forall>b \<in> set n2. next_id w2 \<le> body_id b \<and> body_id b < next_id w3"
    "observed w2 = observed w1 @ s1" "observed w3 = observed w2 @ s2"
    "int (length s1 + length (late w2)) = int (length (late w1)) + (next_id w2 - next_id w1)"
    "int (length s2 + length (late w3)) = int (length (late w2)) + (next_id w3 - next_id w2)"
    "next_id w1 \<le> next_id w2" "next_id w2 \<le> next_id w3"
    unfolding history_step_def by blast
  then show ?thesis
    unfolding history_step_def
    by (intro conjI exI [of _ "n1 @ n2"] exI [of _ "s1 @ s2"])
      (fastforce simp: sorted_wrt_append)+
qed

lemma history_step_call: "history_step w (snd (upstream_call meth params net w))"
  by (auto simp: history_step_def upstream_call_def Let_def split: sum.splits prod.splits)

interpretation history: io_relation history_step
  by unfold_locales (rule history_step_refl, blast intro: history_step_trans, rule history_step_call)

text \<open>The members of a \<open>gather\<close>: what each was observed to do, one after another.\<close>

lemma history_run_all:
  assumes "run_all ms net w = (rs, w')" "\<And>m. m \<in> set ms \<Longrightarrow> keeps history_step m"
  shows "history_step w w' \<and> observed w' = observed w @ concat (map snd rs)"
  using assms
proof (induction ms arbitrary: w rs)
  case Nil
  then show ?case by (simp add: history_step_refl)
next
  case (Cons m ms)
  obtain r w1 where m: "m net w = (r, w1)" by fastforce
  obtain qs w2 where "run_all ms net w1 = (qs, w2)" by fastforce
  then have q: "run_all ms net w1 = (qs, w')" "rs = (r, new_calls w w1) # qs"
    using Cons.prems(1) m by simp_all
  have "keeps history_step m" using Cons.prems(2) by simp
  then have h: "history_step w w1" unfolding keeps_def by (metis m snd_conv)
  moreover have "history_step w1 w' \<and> observed w' = observed w1 @ concat (map snd qs)"
    using Cons.IH [OF q(1)] Cons.prems(2) by simp
  moreover have "observed w1 = observed w @ new_calls w w1"
    using h by (auto simp: history_step_def new_calls_def)
  ultimately show ?case using q(2) by (auto intro: history_step_trans)
qed

lemma until_failure_perm: "until_failure fails is = (us, vs) \<Longrightarrow> us @ vs = is"
  by (auto simp: until_failure_def)

lemma length_concat_sorted: "length (concat (map f (sort_key k [0..<n]))) = length (concat (map f [0..<n]))"
proof -
  let ?g = "\<lambda>i. length (f i)"
  have "length (concat (map f is)) = sum ?g (set is)" if "distinct is" for "is" :: "nat list"
    using that by (induction "is") simp_all
  from this [of "sort_key k [0..<n]"] this [of "[0..<n]"] show ?thesis by simp
qed

lemma history_gather_all:
  assumes "\<And>m. m \<in> set ms \<Longrightarrow> keeps history_step m"
  shows "keeps history_step (gather ms)"
proof -
  have "history_step w (snd (gather ms net w))" for net w
  proof -
    obtain rs w' where r: "run_all ms net w = (rs, w')" by fastforce
    note h = history_run_all [OF r assms]
    let ?is = "sort_key (ends net (posted w')) [0..<length rs]"
    obtain us vs where u: "until_failure (\<lambda>i. failed (fst (rs ! i))) ?is = (us, vs)" by fastforce
    let ?len = "\<lambda>is. length (concat (map (\<lambda>i. snd (rs ! i)) is))"
    have "?len us + ?len vs = ?len (us @ vs)" by simp
    also have "\<dots> = ?len ?is" using until_failure_perm [OF u] by (rule arg_cong)
    also have "\<dots> = ?len [0..<length rs]"
      by (rule length_concat_sorted)
    also have "map (\<lambda>i. snd (rs ! i)) [0..<length rs] = map snd rs"
      by (rule nth_equalityI) simp_all
    finally have len: "?len us + ?len vs = length (concat (map snd rs))" .
    have "snd (gather ms net w) = w'\<lparr>observed := observed w @ concat (map (\<lambda>i. snd (rs ! i)) us),
        late := late w' @ concat (map (\<lambda>i. snd (rs ! i)) vs)\<rparr>"
      by (simp add: gather_def r u)
    with h len show ?thesis by (auto simp: history_step_def)
  qed
  then show ?thesis by (simp add: keeps_def)
qed

section \<open>What a gather gives back\<close>

lemma first_failing:
  assumes "i < n" "fails i" "\<And>j. j < n \<Longrightarrow> j \<noteq> i \<Longrightarrow> fails j \<Longrightarrow> k i < (k j :: nat)"
  obtains xs ys where "sort_key k [0..<n] = xs @ i # ys" "\<And>j. j \<in> set xs \<Longrightarrow> \<not> fails j"
proof -
  have "i \<in> set (sort_key k [0..<n])" using assms(1) by simp
  then obtain xs ys where s: "sort_key k [0..<n] = xs @ i # ys" by (meson split_list)
  have "sorted (map k (xs @ i # ys))" "distinct (xs @ i # ys)" "set (xs @ i # ys) = {0..<n}"
    using sorted_sort_key [of k "[0..<n]"] distinct_sort [of k "[0..<n]"] set_sort [of k "[0..<n]"] unfolding s by simp_all
  then have "\<not> fails j" if "j \<in> set xs" for j
  proof -
    have "k j \<le> k i" "j \<noteq> i" "j < n"
      using that \<open>sorted (map k (xs @ i # ys))\<close> \<open>distinct (xs @ i # ys)\<close> \<open>set (xs @ i # ys) = {0..<n}\<close>
      by (auto simp: sorted_append)
    with assms(3) show ?thesis by force
  qed
  with s show thesis by (rule that)
qed

lemma mapE_ok: "(\<And>x. x \<in> set xs \<Longrightarrow> \<not> failed (f x)) \<Longrightarrow> \<exists>ys. mapE f xs = Inr ys"
proof (induction xs)
  case (Cons x xs)
  have "\<not> failed (f x)" using Cons.prems by simp
  then obtain y where "f x = Inr y" by (cases "f x") (simp_all add: failed_def)
  with Cons show ?case by auto
qed simp

text \<open>The failure that ends first is raised, and the observer has heard of the members that ended until then.\<close>

lemma gather_fails_first:
  assumes "run_all ms net w = (rs, w')" "i < length rs" "fst (rs ! i) = Inl e"
    and "\<And>j. j < length rs \<Longrightarrow> j \<noteq> i \<Longrightarrow> failed (fst (rs ! j)) \<Longrightarrow> ends net (posted w') i < ends net (posted w') j"
  shows "\<exists>xs ys. sort_key (ends net (posted w')) [0..<length rs] = xs @ i # ys
    \<and> gather ms net w = (Inl e, w'\<lparr>observed := observed w @ concat (map (\<lambda>i. snd (rs ! i)) (xs @ [i])),
          late := late w' @ concat (map (\<lambda>i. snd (rs ! i)) ys)\<rparr>)"
proof -
  let ?fails = "\<lambda>i. failed (fst (rs ! i))"
  have f: "?fails i" using assms(3) by (simp add: failed_def)
  obtain xs ys where s: "sort_key (ends net (posted w')) [0..<length rs] = xs @ i # ys" "\<And>j. j \<in> set xs \<Longrightarrow> \<not> ?fails j"
    using first_failing [where fails = ?fails and k = "ends net (posted w')", OF assms(2) f assms(4)] by blast
  have "takeWhile (\<lambda>i. \<not> ?fails i) (xs @ i # ys) = xs" "dropWhile (\<lambda>i. \<not> ?fails i) (xs @ i # ys) = i # ys"
    using s(2) f by (simp_all add: takeWhile_tail dropWhile_append3)
  then have u: "until_failure ?fails (sort_key (ends net (posted w')) [0..<length rs]) = (xs @ [i], ys)"
    by (simp add: until_failure_def s(1))
  obtain vs where "mapE (\<lambda>i. fst (rs ! i)) xs = Inr vs" using mapE_ok s(2) by metis
  then have "mapE (\<lambda>i. fst (rs ! i)) (xs @ [i]) = Inl e"
    using assms(3) by (induction xs arbitrary: vs) (auto simp: res_iffs)
  with u show ?thesis using s(1) by (intro exI [of _ xs] exI [of _ ys]) (simp add: gather_def assms(1))
qed

text \<open>Without a failure the results come back in the order of the members.\<close>

lemma gather_all_ok:
  assumes "run_all ms net w = (rs, w')" "\<And>i. i < length rs \<Longrightarrow> \<not> failed (fst (rs ! i))"
  shows "fst (gather ms net w) = mapE fst rs"
proof -
  let ?is = "sort_key (ends net (posted w')) [0..<length rs]"
  have ok: "i \<in> set ?is \<Longrightarrow> \<not> failed (fst (rs ! i))" for i using assms(2) by simp
  have "takeWhile (\<lambda>i. \<not> failed (fst (rs ! i))) ?is = ?is" using ok by (simp only: takeWhile_eq_all_conv) blast
  moreover have "dropWhile (\<lambda>i. \<not> failed (fst (rs ! i))) ?is = []" using ok by (simp only: dropWhile_eq_Nil_conv) blast
  ultimately have u: "until_failure (\<lambda>i. failed (fst (rs ! i))) ?is = (?is, [])"
    by (simp only: until_failure_def) simp
  obtain vs where "mapE (\<lambda>i. fst (rs ! i)) ?is = Inr vs" using mapE_ok [of ?is "\<lambda>i. fst (rs ! i)"] ok by blast
  with u show ?thesis by (simp add: gather_def assms(1))
qed

lemma resolve_block_id_history: "keeps history_step (resolve_block_id bid)"
  unfolding resolve_block_id_def resolve_summary_def
  by (auto intro!: history.keeps_rules split: option.splits)

section \<open>Facts about calls\<close>

lemma upstream_call_dumpable:
  assumes "list_all dumpable ps"
  shows "upstream_call meth ps net w =
    (snd (read_outcome (reply net (posted w @ [rpc_body (next_id w) meth ps]))),
     w\<lparr>next_id := next_id w + 1, posted := posted w @ [rpc_body (next_id w) meth ps],
       observed := observed w
         @ [(meth, fst (read_outcome (reply net (posted w @ [rpc_body (next_id w) meth ps]))))]\<rparr>)"
  using assms
  by (simp add: upstream_call_def Let_def json_dumps_res_def case_prod_beta del: json_dumps.simps)

lemma int_of_json_exn: "int_of_json v = Inl e \<Longrightarrow> (\<exists>m. e = ValueError m) \<or> e = OverflowError \<or> e = TypeError"
  by (auto simp: int_of_json_def split: json.splits option.splits pyfloat.splits dest: int_of_str_exn)

lemma read_payload_cases:
  "(\<exists>v. read_payload j = (''ok'', Inr v)) \<or>
   (\<exists>m. read_payload j = (''transport-error'', Inl (UpstreamError m))) \<or>
   (\<exists>e. read_payload j = (''error'', Inl e)
      \<and> ((\<exists>c m d. e = UpstreamJsonRpcError c m d) \<or> (\<exists>m. e = ValueError m)
         \<or> e = OverflowError \<or> e = TypeError))"
proof (cases j)
  case (JObj d)
  show ?thesis
  proof (cases "dget ''error'' d")
    case None
    then show ?thesis using JObj by (cases "dget ''result'' d") (simp_all add: read_payload_def)
  next
    case (Some err)
    show ?thesis
    proof (cases err)
      case e: (JObj e)
      then show ?thesis
        using JObj Some int_of_json_exn
        by (cases "int_of_json (dget_or ''code'' (JInt (-32603)) e)")
          (fastforce simp: read_payload_def)+
    qed (use JObj Some in \<open>simp_all add: read_payload_def\<close>)
  qed
qed (simp_all add: read_payload_def)

lemma read_payload_ok_iff:
  "snd (read_payload j) = Inr v \<longleftrightarrow>
     (\<exists>d. j = JObj d \<and> dget ''error'' d = None \<and> dget ''result'' d = Some v)"
  by (auto simp: read_payload_def res_iffs split: json.splits option.splits)

lemma read_outcome_cases:
  "(\<exists>v. read_outcome r = (''ok'', Inr v)) \<or> read_outcome r = (''ok'', Inl TimeoutError) \<and> r = HttpTimeout \<or>
   (\<exists>m. read_outcome r = (''transport-error'', Inl (UpstreamError m))) \<or>
   (\<exists>e. read_outcome r = (''error'', Inl e)
      \<and> ((\<exists>c m d. e = UpstreamJsonRpcError c m d) \<or> (\<exists>m. e = ValueError m)
         \<or> e = OverflowError \<or> e = TypeError))"
proof (cases r)
  case (HttpReply st bod)
  then show ?thesis
    using read_payload_cases by (cases bod) (auto simp: read_outcome_def)
qed (simp_all add: read_outcome_def)

lemma read_outcome_ok_iff:
  "snd (read_outcome r) = Inr v \<longleftrightarrow>
     (\<exists>d. r = HttpReply 200 (Inr (JObj d)) \<and> dget ''error'' d = None \<and> dget ''result'' d = Some v)"
  by (auto simp: read_outcome_def read_payload_ok_iff split: http_outcome.splits sum.splits)

lemma read_outcome_upstream_status:
  "(\<exists>m. snd (read_outcome r) = Inl (UpstreamError m)) \<longleftrightarrow> fst (read_outcome r) = ''transport-error''"
  using read_outcome_cases [of r] by auto

text \<open>The exceptions a call can raise.\<close>

fun call_exn :: "exn \<Rightarrow> bool" where
  "call_exn (UpstreamError _) = True"
| "call_exn (UpstreamJsonRpcError _ _ _) = True"
| "call_exn TimeoutError = True"
| "call_exn (ValueError _) = True"
| "call_exn OverflowError = True"
| "call_exn TypeError = True"
| "call_exn _ = False"

lemma upstream_call_exn: "fst (upstream_call m ps net w) = Inl e \<Longrightarrow> call_exn e"
proof (cases "list_all dumpable ps")
  case True
  assume "fst (upstream_call m ps net w) = Inl e"
  with True show ?thesis
    using read_outcome_cases [of "reply net (posted w @ [rpc_body (next_id w) m ps])"]
    by (auto simp: upstream_call_dumpable)
next
  case False
  assume "fst (upstream_call m ps net w) = Inl e"
  with False show ?thesis by (auto simp: upstream_call_def Let_def json_dumps_res_def)
qed

lemma upstream_call_next_id: "next_id (snd (upstream_call m ps net w)) = next_id w + 1"
  by (simp add: upstream_call_def Let_def split: sum.splits prod.splits)

text \<open>A pure step after a call, as the resolver has them.\<close>

definition resolve_step :: "(json \<Rightarrow> int option io) \<Rightarrow> bool" where
  "resolve_step f \<longleftrightarrow> (\<forall>v net w. snd (f v net w) = w \<and> fst (f v net w) \<noteq> Inl AssertionError
     \<and> (\<forall>n. fst (f v net w) = Inr (Some n) \<longrightarrow> 0 \<le> n))"

lemma resolve_step_latest: "resolve_step (\<lambda>h. liftI (mapR Some (hex_to_int h)))"
  by (auto simp: resolve_step_def liftI_def res_iffs hex_to_int_nonneg dest: hex_to_int_exn)

lemma resolve_step_summary: "resolve_step resolve_summary"
proof -
  have "jindex k v \<noteq> Inl AssertionError" for k v by (cases v) (auto split: option.splits)
  then show ?thesis
    by (auto simp: resolve_step_def resolve_summary_def retI_def liftI_def res_iffs
        hex_to_int_nonneg dest: hex_to_int_exn)
qed

lemma resolve_after_call:
  assumes "bindI (upstream_call m ps) f net w = (out, w')" "resolve_step f"
  shows "next_id w' = next_id w + 1 \<and> (\<forall>n. out = Inr (Some n) \<longrightarrow> 0 \<le> n) \<and> out \<noteq> Inl AssertionError"
proof -
  obtain r w1 where c: "upstream_call m ps net w = (r, w1)" by fastforce
  have n: "next_id w1 = next_id w + 1" using upstream_call_next_id [of m ps net w] c by simp
  show ?thesis
  proof (cases r)
    case (Inl e)
    then have "call_exn e" using upstream_call_exn [of m ps net w e] c by simp
    then show ?thesis using assms(1) c n Inl by (auto simp: bindI_def)
  next
    case (Inr v)
    then have "f v net w1 = (out, w')" using assms(1) c by (simp add: bindI_def)
    then show ?thesis using assms(2) n unfolding resolve_step_def by (metis fst_conv snd_conv)
  qed
qed

section \<open>Properties\<close>

text \<open>
  C19. One call makes one request, with the next id, and returns the result member exactly when the
  reply is a 200 whose body is an object without an error member; it raises \<open>UpstreamError\<close> exactly
  when it reports a transport error to the observer. Nothing is retried.
\<close>

theorem upstream_call_outcome:
  assumes "list_all dumpable ps"
    and "upstream_call meth ps net w = (out, w')"
  shows "posted w' = posted w @ [rpc_body (next_id w) meth ps] \<and> next_id w' = next_id w + 1
    \<and> (\<forall>v. out = Inr v \<longleftrightarrow> (\<exists>d. reply net (posted w') = HttpReply 200 (Inr (JObj d))
          \<and> dget ''error'' d = None \<and> dget ''result'' d = Some v))
    \<and> (\<exists>status. observed w' = observed w @ [(meth, status)]
          \<and> ((\<exists>m. out = Inl (UpstreamError m)) \<longleftrightarrow> status = ''transport-error''))"
  using assms upstream_call_dumpable [OF assms(1)]
  by (auto simp: read_outcome_ok_iff read_outcome_upstream_status)

text \<open>An upstream that answers every request with the given value, and a fresh client.\<close>

definition constant_net :: "json \<Rightarrow> net" where
  "constant_net v = \<lparr>reply = \<lambda>h. HttpReply 200 (Inr (JObj [(''jsonrpc'', JStr ''2.0''), (''result'', v)])),
     ends = \<lambda>h i. i\<rparr>"

definition fresh :: world where
  "fresh = \<lparr>next_id = 1, posted = [], observed = [], late = []\<rparr>"

theorem upstream_call_outcome_witness:
  "fst (upstream_call ''eth_blockNumber'' [] (constant_net (JStr ''0x10'')) fresh) = Inr (JStr ''0x10'')
   \<and> next_id (snd (upstream_call ''eth_blockNumber'' [] (constant_net (JStr ''0x10'')) fresh)) = 2"
proof -
  obtain out w' where c: "upstream_call ''eth_blockNumber'' [] (constant_net (JStr ''0x10'')) fresh = (out, w')"
    by fastforce
  from upstream_call_outcome [OF _ c]
  have "out = Inr (JStr ''0x10'')" "next_id w' = 2"
    by (simp_all add: constant_net_def fresh_def)
  with c show ?thesis by simp
qed

text \<open>
  A timeout is not the transport failure the client documents: the session's timeout raises
  \<open>TimeoutError\<close>, which is no \<open>UpstreamError\<close>, and the observer is told that the call went well.
\<close>

lemma timeout_observed_ok:
  assumes "list_all dumpable ps"
    and "reply net (posted w @ [rpc_body (next_id w) meth ps]) = HttpTimeout"
  shows "fst (upstream_call meth ps net w) = Inl TimeoutError
    \<and> observed (snd (upstream_call meth ps net w)) = observed w @ [(meth, ''ok'')]"
  using assms(2) by (simp add: upstream_call_dumpable [OF assms(1)] read_outcome_def)

lemma timeout_observed_ok_witness:
  "fst (upstream_call ''eth_chainId'' [] \<lparr>reply = \<lambda>h. HttpTimeout, ends = \<lambda>h i. i\<rparr> fresh) = Inl TimeoutError"
  using timeout_observed_ok [of "[]" "\<lparr>reply = \<lambda>h. HttpTimeout, ends = \<lambda>h i. i\<rparr>" fresh "''eth_chainId''"]
  by simp

text \<open>
  Resolving an identifier that the parser accepted: a number and \<open>earliest\<close> cost no request and
  resolve to themselves, every other identifier costs at most one, and what comes back is a
  non-negative number or nothing.
\<close>

lemma resolve_block_id_spec:
  assumes "block_id_ok bid" and "resolve_block_id bid net w = (out, w')"
  shows "(\<forall>n. bid_number bid = Some n \<longrightarrow> out = Inr (Some n) \<and> w' = w)
    \<and> (bid_tag bid = Some ''earliest'' \<longrightarrow> out = Inr (Some 0) \<and> w' = w)
    \<and> next_id w' \<le> next_id w + 1
    \<and> (\<forall>n. out = Inr (Some n) \<longrightarrow> 0 \<le> n) \<and> out \<noteq> Inl AssertionError"
proof -
  consider (tag) t where "t \<in> set block_tags" "bid = \<lparr>bid_tag = Some t, bid_number = None, bid_hash = None\<rparr>"
    | (num) n where "0 \<le> n" "bid = \<lparr>bid_tag = None, bid_number = Some n, bid_hash = None\<rparr>"
    | (hash) h where "bid = \<lparr>bid_tag = None, bid_number = None, bid_hash = Some h\<rparr>"
    using assms(1) by (auto simp: block_id_ok_def)
  then show ?thesis
  proof cases
    case tag
    then show ?thesis
      using assms(2) resolve_after_call [of _ _ resolve_summary net w out w']
        resolve_after_call [of _ _ "\<lambda>h. liftI (mapR Some (hex_to_int h))" net w out w']
        resolve_step_summary resolve_step_latest
      by (auto simp: resolve_block_id_def retI_def split: if_splits)
  next
    case num
    then show ?thesis using assms(2) by (auto simp: resolve_block_id_def retI_def)
  next
    case hash
    then show ?thesis
      using assms(2) resolve_after_call [of _ _ resolve_summary net w out w'] resolve_step_summary
      by (auto simp: resolve_block_id_def)
  qed
qed

lemma resolve_block_id_spec_witness:
  "fst (resolve_block_id \<lparr>bid_tag = Some ''latest'', bid_number = None, bid_hash = None\<rparr>
      (constant_net (JStr ''0x10'')) fresh) \<noteq> Inl AssertionError"
proof -
  let ?b = "\<lparr>bid_tag = Some ''latest'', bid_number = None, bid_hash = None\<rparr>"
  have "block_id_ok ?b" by (simp add: block_id_ok_def block_tags_def)
  then show ?thesis
    using resolve_block_id_spec [of ?b "constant_net (JStr ''0x10'')" fresh] by (metis prod.collapse)
qed

end
