(* ===== verification/Shapes.thy ===== *)
theory Shapes
  imports Upstream
begin

text \<open>
  The shape converters of \<open>handlers/transactions.py\<close>, \<open>handlers/blocks.py\<close>, \<open>handlers/accounts.py\<close>
  and \<open>handlers/chain.py\<close>: JSON-RPC objects to REST objects. A converter builds its dictionary key
  by key in the code's order, so the first conversion that fails is the exception raised. The
  facts: which fields a result has, that hexadecimal text comes out in lower case, quantities as
  integers or decimal strings, and that converting never invents an optional field.
\<close>

section \<open>Building dictionaries\<close>

text \<open>Pieces of a dictionary, evaluated from left to right; the keys of the pieces differ.\<close>

fun pieces :: "dict res list \<Rightarrow> dict res" where
  "pieces [] = Inr []"
| "pieces (r # rs) = bindE r (\<lambda>d. bindE (pieces rs) (\<lambda>e. Inr (d @ e)))"

definition field :: "string \<Rightarrow> json res \<Rightarrow> dict res" where
  "field k r = mapR (\<lambda>v. [(k, v)]) r"

text \<open>\<open>if k in rpc and rpc[k] is not None: out[k] = f(rpc[k])\<close>, and the form with \<open>rpc.get(k)\<close>.\<close>

definition when_present :: "string \<Rightarrow> (json \<Rightarrow> json res) \<Rightarrow> json \<Rightarrow> dict res" where
  "when_present k f rpc =
     bindE (jin k rpc) (\<lambda>p.
       if \<not> p then Inr []
       else bindE (jindex k rpc) (\<lambda>v. if v = JNull then Inr [] else field k (f v)))"

definition when_got :: "string \<Rightarrow> (json \<Rightarrow> json res) \<Rightarrow> json \<Rightarrow> dict res" where
  "when_got k f rpc = bindE (jget k rpc) (\<lambda>v. if v = JNull then Inr [] else field k (f v))"

text \<open>\<open>f(rpc[k]) if rpc.get(k) is not None else None\<close>.\<close>

definition or_null :: "string \<Rightarrow> (json \<Rightarrow> json res) \<Rightarrow> json \<Rightarrow> json res" where
  "or_null k f rpc = bindE (jget k rpc) (\<lambda>v. if v = JNull then Inr JNull else f v)"

definition at_key :: "string \<Rightarrow> (json \<Rightarrow> json res) \<Rightarrow> json \<Rightarrow> json res" where
  "at_key k f rpc = bindE (jindex k rpc) f"

definition int_field :: "json \<Rightarrow> json res" where
  "int_field v = mapR JInt (hex_to_int v)"

definition wei_field :: "json \<Rightarrow> json res" where
  "wei_field v = mapR JStr (wei_from_rpc v)"

definition address_field :: "json \<Rightarrow> json res" where
  "address_field v = mapR JStr (map_address_lowercase v)"

text \<open>\<open>[f(x) for x in v]\<close>.\<close>

definition list_field :: "(json \<Rightarrow> json res) \<Rightarrow> json \<Rightarrow> json res" where
  "list_field f v = bindE (jiter v) (\<lambda>xs. mapR JList (mapE f xs))"

text \<open>\<open>rpc.get(k, [])\<close> and \<open>rpc.get(k) or []\<close>, iterated.\<close>

definition get_list :: "string \<Rightarrow> (json \<Rightarrow> json res) \<Rightarrow> json \<Rightarrow> json res" where
  "get_list k f rpc = bindE (jget_default k (JList []) rpc) (list_field f)"

definition get_or_empty :: "string \<Rightarrow> (json \<Rightarrow> json res) \<Rightarrow> json \<Rightarrow> json res" where
  "get_or_empty k f rpc =
     bindE (jget k rpc) (\<lambda>v. list_field f (if truthy v then v else JList []))"

section \<open>Transactions, receipts, logs and traces\<close>

definition access_entry :: "json \<Rightarrow> json res" where
  "access_entry entry = mapR JObj (pieces
     [field ''address'' (at_key ''address'' address_field entry),
      field ''storageKeys'' (get_list ''storageKeys'' jlower entry)])"

definition block_hash_field :: "json \<Rightarrow> json res" where
  "block_hash_field rpc =
     bindE (jget ''blockHash'' rpc) (\<lambda>v. if truthy v then jlower v else Inr JNull)"

definition transaction_from_rpc :: "json \<Rightarrow> json res" where
  "transaction_from_rpc rpc = mapR JObj (pieces
     [field ''type'' (at_key ''type'' (\<lambda>v. mapR JStr (rest_tx_type_from_rpc v)) rpc),
      field ''hash'' (at_key ''hash'' jlower rpc),
      field ''from'' (at_key ''from'' address_field rpc),
      field ''nonce'' (at_key ''nonce'' int_field rpc),
      field ''gas'' (at_key ''gas'' int_field rpc),
      field ''input'' (at_key ''input'' jlower rpc),
      field ''value'' (at_key ''value'' wei_field rpc),
      field ''r'' (at_key ''r'' jlower rpc),
      field ''s'' (at_key ''s'' jlower rpc),
      field ''blockHash'' (block_hash_field rpc),
      field ''blockNumber'' (or_null ''blockNumber'' int_field rpc),
      field ''transactionIndex'' (or_null ''transactionIndex'' int_field rpc),
      field ''to'' (or_null ''to'' address_field rpc),
      when_present ''chainId'' int_field rpc,
      when_present ''gasPrice'' wei_field rpc,
      when_present ''maxFeePerGas'' wei_field rpc,
      when_present ''maxPriorityFeePerGas'' wei_field rpc,
      when_present ''maxFeePerBlobGas'' wei_field rpc,
      when_present ''accessList'' (list_field access_entry) rpc,
      when_present ''blobVersionedHashes'' (list_field jlower) rpc,
      when_present ''v'' jlower rpc,
      when_present ''yParity'' int_field rpc])"

definition log_from_rpc :: "json \<Rightarrow> json res" where
  "log_from_rpc rpc = mapR JObj (pieces
     [field ''address'' (at_key ''address'' address_field rpc),
      field ''topics'' (at_key ''topics'' (list_field jlower) rpc),
      field ''data'' (at_key ''data'' jlower rpc),
      field ''blockHash'' (at_key ''blockHash'' jlower rpc),
      field ''blockNumber'' (at_key ''blockNumber'' int_field rpc),
      field ''transactionHash'' (at_key ''transactionHash'' jlower rpc),
      field ''transactionIndex'' (at_key ''transactionIndex'' int_field rpc),
      field ''logIndex'' (at_key ''logIndex'' int_field rpc),
      field ''removed'' (mapR (\<lambda>v. JBool (truthy v)) (jget_default ''removed'' (JBool False) rpc))])"

definition receipt_from_rpc :: "json \<Rightarrow> json res" where
  "receipt_from_rpc rpc = mapR JObj (pieces
     [field ''transactionHash'' (at_key ''transactionHash'' jlower rpc),
      field ''transactionIndex'' (at_key ''transactionIndex'' int_field rpc),
      field ''blockHash'' (at_key ''blockHash'' jlower rpc),
      field ''blockNumber'' (at_key ''blockNumber'' int_field rpc),
      field ''from'' (at_key ''from'' address_field rpc),
      field ''cumulativeGasUsed'' (at_key ''cumulativeGasUsed'' int_field rpc),
      field ''gasUsed'' (at_key ''gasUsed'' int_field rpc),
      field ''logsBloom'' (at_key ''logsBloom'' jlower rpc),
      field ''logs'' (get_list ''logs'' log_from_rpc rpc),
      field ''status'' (at_key ''status'' (\<lambda>v. mapR JStr (rest_status_from_rpc v)) rpc),
      field ''type'' (at_key ''type'' (\<lambda>v. mapR JStr (rest_tx_type_from_rpc v)) rpc),
      field ''to'' (or_null ''to'' address_field rpc),
      field ''contractAddress'' (or_null ''contractAddress'' address_field rpc),
      when_present ''effectiveGasPrice'' wei_field rpc,
      when_present ''blobGasUsed'' int_field rpc,
      when_present ''blobGasPrice'' wei_field rpc])"

definition trace_position :: "json \<Rightarrow> json res" where
  "trace_position pos = (if is_str pos then int_field pos else mapR JInt (int_of_json pos))"

definition trace_from_rpc :: "json \<Rightarrow> json res" where
  "trace_from_rpc rpc = mapR JObj (pieces
     [field ''action'' (jget_default ''action'' (JObj []) rpc),
      field ''type'' (jindex ''type'' rpc),
      field ''subtraces'' (at_key ''subtraces'' (\<lambda>v. mapR JInt (int_of_json v)) rpc),
      field ''traceAddress'' (get_list ''traceAddress'' Inr rpc),
      field ''transactionHash'' (at_key ''transactionHash'' jlower rpc),
      field ''blockHash'' (at_key ''blockHash'' jlower rpc),
      field ''blockNumber'' (at_key ''blockNumber'' (\<lambda>v. mapR JInt (coerce_rpc_int v)) rpc),
      when_present ''result'' Inr rpc,
      when_present ''error'' Inr rpc,
      when_present ''transactionPosition'' trace_position rpc])"

section \<open>Blocks\<close>

definition hex_or :: "string \<Rightarrow> json \<Rightarrow> json res" where
  "hex_or k rpc = bindE (jget k rpc) (\<lambda>v. if is_str v then jlower v else Inr (JStr ''0x''))"

definition int_or :: "string \<Rightarrow> json \<Rightarrow> json res" where
  "int_or k rpc = bindE (jget k rpc) (\<lambda>v. if is_str v then int_field v else Inr (JInt 0))"

definition wei_or :: "string \<Rightarrow> json \<Rightarrow> json res" where
  "wei_or k rpc = bindE (jget k rpc) (\<lambda>v. if is_str v then wei_field v else Inr (JStr ''0''))"

definition zero_address :: string where
  "zero_address = ''0x'' @ concat (replicate 20 ''00'')"

definition header_fields :: "json \<Rightarrow> dict res" where
  "header_fields rpc = pieces
     [field ''number'' (at_key ''number'' int_field rpc),
      field ''hash'' (at_key ''hash'' jlower rpc),
      field ''parentHash'' (hex_or ''parentHash'' rpc),
      field ''stateRoot'' (hex_or ''stateRoot'' rpc),
      field ''transactionsRoot'' (hex_or ''transactionsRoot'' rpc),
      field ''receiptsRoot'' (hex_or ''receiptsRoot'' rpc),
      field ''logsBloom'' (hex_or ''logsBloom'' rpc),
      field ''gasUsed'' (int_or ''gasUsed'' rpc),
      field ''gasLimit'' (int_or ''gasLimit'' rpc),
      field ''timestamp'' (int_or ''timestamp'' rpc),
      field ''miner'' (bindE (jin ''miner'' rpc) (\<lambda>p.
        if p then at_key ''miner'' address_field rpc else Inr (JStr zero_address))),
      field ''difficulty'' (wei_or ''difficulty'' rpc),
      field ''totalDifficulty'' (wei_or ''totalDifficulty'' rpc),
      field ''extraData'' (hex_or ''extraData'' rpc),
      field ''mixHash'' (hex_or ''mixHash'' rpc),
      field ''nonce'' (hex_or ''nonce'' rpc),
      field ''size'' (int_or ''size'' rpc),
      when_got ''baseFeePerGas'' wei_field rpc,
      when_got ''withdrawalsRoot'' jlower rpc,
      when_got ''blobGasUsed'' int_field rpc,
      when_got ''excessBlobGas'' int_field rpc,
      when_got ''parentBeaconBlockRoot'' jlower rpc]"

definition require_header :: "json \<Rightarrow> unit res" where
  "require_header rpc =
     bindE (jin ''number'' rpc) (\<lambda>n.
       if \<not> n then Inl (KeyError ''block header requires `number` and `hash`'')
       else bindE (jin ''hash'' rpc) (\<lambda>h.
         if \<not> h then Inl (KeyError ''block header requires `number` and `hash`'') else Inr ()))"

definition block_header_fields :: "json \<Rightarrow> dict res" where
  "block_header_fields rpc = bindE (require_header rpc) (\<lambda>u. header_fields rpc)"

definition block_header_from_rpc :: "json \<Rightarrow> json res" where
  "block_header_from_rpc rpc = mapR JObj (block_header_fields rpc)"

definition withdrawal :: "json \<Rightarrow> json res" where
  "withdrawal w = mapR JObj (pieces
     [field ''index'' (at_key ''index'' int_field w),
      field ''validatorIndex'' (at_key ''validatorIndex'' int_field w),
      field ''address'' (at_key ''address'' address_field w),
      field ''amount'' (at_key ''amount'' wei_field w)])"

definition block_from_rpc :: "json \<Rightarrow> json res" where
  "block_from_rpc rpc = mapR JObj (pieces
     [block_header_fields rpc,
      field ''transactions'' (get_or_empty ''transactions'' transaction_from_rpc rpc),
      when_got ''withdrawals'' (list_field withdrawal) rpc])"

section \<open>Accounts and the chain\<close>

definition storage_proof :: "json \<Rightarrow> json res" where
  "storage_proof entry = mapR JObj (pieces
     [field ''key'' (at_key ''key'' jlower entry),
      field ''value'' (at_key ''value'' jlower entry),
      field ''proof'' (get_list ''proof'' jlower entry)])"

definition proof_from_rpc :: "json \<Rightarrow> json res" where
  "proof_from_rpc rpc = mapR JObj (pieces
     [field ''address'' (at_key ''address'' address_field rpc),
      field ''balance'' (at_key ''balance'' wei_field rpc),
      field ''codeHash'' (at_key ''codeHash'' jlower rpc),
      field ''nonce'' (at_key ''nonce'' int_field rpc),
      field ''storageHash'' (at_key ''storageHash'' jlower rpc),
      field ''accountProof'' (get_list ''accountProof'' jlower rpc),
      field ''storageProof'' (get_list ''storageProof'' storage_proof rpc)])"

definition sync_to_rest :: "json \<Rightarrow> json res" where
  "sync_to_rest v =
     (if v = JBool False then Inr (JObj [(''syncing'', JBool False)])
      else if is_dict v then mapR JObj (pieces
        [field ''syncing'' (Inr (JBool True)),
         field ''startingBlock'' (at_key ''startingBlock'' int_field v),
         field ''currentBlock'' (at_key ''currentBlock'' int_field v),
         field ''highestBlock'' (at_key ''highestBlock'' int_field v)])
      else Inl (ValueError (''unexpected eth_syncing response: '' @ py_repr v)))"

section \<open>Types of the results\<close>

text \<open>
  A schema names the keys a dictionary may have in their order, whether each is required, and what
  its value must satisfy.
\<close>

type_synonym schema = "(string \<times> bool \<times> (json \<Rightarrow> bool)) list"

definition conforms :: "schema \<Rightarrow> json \<Rightarrow> bool" where
  "conforms sc v \<longleftrightarrow> (\<exists>d. v = JObj d \<and> dwf d
     \<and> (\<forall>(k, x) \<in> set d. \<exists>req P. (k, req, P) \<in> set sc \<and> P x)
     \<and> (\<forall>(k, req, P) \<in> set sc. req \<longrightarrow> dhas k d))"

definition piece_ok :: "string \<times> bool \<times> (json \<Rightarrow> bool) \<Rightarrow> dict res \<Rightarrow> bool" where
  "piece_ok t r \<longleftrightarrow> (case t of (k, req, P) \<Rightarrow>
     \<forall>e. r = Inr e \<longrightarrow> (e = [] \<and> \<not> req) \<or> (\<exists>x. e = [(k, x)] \<and> P x))"

lemma pieces_conform:
  assumes "list_all2 piece_ok sc rs" "pieces rs = Inr d" "distinct (map fst sc)"
  shows "conforms sc (JObj d)"
proof -
  have "dwf d \<and> fst ` set d \<subseteq> fst ` set sc
      \<and> (\<forall>(k, x) \<in> set d. \<exists>req P. (k, req, P) \<in> set sc \<and> P x)
      \<and> (\<forall>(k, req, P) \<in> set sc. req \<longrightarrow> dhas k d)"
    using assms
  proof (induction sc rs arbitrary: d rule: list_all2_induct)
    case Nil
    then show ?case by (simp add: dwf_def)
  next
    case (Cons t sc r rs)
    obtain k req P where t: "t = (k, req, P)" by (cases t)
    from Cons.prems(1) obtain e d' where d: "r = Inr e" "pieces rs = Inr d'" "d = e @ d'"
      by (auto simp: res_iffs)
    from Cons.IH [OF d(2)] Cons.prems(2)
    have IH: "dwf d'" "fst ` set d' \<subseteq> fst ` set sc"
      "\<forall>(k, x) \<in> set d'. \<exists>req P. (k, req, P) \<in> set sc \<and> P x"
      "\<forall>(k, req, P) \<in> set sc. req \<longrightarrow> dhas k d'" by auto
    have new: "k \<notin> fst ` set sc" using Cons.prems(2) t by simp
    from Cons.hyps(1) d(1) t consider (none) "e = []" "\<not> req" | (one) x where "e = [(k, x)]" "P x"
      by (auto simp: piece_ok_def)
    then show ?case
    proof cases
      case none
      then have e: "d = d'" using d(3) by simp
      have "fst ` set d \<subseteq> fst ` set (t # sc)" using IH(2) e by auto
      moreover have "\<forall>(k, x) \<in> set d. \<exists>req P. (k, req, P) \<in> set (t # sc) \<and> P x"
        using IH(3) e by fastforce
      moreover have "\<forall>(k', req, P) \<in> set (t # sc). req \<longrightarrow> dhas k' d"
        using IH(4) e t none(2) by simp
      ultimately show ?thesis using IH(1) e by blast
    next
      case one
      have a: "dwf d" using one d(3) IH(1,2) new by (auto simp: dwf_def)
      have b: "fst ` set d \<subseteq> fst ` set (t # sc)" using one d(3) IH(2) t by auto
      have c: "\<forall>(k, x) \<in> set d. \<exists>req P. (k, req, P) \<in> set (t # sc) \<and> P x"
        using one d(3) IH(3) t by fastforce
      have "\<forall>(k', req, P) \<in> set (t # sc). req \<longrightarrow> dhas k' d"
        using one d(3) IH(4) t by (fastforce simp: dhas_iff)
      with a b c show ?thesis by blast
    qed
  qed
  then show ?thesis by (auto simp: conforms_def)
qed

text \<open>The types of the REST interface.\<close>

definition is_count :: "json \<Rightarrow> bool" where
  "is_count v \<longleftrightarrow> (\<exists>n \<ge> 0. v = JInt n)"

definition is_integer :: "json \<Rightarrow> bool" where
  "is_integer v \<longleftrightarrow> (\<exists>n. v = JInt n)"

definition is_wei :: "json \<Rightarrow> bool" where
  "is_wei v \<longleftrightarrow> (\<exists>s. v = JStr s \<and> all_dec s \<and> length s \<le> max_str_digits)"

definition is_address :: "json \<Rightarrow> bool" where
  "is_address v \<longleftrightarrow> (\<exists>s. v = JStr s \<and> re_hex_len 40 s \<and> lower s = s)"

definition or_nil :: "(json \<Rightarrow> bool) \<Rightarrow> json \<Rightarrow> bool" where
  "or_nil P v \<longleftrightarrow> v = JNull \<or> P v"

definition list_of :: "(json \<Rightarrow> bool) \<Rightarrow> json \<Rightarrow> bool" where
  "list_of P v \<longleftrightarrow> (\<exists>xs. v = JList xs \<and> list_all P xs)"

definition one_of :: "string list \<Rightarrow> json \<Rightarrow> bool" where
  "one_of ss v \<longleftrightarrow> (\<exists>s \<in> set ss. v = JStr s)"

definition any :: "json \<Rightarrow> bool" where
  "any v = True"

text \<open>What a conversion yields when it succeeds: one rule per conversion and per kind of piece.\<close>

named_theorems yield_rules "what the conversions yield"

definition yields :: "(json \<Rightarrow> json res) \<Rightarrow> (json \<Rightarrow> bool) \<Rightarrow> bool" where
  "yields f P \<longleftrightarrow> (\<forall>v x. f v = Inr x \<longrightarrow> P x)"

lemma yields_int [yield_rules]: "yields int_field is_count"
  by (auto simp: yields_def int_field_def res_iffs is_count_def hex_to_int_nonneg)

lemma yields_wei [yield_rules]: "yields wei_field is_wei"
proof -
  have "is_wei x" if "wei_field v = Inr x" for v x
  proof -
    from that obtain n s where n: "hex_to_int v = Inr n" "str_of_int n = Inr s" "x = JStr s"
      by (auto simp: wei_field_def wei_from_rpc_def res_iffs)
    with hex_to_int_nonneg [OF n(1)] show ?thesis
      by (auto simp: is_wei_def str_of_int_def show_int_def split: if_splits)
  qed
  then show ?thesis by (simp add: yields_def)
qed

lemma yields_address [yield_rules]: "yields address_field is_address"
  by (auto simp: yields_def address_field_def res_iffs is_address_def dest: map_address_shape)

lemma jlower_str: "jlower v = Inr x \<Longrightarrow> is_str x"
  by (cases v) auto

lemma yields_lower [yield_rules]: "yields jlower is_str"
  by (auto simp: yields_def jlower_str)

lemma yields_any [yield_rules]: "yields f any"
  by (simp add: yields_def any_def)

lemma yields_tx_type [yield_rules]:
  "yields (\<lambda>v. mapR JStr (rest_tx_type_from_rpc v)) (one_of (map snd tx_type_rpc_to_rest))"
  by (auto simp: yields_def rest_tx_type_from_rpc_def enum_lookup_def res_iffs one_of_def
      dest!: map_of_SomeD split: json.splits option.splits) force+

lemma yields_status [yield_rules]:
  "yields (\<lambda>v. mapR JStr (rest_status_from_rpc v)) (one_of (map snd status_rpc_to_rest))"
  by (auto simp: yields_def rest_status_from_rpc_def enum_lookup_def res_iffs one_of_def
      dest!: map_of_SomeD split: json.splits option.splits) force+

lemma yields_list [yield_rules]: "yields f P \<Longrightarrow> yields (list_field f) (list_of P)"
proof -
  assume f: "yields f P"
  have "list_of P x" if "list_field f v = Inr x" for v x
  proof -
    from that obtain xs ys where "x = JList ys" "mapE f xs = Inr ys"
      by (auto simp: list_field_def res_iffs)
    moreover from this have "P y" if "y \<in> set ys" for y
      using mapE_set [OF _ that] f by (auto simp: yields_def)
    ultimately show ?thesis by (simp add: list_of_def list_all_iff)
  qed
  then show ?thesis by (simp add: yields_def)
qed

lemma piece_at_key [yield_rules]: "yields f P \<Longrightarrow> piece_ok (k, True, P) (field k (at_key k f rpc))"
  by (auto simp: piece_ok_def field_def yields_def at_key_def res_iffs)

lemma piece_or_null [yield_rules]:
  "yields f P \<Longrightarrow> piece_ok (k, True, or_nil P) (field k (or_null k f rpc))"
  by (auto simp: piece_ok_def field_def yields_def or_null_def or_nil_def res_iffs split: if_splits)

lemma piece_get_list [yield_rules]:
  "yields f P \<Longrightarrow> piece_ok (k, True, list_of P) (field k (get_list k f rpc))"
  using yields_list [of f P] by (auto simp: piece_ok_def field_def yields_def get_list_def res_iffs)

lemma piece_get_or_empty [yield_rules]:
  "yields f P \<Longrightarrow> piece_ok (k, True, list_of P) (field k (get_or_empty k f rpc))"
  using yields_list [of f P]
  by (auto simp: piece_ok_def field_def yields_def get_or_empty_def res_iffs)

lemma piece_when_present [yield_rules]:
  "yields f P \<Longrightarrow> piece_ok (k, False, P) (when_present k f rpc)"
  by (auto simp: piece_ok_def when_present_def field_def yields_def res_iffs split: if_splits)

lemma piece_when_got [yield_rules]: "yields f P \<Longrightarrow> piece_ok (k, False, P) (when_got k f rpc)"
  by (auto simp: piece_ok_def when_got_def field_def yields_def res_iffs split: if_splits)

lemma piece_block_hash [yield_rules]:
  "piece_ok (k, True, or_nil is_str) (field k (block_hash_field rpc))"
  by (auto simp: piece_ok_def field_def block_hash_field_def res_iffs or_nil_def jlower_str
      split: if_splits)

lemma piece_any [yield_rules]: "piece_ok (k, True, any) (field k r)"
  by (auto simp: piece_ok_def field_def res_iffs any_def)

lemma piece_bool [yield_rules]:
  "piece_ok (k, True, \<lambda>v. \<exists>b. v = JBool b) (field k (mapR (\<lambda>v. JBool (f v)) r))"
  by (auto simp: piece_ok_def field_def res_iffs)

lemma yields_int_of_json [yield_rules]: "yields (\<lambda>v. mapR JInt (int_of_json v)) is_integer"
  by (auto simp: yields_def res_iffs is_integer_def)

lemma yields_position [yield_rules]: "yields trace_position is_integer"
  by (auto simp: yields_def trace_position_def int_field_def res_iffs is_integer_def split: if_splits)

lemma coerce_rpc_int_nonneg: "coerce_rpc_int v = Inr n \<Longrightarrow> 0 \<le> n"
  by (auto simp: coerce_rpc_int_def int_of_str_dec split: json.splits if_splits)

lemma yields_coerce [yield_rules]: "yields (\<lambda>v. mapR JInt (coerce_rpc_int v)) is_count"
  by (auto simp: yields_def res_iffs is_count_def coerce_rpc_int_nonneg)

lemma piece_hex_or [yield_rules]: "piece_ok (k, True, is_str) (field k (hex_or k rpc))"
  by (auto simp: piece_ok_def field_def hex_or_def res_iffs jlower_str split: if_splits)

lemma piece_int_or [yield_rules]: "piece_ok (k, True, is_count) (field k (int_or k rpc))"
  using yields_int
  by (auto simp: piece_ok_def field_def int_or_def res_iffs yields_def is_count_def split: if_splits)

lemma piece_wei_or [yield_rules]: "piece_ok (k, True, is_wei) (field k (wei_or k rpc))"
proof -
  have "is_wei (JStr ''0'')"
    by (simp add: is_wei_def all_dec_def is_dec_digit_def max_str_digits_def)
  then show ?thesis
    using yields_wei
    by (auto simp: piece_ok_def field_def wei_or_def res_iffs yields_def split: if_splits)
qed

lemma piece_miner [yield_rules]:
  "piece_ok (k, True, is_address) (field k (bindE (jin ''miner'' rpc) (\<lambda>p.
     if p then at_key ''miner'' address_field rpc else Inr (JStr zero_address))))"
proof -
  have "is_address (JStr zero_address)" by (simp add: is_address_def) code_simp
  then show ?thesis
    using yields_address
    by (auto simp: piece_ok_def field_def at_key_def res_iffs yields_def split: if_splits)
qed

definition access_schema :: schema where
  "access_schema = [(''address'', True, is_address), (''storageKeys'', True, list_of is_str)]"

definition transaction_schema :: schema where
  "transaction_schema =
     [(''type'', True, one_of (map snd tx_type_rpc_to_rest)), (''hash'', True, is_str),
      (''from'', True, is_address), (''nonce'', True, is_count), (''gas'', True, is_count),
      (''input'', True, is_str), (''value'', True, is_wei), (''r'', True, is_str),
      (''s'', True, is_str), (''blockHash'', True, or_nil is_str),
      (''blockNumber'', True, or_nil is_count), (''transactionIndex'', True, or_nil is_count),
      (''to'', True, or_nil is_address), (''chainId'', False, is_count),
      (''gasPrice'', False, is_wei), (''maxFeePerGas'', False, is_wei),
      (''maxPriorityFeePerGas'', False, is_wei), (''maxFeePerBlobGas'', False, is_wei),
      (''accessList'', False, list_of (conforms access_schema)),
      (''blobVersionedHashes'', False, list_of is_str), (''v'', False, is_str),
      (''yParity'', False, is_count)]"

definition log_schema :: schema where
  "log_schema =
     [(''address'', True, is_address), (''topics'', True, list_of is_str), (''data'', True, is_str),
      (''blockHash'', True, is_str), (''blockNumber'', True, is_count),
      (''transactionHash'', True, is_str), (''transactionIndex'', True, is_count),
      (''logIndex'', True, is_count), (''removed'', True, \<lambda>v. \<exists>b. v = JBool b)]"

definition receipt_schema :: schema where
  "receipt_schema =
     [(''transactionHash'', True, is_str), (''transactionIndex'', True, is_count),
      (''blockHash'', True, is_str), (''blockNumber'', True, is_count),
      (''from'', True, is_address), (''cumulativeGasUsed'', True, is_count),
      (''gasUsed'', True, is_count), (''logsBloom'', True, is_str),
      (''logs'', True, list_of (conforms log_schema)),
      (''status'', True, one_of (map snd status_rpc_to_rest)),
      (''type'', True, one_of (map snd tx_type_rpc_to_rest)),
      (''to'', True, or_nil is_address), (''contractAddress'', True, or_nil is_address),
      (''effectiveGasPrice'', False, is_wei), (''blobGasUsed'', False, is_count),
      (''blobGasPrice'', False, is_wei)]"

definition trace_schema :: schema where
  "trace_schema =
     [(''action'', True, any), (''type'', True, any), (''subtraces'', True, is_integer),
      (''traceAddress'', True, list_of any), (''transactionHash'', True, is_str),
      (''blockHash'', True, is_str), (''blockNumber'', True, is_count),
      (''result'', False, any), (''error'', False, any),
      (''transactionPosition'', False, is_integer)]"

definition header_schema :: schema where
  "header_schema =
     [(''number'', True, is_count), (''hash'', True, is_str), (''parentHash'', True, is_str),
      (''stateRoot'', True, is_str), (''transactionsRoot'', True, is_str),
      (''receiptsRoot'', True, is_str), (''logsBloom'', True, is_str), (''gasUsed'', True, is_count),
      (''gasLimit'', True, is_count), (''timestamp'', True, is_count),
      (''miner'', True, is_address), (''difficulty'', True, is_wei),
      (''totalDifficulty'', True, is_wei), (''extraData'', True, is_str),
      (''mixHash'', True, is_str), (''nonce'', True, is_str), (''size'', True, is_count),
      (''baseFeePerGas'', False, is_wei), (''withdrawalsRoot'', False, is_str),
      (''blobGasUsed'', False, is_count), (''excessBlobGas'', False, is_count),
      (''parentBeaconBlockRoot'', False, is_str)]"

lemmas schema_defs = access_schema_def transaction_schema_def log_schema_def receipt_schema_def
  trace_schema_def header_schema_def

lemma yields_pieces:
  assumes "\<And>rpc. list_all2 piece_ok sc (rs rpc)" "distinct (map fst sc)"
  shows "yields (\<lambda>rpc. mapR JObj (pieces (rs rpc))) (conforms sc)"
  using pieces_conform [OF assms(1) _ assms(2)] by (auto simp: yields_def res_iffs)

lemma access_entry_conforms [yield_rules]: "yields access_entry (conforms access_schema)"
  unfolding access_entry_def [abs_def] access_schema_def
  by (rule yields_pieces) (simp_all add: yield_rules)

lemma transaction_conforms [yield_rules]: "yields transaction_from_rpc (conforms transaction_schema)"
  unfolding transaction_from_rpc_def [abs_def] transaction_schema_def
  by (rule yields_pieces) (simp_all add: yield_rules)

lemma log_conforms [yield_rules]: "yields log_from_rpc (conforms log_schema)"
  unfolding log_from_rpc_def [abs_def] log_schema_def
  by (rule yields_pieces) (simp_all add: yield_rules)

lemma receipt_conforms: "yields receipt_from_rpc (conforms receipt_schema)"
  unfolding receipt_from_rpc_def [abs_def] receipt_schema_def
  by (rule yields_pieces) (simp_all add: yield_rules)

lemma trace_conforms: "yields trace_from_rpc (conforms trace_schema)"
  unfolding trace_from_rpc_def [abs_def] trace_schema_def
  by (rule yields_pieces) (simp_all add: yield_rules)

lemma header_conforms: "yields block_header_from_rpc (conforms header_schema)"
proof -
  have "yields (\<lambda>rpc. mapR JObj (header_fields rpc)) (conforms header_schema)"
    unfolding header_fields_def [abs_def] header_schema_def
    by (rule yields_pieces) (simp_all add: yield_rules)
  then show ?thesis
    by (auto simp: yields_def block_header_from_rpc_def block_header_fields_def res_iffs)
qed

lemma mapE_lower: "mapE jlower (map JStr ts) = Inr (map (\<lambda>t. JStr (lower t)) ts)"
  by (induction ts) simp_all

text \<open>A log as an upstream sends it.\<close>

definition rpc_log :: "string \<Rightarrow> string list \<Rightarrow> string \<Rightarrow> string \<Rightarrow> nat \<Rightarrow> string \<Rightarrow> nat \<Rightarrow> nat \<Rightarrow> bool \<Rightarrow> json" where
  "rpc_log a ts dt bh bn th ti li rm = JObj
     [(''address'', JStr a), (''topics'', JList (map JStr ts)), (''data'', JStr dt),
      (''blockHash'', JStr bh), (''blockNumber'', JStr (hex_quantity bn)),
      (''transactionHash'', JStr th), (''transactionIndex'', JStr (hex_quantity ti)),
      (''logIndex'', JStr (hex_quantity li)), (''removed'', JBool rm)]"

lemma log_from_rpc_log:
  "re_hex_len 40 a \<Longrightarrow> log_from_rpc (rpc_log a ts dt bh bn th ti li rm) = Inr (JObj
     [(''address'', JStr (lower a)), (''topics'', JList (map (\<lambda>t. JStr (lower t)) ts)),
      (''data'', JStr (lower dt)), (''blockHash'', JStr (lower bh)), (''blockNumber'', JInt (int bn)),
      (''transactionHash'', JStr (lower th)), (''transactionIndex'', JInt (int ti)),
      (''logIndex'', JInt (int li)), (''removed'', JBool rm)])"
  by (simp add: log_from_rpc_def rpc_log_def field_def at_key_def address_field_def
      map_address_lowercase_def list_field_def mapE_lower int_field_def jget_default_def)

section \<open>Properties\<close>

text \<open>
  C37. Whatever the upstream sends, a transaction or a receipt that converts is well typed: every
  documented field is there, no other field and no field twice, the addresses are 20 bytes in
  lower case, the counts are non-negative integers, amounts are decimal strings, the enumerations
  hold documented values, and absent optional fields are left out rather than null.
\<close>

theorem transactions_typed:
  assumes "transaction_from_rpc a = Inr x" "receipt_from_rpc b = Inr y"
  shows "conforms transaction_schema x \<and> conforms receipt_schema y"
  using assms transaction_conforms receipt_conforms by (auto simp: yields_def)

text \<open>
  C38. The same for blocks, logs and traces: a header keeps its required fields typed even when the
  upstream leaves all but the number and the hash out.
\<close>

theorem blocks_logs_traces_typed:
  assumes "block_header_from_rpc a = Inr x" "log_from_rpc b = Inr y" "trace_from_rpc c = Inr z"
  shows "conforms header_schema x \<and> conforms log_schema y \<and> conforms trace_schema z"
  using assms header_conforms log_conforms trace_conforms by (auto simp: yields_def)

text \<open>
  A well-formed log is converted field by field: the address and every piece of hexadecimal
  text in lower case, the three positions as the integers that the quantities denote.
\<close>

lemma log_values_kept:
  assumes "re_hex_len 40 a"
  shows "log_from_rpc (rpc_log a ts dt bh bn th ti li rm) = Inr (JObj
     [(''address'', JStr (lower a)), (''topics'', JList (map (\<lambda>t. JStr (lower t)) ts)),
      (''data'', JStr (lower dt)), (''blockHash'', JStr (lower bh)), (''blockNumber'', JInt (int bn)),
      (''transactionHash'', JStr (lower th)), (''transactionIndex'', JInt (int ti)),
      (''logIndex'', JInt (int li)), (''removed'', JBool rm)])"
  by (rule log_from_rpc_log [OF assms])

definition sample_address :: string where
  "sample_address = ''0x00000000000000000000000000000000000000AA''"

lemma sample_address_ok: "re_hex_len 40 sample_address"
  by code_simp

lemma log_values_kept_witness:
  "\<exists>d. log_from_rpc (rpc_log sample_address [''0xAB''] ''0x'' ''0x1'' 17 ''0x2'' 3 4 False) = Inr (JObj d)
    \<and> dget ''blockNumber'' d = Some (JInt 17)"
  using log_values_kept [OF sample_address_ok, of "[''0xAB'']" "''0x''" "''0x1''" 17 "''0x2''" 3 4 False]
  by simp

definition sample_tx :: json where
  "sample_tx = JObj
     [(''type'', JStr ''0x2''), (''hash'', JStr ''0xAB''), (''from'', JStr sample_address),
      (''nonce'', JStr ''0x1''), (''gas'', JStr ''0x5208''), (''input'', JStr ''0x''),
      (''value'', JStr ''0x0''), (''r'', JStr ''0x1''), (''s'', JStr ''0x2''),
      (''to'', JNull), (''chainId'', JStr ''0x1''), (''gasPrice'', JNull)]"

definition sample_receipt :: json where
  "sample_receipt = JObj
     [(''transactionHash'', JStr ''0xAB''), (''transactionIndex'', JStr ''0x0''),
      (''blockHash'', JStr ''0xCD''), (''blockNumber'', JStr ''0x10''), (''from'', JStr sample_address),
      (''cumulativeGasUsed'', JStr ''0x5208''), (''gasUsed'', JStr ''0x5208''),
      (''logsBloom'', JStr ''0x''), (''logs'', JList []), (''status'', JStr ''0x1''),
      (''type'', JStr ''0x2'')]"

definition sample_header :: json where
  "sample_header = JObj [(''number'', JStr ''0x10''), (''hash'', JStr ''0xCD'')]"

definition sample_trace :: json where
  "sample_trace = JObj
     [(''type'', JStr ''call''), (''subtraces'', JInt 0), (''transactionHash'', JStr ''0xAB''),
      (''blockHash'', JStr ''0xCD''), (''blockNumber'', JStr ''17'')]"

fun is_ok :: "'a res \<Rightarrow> bool" where
  "is_ok (Inr a) = True"
| "is_ok (Inl e) = False"

lemma is_ok_iff: "is_ok r \<longleftrightarrow> (\<exists>a. r = Inr a)"
  by (cases r) simp_all

lemma sample_values [simp]:
  "hex_to_int (JStr ''0x0'') = Inr 0" "hex_to_int (JStr ''0x1'') = Inr 1"
  "hex_to_int (JStr ''0x10'') = Inr 16" "hex_to_int (JStr ''0x5208'') = Inr 21000"
  "map_address_lowercase (JStr sample_address) = Inr (lower sample_address)"
  "str_of_int 0 = Inr ''0''" "coerce_rpc_int (JStr ''17'') = Inr 17"
  by (simp_all add: hex_to_int_def re_hex_def hex_body_def is_hex_digit_def read_digits_def value_of_def
      digit_val_def map_address_lowercase_def sample_address_ok str_of_int_def max_str_digits_def
      show_int_def coerce_rpc_int_def int_of_str_dec all_dec_def is_dec_digit_def)

lemmas shape_defs = field_def at_key_def address_field_def int_field_def wei_field_def
  wei_from_rpc_def list_field_def get_list_def or_null_def when_present_def when_got_def
  block_hash_field_def jget_default_def rest_tx_type_from_rpc_def rest_status_from_rpc_def
  enum_lookup_def tx_type_rpc_to_rest_def status_rpc_to_rest_def dhas_def

lemma samples_convert:
  "is_ok (transaction_from_rpc sample_tx)" "is_ok (receipt_from_rpc sample_receipt)"
  "is_ok (block_header_from_rpc sample_header)" "is_ok (trace_from_rpc sample_trace)"
  "is_ok (log_from_rpc (rpc_log sample_address [] ''0x'' ''0x1'' 17 ''0x2'' 3 4 False))"
      apply (simp add: transaction_from_rpc_def sample_tx_def shape_defs)
     apply (simp add: receipt_from_rpc_def sample_receipt_def shape_defs)
    apply (simp add: block_header_from_rpc_def block_header_fields_def require_header_def
      header_fields_def hex_or_def int_or_def wei_or_def sample_header_def shape_defs)
   apply (simp add: trace_from_rpc_def int_of_json_def sample_trace_def shape_defs)
  apply (simp add: log_from_rpc_log sample_address_ok)
  done

theorem transactions_typed_witness:
  "\<exists>x y. transaction_from_rpc sample_tx = Inr x \<and> receipt_from_rpc sample_receipt = Inr y
    \<and> conforms transaction_schema x \<and> conforms receipt_schema y"
  using samples_convert(1,2) transactions_typed [of sample_tx _ sample_receipt]
  unfolding is_ok_iff by blast

theorem blocks_logs_traces_typed_witness:
  "\<exists>x z. block_header_from_rpc sample_header = Inr x \<and> trace_from_rpc sample_trace = Inr z
    \<and> conforms header_schema x \<and> conforms trace_schema z"
  using samples_convert(3-5) blocks_logs_traces_typed [of sample_header]
  unfolding is_ok_iff by blast

end
