(* ===== verification/Cursor.thy ===== *)
theory Cursor
  imports JsonText
begin

text \<open>
  \<open>cursor.py\<close>: the opaque pagination cursors, base64url of compact JSON, and their decoders with
  every check in the code's order. The facts: decoding undoes encoding (three codecs composed), a
  cursor of one kind is refused by the other decoder, and a decoder fails with \<open>CursorError\<close> only,
  but for an integer that \<open>json.loads\<close> refuses.
\<close>

section \<open>The transport encoding\<close>

abbreviation to_bytes :: "string \<Rightarrow> nat list" where
  "to_bytes t \<equiv> utf8_encode (cps t)"

definition b64url_encode :: "dict \<Rightarrow> string res" where
  "b64url_encode payload =
     bindE (json_dumps_res (JObj payload)) (\<lambda>t. Inr (b64url_encode_bytes (to_bytes t)))"

text \<open>The two \<open>except\<close> clauses: what each turns into a \<open>CursorError\<close>.\<close>

definition bad_base64 :: "exn \<Rightarrow> 'a res" where
  "bad_base64 e =
     (if is_value_error e then Inl (CursorError (''cursor is not valid base64url: '' @ exn_str e))
      else Inl e)"

definition bad_json :: "exn \<Rightarrow> 'a res" where
  "bad_json e =
     (case e of
        UnicodeDecodeError \<Rightarrow> Inl (CursorError (''cursor payload is not valid JSON: '' @ exn_str e))
      | JSONDecodeError _ \<Rightarrow> Inl (CursorError (''cursor payload is not valid JSON: '' @ exn_str e))
      | _ \<Rightarrow> Inl e)"

definition b64url_decode :: "string \<Rightarrow> dict res" where
  "b64url_decode encoded =
     (if encoded = [] then Inl (CursorError ''cursor is empty'')
      else bindE (catchE (b64url_decode_bytes encoded) bad_base64) (\<lambda>raw.
           bindE (catchE (bindE (utf8_decode raw) json_loads) bad_json) (\<lambda>payload.
             (case payload of
                JObj d \<Rightarrow> Inr d
              | _ \<Rightarrow> Inl (CursorError (''cursor payload must be an object, got ''
                       @ type_name payload))))))"

section \<open>The two cursors\<close>

record cursor =
  next_from_block :: int
  last_log_index :: int
  to_block :: int
  boundary_block_hash :: json
  cursor_filter :: dict

record trace_cursor =
  tc_after :: int
  tc_from_block :: int
  tc_to_block :: int
  tc_filter :: dict

definition cursor_payload :: "cursor \<Rightarrow> dict" where
  "cursor_payload c =
     [(''kind'', JStr ''logs''), (''nextFromBlock'', JInt (next_from_block c)),
      (''lastLogIndex'', JInt (last_log_index c)), (''toBlock'', JInt (to_block c)),
      (''boundaryBlockHash'', boundary_block_hash c), (''filter'', JObj (cursor_filter c))]"

definition encode_cursor :: "cursor \<Rightarrow> string res" where
  "encode_cursor c = b64url_encode (cursor_payload c)"

definition missing_field :: "exn \<Rightarrow> 'a res" where
  "missing_field e =
     (if is_key_error e then Inl (CursorError (''cursor missing field: '' @ exn_str e)) else Inl e)"

text \<open>\<open>isinstance(v, int) and not isinstance(v, bool)\<close>.\<close>

fun as_int :: "json \<Rightarrow> int option" where
  "as_int (JInt i) = Some i"
| "as_int _ = None"

definition need_int :: "string \<Rightarrow> json \<Rightarrow> int res" where
  "need_int msg v = (case as_int v of Some i \<Rightarrow> Inr i | None \<Rightarrow> Inl (CursorError msg))"

definition need_dict :: "string \<Rightarrow> json \<Rightarrow> dict res" where
  "need_dict msg v = (case v of JObj d \<Rightarrow> Inr d | _ \<Rightarrow> Inl (CursorError msg))"

definition decode_cursor :: "string \<Rightarrow> cursor res" where
  "decode_cursor encoded =
     bindE (b64url_decode encoded) (\<lambda>payload.
     bindE (catchE (mapE (\<lambda>k. jindex k (JObj payload))
              [''nextFromBlock'', ''lastLogIndex'', ''toBlock'', ''boundaryBlockHash'', ''filter''])
            missing_field) (\<lambda>vs.
     bindE (need_int ''nextFromBlock must be an int'' (vs ! 0)) (\<lambda>nf.
     bindE (need_int ''lastLogIndex must be an int'' (vs ! 1)) (\<lambda>li.
     bindE (need_int ''toBlock must be an int'' (vs ! 2)) (\<lambda>tb.
     bindE (if is_str (vs ! 3) then Inr (vs ! 3)
            else Inl (CursorError ''boundaryBlockHash must be a string'')) (\<lambda>bh.
     bindE (need_dict ''filter must be an object'' (vs ! 4)) (\<lambda>flt.
       Inr \<lparr>next_from_block = nf, last_log_index = li, to_block = tb, boundary_block_hash = bh,
            cursor_filter = flt\<rparr>)))))))"

definition trace_cursor_payload :: "trace_cursor \<Rightarrow> dict" where
  "trace_cursor_payload c =
     [(''kind'', JStr ''traces''), (''after'', JInt (tc_after c)),
      (''fromBlock'', JInt (tc_from_block c)), (''toBlock'', JInt (tc_to_block c)),
      (''filter'', JObj (tc_filter c))]"

definition encode_trace_cursor :: "trace_cursor \<Rightarrow> string res" where
  "encode_trace_cursor c = b64url_encode (trace_cursor_payload c)"

definition decode_trace_cursor :: "string \<Rightarrow> trace_cursor res" where
  "decode_trace_cursor encoded =
     bindE (b64url_decode encoded) (\<lambda>payload.
     bindE (catchE (mapE (\<lambda>k. jindex k (JObj payload))
              [''after'', ''fromBlock'', ''toBlock'', ''filter''])
            missing_field) (\<lambda>vs.
     (case (as_int (vs ! 0), as_int (vs ! 1), as_int (vs ! 2)) of
        (Some a, Some f, Some t) \<Rightarrow>
          bindE (need_dict ''filter must be an object'' (vs ! 3)) (\<lambda>flt.
            Inr \<lparr>tc_after = a, tc_from_block = f, tc_to_block = t, tc_filter = flt\<rparr>)
      | _ \<Rightarrow> Inl (CursorError ''after / fromBlock / toBlock must all be ints''))))"

section \<open>The encoding is a codec\<close>

lemma cps_scalar: "list_all scalar (cps t)"
proof -
  have "scalar (cp c)" for c
  proof -
    have "cp c < 55296" using cp_less [of c] by linarith
    then show ?thesis by (simp add: scalar_def)
  qed
  then show ?thesis by (simp add: list_all_iff)
qed

interpretation text_bytes: codec_pair "\<lambda>j. cps (json_dumps j)" json_loads json_plain
    utf8_encode utf8_decode "list_all scalar"
  by unfold_locales (rule cps_scalar)

interpretation wire: codec_pair "\<lambda>j. to_bytes (json_dumps j)"
    "\<lambda>raw. bindE (utf8_decode raw) json_loads" json_plain
    b64url_encode_bytes b64url_decode_bytes "list_all (\<lambda>b. b < 256)"
  by unfold_locales (rule utf8_encode_bytes [OF cps_scalar])

lemma encoded_nonempty: "b64url_encode_bytes (to_bytes (json_dumps (JObj d))) \<noteq> []"
proof
  assume "b64url_encode_bytes (to_bytes (json_dumps (JObj d))) = []"
  moreover have "b64url_encode_bytes [] = []" by code_simp
  ultimately have "to_bytes (json_dumps (JObj d)) = []"
    using base64.enc_inj [of "to_bytes (json_dumps (JObj d))" "[]"]
      utf8_encode_bytes [OF cps_scalar] by (simp del: json_dumps.simps)
  then show False
    using utf8.enc_inj [of "cps (json_dumps (JObj d))" "[]"] cps_scalar
    by (simp add: utf8_encode_def utf8_enc1_def)
qed

lemma b64url_roundtrip_dict:
  assumes "json_plain (JObj d)"
  shows "\<exists>s. b64url_encode d = Inr s \<and> b64url_decode s = Inr d"
proof -
  let ?t = "json_dumps (JObj d)"
  have "json_dumps_res (JObj d) = Inr ?t"
    using json_plain_dumpable [OF assms] by (simp add: json_dumps_res_def del: json_dumps.simps)
  moreover have "b64url_decode_bytes (b64url_encode_bytes (to_bytes ?t)) = Inr (to_bytes ?t)"
    by (rule base64.dec_enc) (rule utf8_encode_bytes [OF cps_scalar])
  moreover have "bindE (utf8_decode (to_bytes ?t)) json_loads = Inr (JObj d)"
    by (rule text_bytes.both.dec_enc [OF assms])
  ultimately show ?thesis
    using encoded_nonempty [of d]
    by (simp add: b64url_encode_def b64url_decode_def del: json_dumps.simps)
qed

section \<open>Facts about the cursors\<close>

text \<open>
  A cursor the service builds: integers that \<open>json.loads\<close> converts back, a block hash in the model's
  characters and a filter without floats (the filter is made of normalised addresses and topics).
\<close>

definition cursor_ok :: "cursor \<Rightarrow> bool" where
  "cursor_ok c = (is_str (boundary_block_hash c) \<and> json_plain (JObj (cursor_payload c)))"

definition trace_cursor_ok :: "trace_cursor \<Rightarrow> bool" where
  "trace_cursor_ok c = json_plain (JObj (trace_cursor_payload c))"

lemma encode_decode_cursor:
  assumes "cursor_ok c"
  shows "\<exists>s. encode_cursor c = Inr s \<and> decode_cursor s = Inr c"
proof -
  obtain s where s: "b64url_encode (cursor_payload c) = Inr s"
    "b64url_decode s = Inr (cursor_payload c)"
    using b64url_roundtrip_dict [of "cursor_payload c"] assms unfolding cursor_ok_def by blast
  moreover have "decode_cursor s = Inr c"
    using assms by (simp add: decode_cursor_def s(2) cursor_payload_def need_int_def need_dict_def
        cursor_ok_def)
  ultimately show ?thesis by (simp add: encode_cursor_def)
qed

lemma encode_decode_trace_cursor:
  assumes "trace_cursor_ok c"
  shows "\<exists>s. encode_trace_cursor c = Inr s \<and> decode_trace_cursor s = Inr c"
proof -
  obtain s where s: "b64url_encode (trace_cursor_payload c) = Inr s"
    "b64url_decode s = Inr (trace_cursor_payload c)"
    using b64url_roundtrip_dict [of "trace_cursor_payload c"] assms unfolding trace_cursor_ok_def
    by blast
  moreover have "decode_trace_cursor s = Inr c"
    by (simp add: decode_trace_cursor_def s(2) trace_cursor_payload_def need_int_def need_dict_def)
  ultimately show ?thesis by (simp add: encode_trace_cursor_def)
qed

lemma wrong_kind:
  assumes "cursor_ok c" "trace_cursor_ok t"
  shows "\<exists>s. encode_cursor c = Inr s
      \<and> decode_trace_cursor s = Inl (CursorError (''cursor missing field: '' @ repr_str ''after''))"
    and "\<exists>s. encode_trace_cursor t = Inr s \<and> decode_cursor s =
      Inl (CursorError (''cursor missing field: '' @ repr_str ''nextFromBlock''))"
proof -
  obtain s where s: "b64url_encode (cursor_payload c) = Inr s"
    "b64url_decode s = Inr (cursor_payload c)"
    using b64url_roundtrip_dict [of "cursor_payload c"] assms unfolding cursor_ok_def by blast
  then show "\<exists>s. encode_cursor c = Inr s
      \<and> decode_trace_cursor s = Inl (CursorError (''cursor missing field: '' @ repr_str ''after''))"
    by (auto simp: encode_cursor_def decode_trace_cursor_def cursor_payload_def missing_field_def
        intro!: exI [of _ s])
  obtain s where s: "b64url_encode (trace_cursor_payload t) = Inr s"
    "b64url_decode s = Inr (trace_cursor_payload t)"
    using b64url_roundtrip_dict [of "trace_cursor_payload t"] assms unfolding trace_cursor_ok_def
    by blast
  then show "\<exists>s. encode_trace_cursor t = Inr s \<and> decode_cursor s =
      Inl (CursorError (''cursor missing field: '' @ repr_str ''nextFromBlock''))"
    by (auto simp: encode_trace_cursor_def decode_cursor_def trace_cursor_payload_def
        missing_field_def intro!: exI [of _ s])
qed

text \<open>What \<open>json.loads\<close> raises on decoded text.\<close>

definition load_error :: "exn \<Rightarrow> bool" where
  "load_error e = ((\<exists>m. e = JSONDecodeError m) \<or> (\<exists>n. e = ValueError (int_limit_msg n)))"

lemma read_escape_error: "read_escape s = Inl e \<Longrightarrow> load_error e"
  by (auto simp: read_escape_def load_error_def split: list.splits if_splits option.splits)

lemma read_str_error: "read_str s = Inl e \<Longrightarrow> load_error e"
proof (induction s arbitrary: e rule: read_str.induct)
  case 1
  then show ?case by (auto simp: load_error_def)
next
  case (2 c s)
  show ?case
  proof (cases "c = 92")
    case True
    with 2 show ?thesis
      by (cases "read_escape s") (auto simp: res_iffs dest: read_escape_error)
  next
    case False
    with 2 show ?thesis
      by (auto simp: res_iffs load_error_def split: if_splits)
  qed
qed

lemma read_num_error: "read_num s = Inl e \<Longrightarrow> load_error e"
  by (auto simp: read_num_def load_error_def Let_def split: option.splits prod.splits if_splits)

lemma reader_error:
  "(\<forall>s e. read_value f s = Inl e \<longrightarrow> load_error e)
   \<and> (\<forall>acc s e. read_elems f acc s = Inl e \<longrightarrow> load_error e)
   \<and> (\<forall>acc s e. read_members f acc s = Inl e \<longrightarrow> load_error e)"
proof (induction f)
  case 0
  then show ?case by (simp add: load_error_def)
next
  case (Suc f)
  have J: "load_error (JSONDecodeError m)" for m by (simp add: load_error_def)
  have V: "read_value f s = Inl e \<Longrightarrow> load_error e"
    and E: "read_elems f acc s = Inl e \<Longrightarrow> load_error e"
    and M: "read_members f acc2 s = Inl e \<Longrightarrow> load_error e" for s e acc acc2
    using Suc by blast+
  have "load_error e" if "read_value (Suc f) s = Inl e" for s e
    using that J by (auto simp: res_iffs split: list.splits if_splits option.splits
        dest: E M read_num_error read_str_error)
  moreover have "load_error e" if "read_elems (Suc f) acc s = Inl e" for acc s e
    using that J by (auto split: list.splits if_splits sum.splits dest: V E)
  moreover have "load_error e" if "read_members (Suc f) acc s = Inl e" for acc s e
  proof (cases s)
    case (Cons q t)
    show ?thesis
    proof (cases "read_str t")
      case (Inl e')
      with that Cons J show ?thesis by (auto dest: read_str_error split: if_splits)
    next
      case (Inr p)
      with that Cons J show ?thesis
        by (auto split: list.splits if_splits sum.splits prod.splits dest: V M)
    qed
  qed (use that J in auto)
  ultimately show ?case by blast
qed

lemma json_loads_error: "json_loads txt = Inl e \<Longrightarrow> load_error e"
proof -
  have J: "load_error (JSONDecodeError m)" for m by (simp add: load_error_def)
  have V: "read_value f s = Inl e' \<Longrightarrow> load_error e'" for f s e'
    using reader_error by blast
  show "json_loads txt = Inl e \<Longrightarrow> load_error e"
    using J by (auto simp: json_loads_def Let_def res_iffs simp del: read_value.simps
        split: if_splits dest: V)
qed

lemma utf8_decode_error: "utf8_decode bs = Inl e \<Longrightarrow> e = UnicodeDecodeError"
  by (induction bs rule: utf8_decode.induct) (auto simp: res_iffs split: option.splits prod.splits)

lemma bad_base64_error: "catchE (b64url_decode_bytes s) bad_base64 = Inl e \<Longrightarrow> \<exists>m. e = CursorError m"
  by (auto simp: catchE_eq_Inl_iff bad_base64_def b64url_decode_bytes_def dest!: b64_decode_exn)

lemma bad_json_error:
  assumes "catchE (bindE (utf8_decode raw) json_loads) bad_json = Inl e"
  shows "(\<exists>m. e = CursorError m) \<or> (\<exists>n. e = ValueError (int_limit_msg n))"
proof -
  from assms obtain e' where e': "utf8_decode raw = Inl e' \<or> (\<exists>u. json_loads u = Inl e')"
    "bad_json e' = (Inl e :: json res)"
    by (auto simp: catchE_eq_Inl_iff bindE_eq_Inl_iff)
  then have "e' = UnicodeDecodeError \<or> load_error e'"
    using utf8_decode_error json_loads_error by blast
  with e'(2) show ?thesis by (auto simp: load_error_def bad_json_def)
qed

lemma b64url_decode_error:
  assumes "b64url_decode s = Inl e"
  shows "(\<exists>m. e = CursorError m) \<or> (\<exists>n. e = ValueError (int_limit_msg n))"
proof (cases "catchE (b64url_decode_bytes s) bad_base64")
  case (Inl e')
  then show ?thesis
    using assms bad_base64_error [OF Inl] by (auto simp: b64url_decode_def split: if_splits)
next
  case raw: (Inr raw)
  show ?thesis
  proof (cases "catchE (bindE (utf8_decode raw) json_loads) bad_json")
    case (Inl e')
    with raw assms bad_json_error [OF Inl] show ?thesis
      by (auto simp: b64url_decode_def split: if_splits)
  next
    case (Inr v)
    with raw assms show ?thesis
      by (cases v) (auto simp: b64url_decode_def split: if_splits)
  qed
qed

lemma missing_field_error:
  "catchE (mapE (\<lambda>k. jindex k (JObj d)) ks) missing_field = Inl e \<Longrightarrow> \<exists>m. e = CursorError m"
  by (auto simp: catchE_eq_Inl_iff missing_field_def split: if_splits option.splits
      dest!: mapE_Inl_ex)

lemma need_error [dest]:
  "need_int m v = Inl e \<Longrightarrow> e = CursorError m"
  "need_dict m v = Inl e \<Longrightarrow> e = CursorError m"
  by (auto simp: need_int_def need_dict_def split: option.splits json.splits)

lemma decode_cursor_error:
  assumes "decode_cursor s = Inl e"
  shows "(\<exists>m. e = CursorError m) \<or> (\<exists>n. e = ValueError (int_limit_msg n))"
  using assms unfolding decode_cursor_def bindE_eq_Inl_iff
  by (elim disjE exE conjE) (auto simp del: mapE.simps jindex.simps
      dest: b64url_decode_error missing_field_error split: if_splits)

lemma decode_trace_cursor_error:
  assumes "decode_trace_cursor s = Inl e"
  shows "(\<exists>m. e = CursorError m) \<or> (\<exists>n. e = ValueError (int_limit_msg n))"
proof -
  from assms consider "b64url_decode s = Inl e"
    | (f) d where "catchE (mapE (\<lambda>k. jindex k (JObj d))
        [''after'', ''fromBlock'', ''toBlock'', ''filter'']) missing_field = Inl e"
    | (t) vs :: "json list" where "(case (as_int (vs ! 0), as_int (vs ! 1), as_int (vs ! 2)) of
        (Some a, Some f, Some t) \<Rightarrow>
          bindE (need_dict ''filter must be an object'' (vs ! 3)) (\<lambda>flt.
            Inr \<lparr>tc_after = a, tc_from_block = f, tc_to_block = t, tc_filter = flt\<rparr>)
      | _ \<Rightarrow> Inl (CursorError ''after / fromBlock / toBlock must all be ints'')) = Inl e"
    unfolding decode_trace_cursor_def bindE_eq_Inl_iff by blast
  then show ?thesis
  proof cases
    case t
    then show ?thesis by (auto simp: bindE_eq_Inl_iff split: option.splits)
  qed (auto simp del: mapE.simps jindex.simps dest: b64url_decode_error missing_field_error)
qed

section \<open>Properties\<close>

text \<open>
  C14. A cursor survives its trip through the client: encoding a logs or a trace cursor gives a
  string, and decoding that string gives the cursor back, every field included.
\<close>

theorem cursors_roundtrip:
  assumes "cursor_ok c" "trace_cursor_ok t"
  shows "(\<exists>s. encode_cursor c = Inr s \<and> decode_cursor s = Inr c)
    \<and> (\<exists>s. encode_trace_cursor t = Inr s \<and> decode_trace_cursor s = Inr t)"
  using encode_decode_cursor [OF assms(1)] encode_decode_trace_cursor [OF assms(2)] by blast

definition sample_cursor :: cursor where
  "sample_cursor = \<lparr>next_from_block = 17, last_log_index = -1, to_block = 20,
     boundary_block_hash = JStr ''0xab'', cursor_filter = [(''topics'', JList [JNull])]\<rparr>"

definition sample_trace_cursor :: trace_cursor where
  "sample_trace_cursor = \<lparr>tc_after = 100, tc_from_block = 1, tc_to_block = 20,
     tc_filter = [(''x'', JStr ''y'')]\<rparr>"

lemma samples_ok: "cursor_ok sample_cursor" "trace_cursor_ok sample_trace_cursor"
  by code_simp+

theorem cursors_roundtrip_witness:
  "(\<exists>s. encode_cursor sample_cursor = Inr s \<and> decode_cursor s = Inr sample_cursor)
    \<and> (\<exists>s. encode_trace_cursor sample_trace_cursor = Inr s
         \<and> decode_trace_cursor s = Inr sample_trace_cursor)"
  by (rule cursors_roundtrip [OF samples_ok])

text \<open>
  The two kinds never mix although no decoder reads the kind field: a trace cursor handed to
  the logs decoder, and the reverse, is refused for the first field it lacks.
\<close>

lemma cursor_kinds_disjoint:
  assumes "cursor_ok c" "trace_cursor_ok t"
  shows "(\<exists>s. encode_cursor c = Inr s
      \<and> decode_trace_cursor s = Inl (CursorError (''cursor missing field: '' @ repr_str ''after'')))
    \<and> (\<exists>s. encode_trace_cursor t = Inr s \<and> decode_cursor s =
      Inl (CursorError (''cursor missing field: '' @ repr_str ''nextFromBlock'')))"
  using wrong_kind [OF assms] by blast

lemma cursor_kinds_disjoint_witness:
  "\<exists>s. encode_cursor sample_cursor = Inr s
    \<and> decode_trace_cursor s = Inl (CursorError (''cursor missing field: '' @ repr_str ''after''))"
  using cursor_kinds_disjoint [OF samples_ok] by blast

text \<open>
  Whatever string a client sends, a decoder fails with \<open>CursorError\<close> and nothing else, but for
  one case: a number of more than 4300 digits, for which \<open>json.loads\<close> raises a plain \<open>ValueError\<close>
  that no clause of the decoder catches. The base64, UTF-8 and JSON failures, a payload that is not
  an object, a missing field and a field of the wrong type are all \<open>CursorError\<close>.
\<close>

lemma decode_cursor_errors:
  "decode_cursor s = Inl e \<or> decode_trace_cursor s = Inl e \<Longrightarrow>
     (\<exists>m. e = CursorError m) \<or> (\<exists>n. e = ValueError (int_limit_msg n))"
  using decode_cursor_error decode_trace_cursor_error by blast

lemma decode_cursor_errors_witness:
  "decode_cursor [] = Inl (CursorError ''cursor is empty'') \<and> (\<exists>m. ''cursor is empty'' = m)"
proof -
  have d: "decode_cursor [] = Inl (CursorError ''cursor is empty'')"
    by (simp add: decode_cursor_def b64url_decode_def)
  then have "\<exists>m. CursorError ''cursor is empty'' = CursorError m"
    using decode_cursor_errors [of "[]"] by blast
  with d show ?thesis by blast
qed

end
