(* ===== verification/Pagination.thy ===== *)
theory Pagination
  imports Upstream
begin

text \<open>
  \<open>pagination.py\<close>: the block-range chunking behind \<open>/logs\<close>. The loop is the code's, on the state it
  keeps (the items so far, the next block, the chunk size and the skip window); it terminates for
  every upstream, since an accepted chunk moves the block forward and a refused one is halved. The
  facts: on an upstream that answers each request with the logs of the requested range or refuses
  it as too large, the items are exactly the first matching logs, and the next page continues
  after them.
\<close>

section \<open>The loop\<close>

definition default_chunk_size :: int where
  "default_chunk_size = 5000"

definition min_chunk_size :: int where
  "min_chunk_size = 1"

record pagination_result =
  pr_items :: "json list"
  pr_next_from_block :: "int option"
  pr_last_log_index :: int

definition is_too_large :: "exn \<Rightarrow> bool" where
  "is_too_large e =
     (case e of
        UpstreamJsonRpcError code msg data \<Rightarrow>
          code = -32000 \<and> list_ex (\<lambda>p. occurs_in p (lower msg))
            [''query returned more than'', ''exceed maximum block range'']
      | _ \<Rightarrow> False)"

definition page_params :: "dict \<Rightarrow> string \<Rightarrow> string \<Rightarrow> dict" where
  "page_params flt from_hex to_hex =
     filter (\<lambda>(k, v). k \<noteq> ''fromBlock'' \<and> k \<noteq> ''toBlock'') flt
       @ [(''fromBlock'', JStr from_hex), (''toBlock'', JStr to_hex)]"

text \<open>
  The inner loop over a page: the items kept, and the block and the index of the last one when the
  limit was reached on it.
\<close>

fun scan_page :: "int \<Rightarrow> int \<Rightarrow> int \<Rightarrow> json list \<Rightarrow> json list \<Rightarrow> (json list \<times> (int \<times> int) option) res" where
  "scan_page limit skip_block skip_until items [] = Inr (items, None)"
| "scan_page limit skip_block skip_until items (lg # lgs) =
     bindE (bindE (jindex ''blockNumber'' lg) hex_to_int) (\<lambda>block_number.
     bindE (bindE (jindex ''logIndex'' lg) hex_to_int) (\<lambda>log_index.
       if block_number = skip_block \<and> log_index \<le> skip_until
       then scan_page limit skip_block skip_until items lgs
       else if limit \<le> int (length (items @ [lg]))
       then Inr (items @ [lg], Some (block_number, log_index))
       else scan_page limit skip_block skip_until (items @ [lg]) lgs))"

text \<open>
  The request of one iteration, with the conversions of the two block numbers before it (which
  fail on a negative one) and the refusal of a page that is not iterable after it.
\<close>

definition request_page :: "dict \<Rightarrow> int \<Rightarrow> int \<Rightarrow> json io" where
  "request_page flt cur end_b =
     bindI (liftI (decimal_to_hex cur)) (\<lambda>f.
     bindI (liftI (decimal_to_hex end_b)) (\<lambda>t.
       upstream_call ''eth_getLogs'' [JObj (page_params flt f t)]))"

definition next_chunk :: "int \<Rightarrow> int" where
  "next_chunk chunk = min default_chunk_size (max min_chunk_size (chunk * 2))"

definition halved_chunk :: "int \<Rightarrow> int" where
  "halved_chunk chunk = max min_chunk_size (chunk div 2)"

function fetch_loop ::
  "dict \<Rightarrow> int \<Rightarrow> int \<Rightarrow> int \<Rightarrow> json list \<Rightarrow> int \<Rightarrow> int \<Rightarrow> int \<Rightarrow> net \<Rightarrow> world
     \<Rightarrow> pagination_result res \<times> world" where
  "fetch_loop flt to_b limit skip_until items cur chunk skip_block net w =
     (if cur \<le> to_b \<and> int (length items) < limit then
        (let end_b = min (cur + chunk - 1) to_b in
         case request_page flt cur end_b net w of
           (Inl e, w1) \<Rightarrow>
             (if is_too_large e \<and> min_chunk_size < chunk
              then fetch_loop flt to_b limit skip_until items cur (halved_chunk chunk) skip_block net w1
              else (Inl e, w1))
         | (Inr page, w1) \<Rightarrow>
             (case bindE (jiter page) (scan_page limit skip_block skip_until items) of
                Inl e \<Rightarrow> (Inl e, w1)
              | Inr (items', Some (b, i)) \<Rightarrow>
                  (Inr \<lparr>pr_items = items', pr_next_from_block = Some b, pr_last_log_index = i\<rparr>, w1)
              | Inr (items', None) \<Rightarrow>
                  fetch_loop flt to_b limit skip_until items' (end_b + 1) (next_chunk chunk) (-1)
                    net w1))
      else (Inr \<lparr>pr_items = items, pr_next_from_block = None, pr_last_log_index = -1\<rparr>, w))"
  by pat_completeness auto
termination
  by (relation "measures [\<lambda>(flt, to_b, limit, su, items, cur, chunk, sb, net, w). if 1 \<le> chunk then 0 else 1,
       \<lambda>(flt, to_b, limit, su, items, cur, chunk, sb, net, w). nat (to_b - cur + 1),
       \<lambda>(flt, to_b, limit, su, items, cur, chunk, sb, net, w). nat chunk]")
    (auto simp: halved_chunk_def next_chunk_def default_chunk_size_def min_chunk_size_def)

declare fetch_loop.simps [simp del]

definition fetch_logs_paginated :: "dict \<Rightarrow> int \<Rightarrow> int \<Rightarrow> int \<Rightarrow> int \<Rightarrow> pagination_result io" where
  "fetch_logs_paginated flt from_b to_b limit skip_until =
     fetch_loop flt to_b limit skip_until [] from_b default_chunk_size
       (if 0 \<le> skip_until then from_b else -1)"

section \<open>An upstream with a fixed chain\<close>

text \<open>The block number and the index of a log, and the logs the specification speaks of.\<close>

definition blk :: "json \<Rightarrow> int" where
  "blk l = (case bindE (jindex ''blockNumber'' l) hex_to_int of Inr b \<Rightarrow> b | Inl e \<Rightarrow> 0)"

definition idx :: "json \<Rightarrow> int" where
  "idx l = (case bindE (jindex ''logIndex'' l) hex_to_int of Inr i \<Rightarrow> i | Inl e \<Rightarrow> 0)"

definition good_log :: "json \<Rightarrow> bool" where
  "good_log l \<longleftrightarrow> bindE (jindex ''blockNumber'' l) hex_to_int = Inr (blk l)
     \<and> bindE (jindex ''logIndex'' l) hex_to_int = Inr (idx l)"

text \<open>The logs of a chain in order: by block, then by index within the block.\<close>

definition in_order :: "json list \<Rightarrow> bool" where
  "in_order ls \<longleftrightarrow> list_all good_log ls
     \<and> sorted_wrt (\<lambda>x y. blk x < blk y \<or> (blk x = blk y \<and> idx x < idx y)) ls"

definition logs_between :: "int \<Rightarrow> int \<Rightarrow> json list \<Rightarrow> json list" where
  "logs_between a b ls = filter (\<lambda>l. a \<le> blk l \<and> blk l \<le> b) ls"

text \<open>What a page that starts after position (block, index) still has to deliver.\<close>

definition wanted :: "int \<Rightarrow> int \<Rightarrow> int \<Rightarrow> json list \<Rightarrow> json list" where
  "wanted a b su ls = filter (\<lambda>l. a \<le> blk l \<and> blk l \<le> b \<and> \<not> (blk l = a \<and> idx l \<le> su)) ls"

text \<open>
  The contract of \<open>eth_getLogs\<close>: a range is answered with its logs or refused as too large, and a
  single block is never refused.
\<close>

definition serves :: "net \<Rightarrow> dict \<Rightarrow> json list \<Rightarrow> bool" where
  "serves net flt ls \<longleftrightarrow> (\<forall>w a b. 0 \<le> a \<longrightarrow> a \<le> b \<longrightarrow>
     fst (request_page flt a b net w) = Inr (JList (logs_between a b ls))
     \<or> (a < b \<and> (\<exists>e. fst (request_page flt a b net w) = Inl e \<and> is_too_large e)))"

definition page_result :: "int \<Rightarrow> json list \<Rightarrow> json list \<Rightarrow> pagination_result" where
  "page_result limit items M =
     (let n = nat limit - length items in
      if n \<le> length M
      then \<lparr>pr_items = items @ take n M, pr_next_from_block = Some (blk (M ! (n - 1))),
            pr_last_log_index = idx (M ! (n - 1))\<rparr>
      else \<lparr>pr_items = items @ M, pr_next_from_block = None, pr_last_log_index = -1\<rparr>)"

lemma good_log_reads:
  "good_log l \<Longrightarrow> bindE (jindex ''blockNumber'' l) hex_to_int = Inr (blk l)"
  "good_log l \<Longrightarrow> bindE (jindex ''logIndex'' l) hex_to_int = Inr (idx l)"
  by (simp_all add: good_log_def)

lemma good_log_nonneg: "good_log l \<Longrightarrow> 0 \<le> blk l \<and> 0 \<le> idx l"
  by (auto simp: good_log_def res_iffs dest: hex_to_int_nonneg)

lemma scan_page_spec:
  assumes "list_all good_log ls" "int (length items) < limit"
  shows "scan_page limit sb su items ls =
    (let K = filter (\<lambda>l. \<not> (blk l = sb \<and> idx l \<le> su)) ls; n = nat limit - length items in
     if n \<le> length K then Inr (items @ take n K, Some (blk (K ! (n - 1)), idx (K ! (n - 1))))
     else Inr (items @ K, None))"
  using assms
proof (induction ls arbitrary: items)
  case Nil
  then show ?case by (simp add: Let_def)
next
  case (Cons l ls)
  show ?case
  proof (cases "blk l = sb \<and> idx l \<le> su")
    case True
    with Cons show ?thesis by (simp add: good_log_reads)
  next
    case keep: False
    show ?thesis
    proof (cases "limit \<le> int (length (items @ [l]))")
      case True
      with Cons.prems have "nat limit - length items = 1" by simp
      with True keep Cons.prems show ?thesis
        by (auto simp: good_log_reads Let_def take_Suc_conv_app_nth)
    next
      case False
      then have "nat limit - length items = Suc (nat limit - length (items @ [l]))"
        "0 < nat limit - length (items @ [l])" by auto
      then obtain m where m: "nat limit - length (items @ [l]) = Suc m"
        "nat limit - length items = Suc (Suc m)" by (metis gr0_implies_Suc)
      with False keep Cons show ?thesis
        by (auto simp: good_log_reads Let_def)
    qed
  qed
qed

lemma sorted_filter_split:
  assumes "sorted_wrt (\<lambda>x y. blk x < blk y \<or> (blk x = blk y \<and> idx x < idx y)) ls"
  shows "filter P ls = filter (\<lambda>l. P l \<and> blk l \<le> e) ls @ filter (\<lambda>l. P l \<and> e < blk l) ls"
  using assms
proof (induction ls)
  case (Cons l ls)
  show ?case
  proof (cases "blk l \<le> e")
    case True
    with Cons show ?thesis by auto
  next
    case False
    with Cons.prems have "filter (\<lambda>l. P l \<and> blk l \<le> e) ls = []"
      by (auto simp: filter_empty_conv)
    moreover have "filter (\<lambda>l. P l \<and> e < blk l) ls = filter P ls"
      using False Cons.prems by (intro filter_cong) auto
    ultimately show ?thesis using False by auto
  qed
qed simp

lemma page_result_append:
  assumes "int (length (items @ K)) < limit"
  shows "page_result limit (items @ K) M = page_result limit items (K @ M)"
proof -
  obtain m where m: "nat limit - length (items @ K) = Suc m"
    using assms by (metis Suc_diff_Suc nat_int zless_nat_conj of_nat_0_le_iff zless_nat_eq_int_zless)
  then have "nat limit - length items = length K + Suc m" by simp
  with m show ?thesis by (simp add: page_result_def Let_def nth_append)
qed

lemma page_result_within:
  assumes "nat limit - length items \<le> length K" "0 < nat limit - length items"
  shows "page_result limit items (K @ M) = page_result limit items K"
  using assms by (auto simp: page_result_def Let_def nth_append)

definition pending :: "int \<Rightarrow> int \<Rightarrow> int \<Rightarrow> int \<Rightarrow> json list \<Rightarrow> json list" where
  "pending a b sb su ls = filter (\<lambda>l. a \<le> blk l \<and> blk l \<le> b \<and> \<not> (blk l = sb \<and> idx l \<le> su)) ls"

lemma pending_split:
  assumes "in_order ls" "a \<le> e" "e \<le> b" "sb = a \<or> sb = -1" "0 \<le> a"
  shows "pending a b sb su ls =
    filter (\<lambda>l. \<not> (blk l = sb \<and> idx l \<le> su)) (logs_between a e ls) @ pending (e + 1) b (-1) su ls"
proof -
  have s: "sorted_wrt (\<lambda>x y. blk x < blk y \<or> (blk x = blk y \<and> idx x < idx y)) ls"
    and nn: "0 \<le> blk l" if "l \<in> set ls" for l
    using assms(1) that by (auto simp: in_order_def list_all_iff dest: good_log_nonneg)
  have s': "sorted_wrt (\<lambda>x y. blk x < blk y \<or> (blk x = blk y \<and> idx x < idx y)) ls"
    using assms(1) by (simp add: in_order_def)
  show ?thesis
    unfolding pending_def logs_between_def filter_filter
    by (subst sorted_filter_split [OF s', of _ e])
      (intro arg_cong2 [of _ _ _ _ append] filter_cong refl; use assms nn in force)
qed

lemma pending_beyond: "b < a \<Longrightarrow> pending a b sb su ls = []"
  by (auto simp: pending_def filter_empty_conv)

lemma good_between: "in_order ls \<Longrightarrow> list_all good_log (logs_between a b ls)"
  by (auto simp: in_order_def logs_between_def list_all_iff)

lemma fetch_loop_spec:
  assumes "in_order ls" "serves net flt ls" "0 \<le> cur" "1 \<le> chunk"
    and "int (length items) < limit" "sb = cur \<or> sb = -1"
  shows "\<exists>w'. fetch_loop flt to_b limit su items cur chunk sb net w
    = (Inr (page_result limit items (pending cur to_b sb su ls)), w')"
  using assms
proof (induction flt to_b limit su items cur chunk sb net w rule: fetch_loop.induct)
  case (1 flt to_b limit su items cur chunk sb net w)
  show ?case
  proof (cases "cur \<le> to_b")
    case False
    have "0 < nat limit - length items" using "1.prems" by simp
    then have "page_result limit items [] =
        \<lparr>pr_items = items, pr_next_from_block = None, pr_last_log_index = -1\<rparr>"
      by (simp add: page_result_def)
    then show ?thesis
      using False pending_beyond [of to_b cur] by (subst fetch_loop.simps) simp
  next
    case True
    define e where "e = min (cur + chunk - 1) to_b"
    have e: "cur \<le> e" "e \<le> to_b" using True "1.prems" by (auto simp: e_def)
    obtain r w1 where rp: "request_page flt cur e net w = (r, w1)" by fastforce
    have go: "cur \<le> to_b \<and> int (length items) < limit" using True "1.prems" by simp
    from "1.prems"(2) have "r = Inr (JList (logs_between cur e ls))
        \<or> (cur < e \<and> (\<exists>x. r = Inl x \<and> is_too_large x))"
      using "1.prems"(3) e(1) rp unfolding serves_def by (metis fst_conv)
    then show ?thesis
    proof
      assume big: "cur < e \<and> (\<exists>x. r = Inl x \<and> is_too_large x)"
      then obtain x where x: "r = Inl x" "is_too_large x" by blast
      have c: "min_chunk_size < chunk" using big by (simp add: e_def min_chunk_size_def)
      have "\<exists>w'. fetch_loop flt to_b limit su items cur (halved_chunk chunk) sb net w1
          = (Inr (page_result limit items (pending cur to_b sb su ls)), w')"
        using "1.prems" x c rp go
        by (intro "1.IH"(1) [OF go e_def rp [symmetric] x(1)])
          (auto simp: halved_chunk_def min_chunk_size_def)
      then show ?thesis
        using go x c rp by (subst fetch_loop.simps) (simp add: e_def [symmetric])
    next
      assume ok: "r = Inr (JList (logs_between cur e ls))"
      let ?K = "filter (\<lambda>l. \<not> (blk l = sb \<and> idx l \<le> su)) (logs_between cur e ls)"
      let ?M = "pending (e + 1) to_b (-1) su ls"
      have split: "pending cur to_b sb su ls = ?K @ ?M"
        using "1.prems" e by (intro pending_split) auto
      have scan: "bindE (jiter (JList (logs_between cur e ls))) (scan_page limit sb su items) =
          (let n = nat limit - length items in
           if n \<le> length ?K then Inr (items @ take n ?K, Some (blk (?K ! (n - 1)), idx (?K ! (n - 1))))
           else Inr (items @ ?K, None))"
        using scan_page_spec [OF good_between [OF "1.prems"(1)] "1.prems"(5)]
        by (simp add: Let_def)
      show ?thesis
      proof (cases "nat limit - length items \<le> length ?K")
        case True
        have pos: "0 < nat limit - length items" using "1.prems"(5) by simp
        have "page_result limit items (?K @ ?M) = page_result limit items ?K"
          by (rule page_result_within [OF True pos])
        with True show ?thesis
          using go ok rp scan split
          by (subst fetch_loop.simps)
            (simp add: e_def [symmetric] page_result_def Let_def del: filter_filter)
      next
        case False
        then have lt: "int (length (items @ ?K)) < limit" by simp
        have "\<exists>w'. fetch_loop flt to_b limit su (items @ ?K) (e + 1) (next_chunk chunk) (-1) net w1
            = (Inr (page_result limit (items @ ?K) ?M), w')"
          using "1.prems" e lt False scan
          by (intro "1.IH"(2) [OF go e_def rp [symmetric] ok _ refl refl])
            (auto simp: next_chunk_def min_chunk_size_def default_chunk_size_def Let_def)
        then show ?thesis
          using go ok rp scan split False page_result_append [OF lt]
          by (subst fetch_loop.simps) (simp add: e_def [symmetric] Let_def del: filter_filter)
      qed
    qed
  qed
qed

definition pos_lt :: "json \<Rightarrow> json \<Rightarrow> bool" where
  "pos_lt x y \<longleftrightarrow> blk x < blk y \<or> (blk x = blk y \<and> idx x < idx y)"

lemma filter_after_nth:
  assumes "sorted_wrt pos_lt L" "k < length L"
  shows "filter (pos_lt (L ! k)) L = drop (Suc k) L"
proof -
  let ?x = "L ! k"
  have L: "L = take k L @ ?x # drop (Suc k) L" using assms(2) by (rule id_take_nth_drop)
  then have s: "sorted_wrt pos_lt (take k L @ ?x # drop (Suc k) L)" using assms(1) by simp
  have "filter (pos_lt ?x) (take k L) = []"
    using s by (force simp: sorted_wrt_append filter_empty_conv pos_lt_def)
  moreover have "filter (pos_lt ?x) (drop (Suc k) L) = drop (Suc k) L"
    using s by (simp add: sorted_wrt_append)
  moreover have "\<not> pos_lt ?x ?x" by (simp add: pos_lt_def)
  ultimately have "filter (pos_lt ?x) (take k L @ ?x # drop (Suc k) L) = drop (Suc k) L" by simp
  then show ?thesis using L by simp
qed

lemma wanted_after:
  assumes "in_order ls" "k < length (wanted a b su ls)"
  shows "wanted (blk (wanted a b su ls ! k)) b (idx (wanted a b su ls ! k)) ls
    = drop (Suc k) (wanted a b su ls)"
proof -
  let ?L = "wanted a b su ls" and ?x = "wanted a b su ls ! k"
  have "sorted_wrt pos_lt ls"
    using assms(1) unfolding in_order_def pos_lt_def by simp
  then have "sorted_wrt pos_lt ?L" by (simp add: wanted_def sorted_wrt_filter)
  from filter_after_nth [OF this assms(2)] have "filter (pos_lt ?x) ?L = drop (Suc k) ?L" .
  moreover have "?x \<in> set ?L" using assms(2) by simp
  then have "wanted (blk ?x) b (idx ?x) ls = filter (pos_lt ?x) ?L"
    unfolding wanted_def filter_filter by (intro filter_cong refl) (auto simp: pos_lt_def)
  ultimately show ?thesis by simp
qed

lemma pending_wanted:
  assumes "in_order ls"
  shows "pending a b (if 0 \<le> su then a else -1) su ls = wanted a b su ls"
proof -
  have "0 \<le> blk l \<and> 0 \<le> idx l" if "l \<in> set ls" for l
    using assms that by (auto simp: in_order_def list_all_iff dest: good_log_nonneg)
  then show ?thesis unfolding pending_def wanted_def by (intro filter_cong refl) force
qed

lemma fetch_logs_result:
  assumes "in_order ls" "serves net flt ls" "0 \<le> from_b" "1 \<le> limit"
  shows "\<exists>w'. fetch_logs_paginated flt from_b to_b limit su net w
    = (Inr (page_result limit [] (wanted from_b to_b su ls)), w')"
  using fetch_loop_spec [OF assms(1,2,3), of default_chunk_size "[]" limit
      "if 0 \<le> su then from_b else -1" to_b su w] assms(4) pending_wanted [OF assms(1)]
  by (simp add: fetch_logs_paginated_def default_chunk_size_def)

text \<open>The requests of a fetch.\<close>

definition range_request :: "dict \<Rightarrow> int \<Rightarrow> int \<Rightarrow> json \<Rightarrow> bool" where
  "range_request flt from_b to_b b \<longleftrightarrow> (\<exists>i m n. from_b \<le> int m \<and> m \<le> n \<and> int n \<le> to_b \<and> n - m < 5000
     \<and> b = rpc_body i ''eth_getLogs'' [JObj (page_params flt (hex_quantity m) (hex_quantity n))])"

lemma request_page_posts:
  assumes "request_page flt a e net w = (r, w')" "from_b \<le> a" "a \<le> e" "e \<le> to_b" "e - a < 5000"
  shows "\<exists>news. posted w' = posted w @ news \<and> (\<forall>b \<in> set news. range_request flt from_b to_b b)"
proof (cases "0 \<le> a")
  case True
  then obtain m n where mn: "a = int m" "e = int n" using assms(3) by (metis nonneg_int_cases order_trans)
  have "range_request flt from_b to_b
      (rpc_body i ''eth_getLogs'' [JObj (page_params flt (hex_quantity m) (hex_quantity n))])" for i
    unfolding range_request_def using assms mn
    by (intro exI [of _ i] exI [of _ m] exI [of _ n]) auto
  then show ?thesis
    using assms(1) mn
    by (auto simp: request_page_def bindI_def liftI_def upstream_call_def Let_def
        split: sum.splits prod.splits)
next
  case False
  then show ?thesis using assms(1)
    by (auto simp: request_page_def bindI_def liftI_def decimal_to_hex_def)
qed

lemma fetch_loop_posts:
  assumes "fetch_loop flt to_b limit su items cur chunk sb net w = (r, w')" "from_b \<le> cur"
    and "1 \<le> chunk" "chunk \<le> 5000"
  shows "\<exists>news. posted w' = posted w @ news \<and> (\<forall>b \<in> set news. range_request flt from_b to_b b)"
  using assms
proof (induction flt to_b limit su items cur chunk sb net w arbitrary: r w' rule: fetch_loop.induct)
  case (1 flt to_b limit su items cur chunk sb net w)
  show ?case
  proof (cases "cur \<le> to_b \<and> int (length items) < limit")
    case False
    then show ?thesis using "1.prems"(1) by (subst (asm) fetch_loop.simps) auto
  next
    case go: True
    define e where "e = min (cur + chunk - 1) to_b"
    obtain x w1 where rp: "request_page flt cur e net w = (x, w1)" by fastforce
    have e: "cur \<le> e" "e \<le> to_b" "e - cur < 5000" using go "1.prems" by (auto simp: e_def)
    from request_page_posts [OF rp "1.prems"(2) e] obtain n1
      where n1: "posted w1 = posted w @ n1" "\<forall>b \<in> set n1. range_request flt from_b to_b b" by blast
    have later: ?thesis if "\<exists>news. posted w' = posted w1 @ news \<and> (\<forall>b \<in> set news. range_request flt from_b to_b b)"
      using that n1 by fastforce
    show ?thesis
    proof (cases x)
      case (Inl ex)
      show ?thesis
      proof (cases "is_too_large ex \<and> min_chunk_size < chunk")
        case True
        have "fetch_loop flt to_b limit su items cur (halved_chunk chunk) sb net w1 = (r, w')"
          using "1.prems"(1) go rp Inl True
          by (subst (asm) fetch_loop.simps) (simp add: e_def [symmetric])
        then show ?thesis
          using "1.prems" True
          by (intro later "1.IH"(1) [OF go e_def rp [symmetric] Inl True])
            (auto simp: halved_chunk_def min_chunk_size_def)
      next
        case False
        then show ?thesis using "1.prems"(1) go rp Inl n1
          by (subst (asm) fetch_loop.simps) (auto simp: e_def [symmetric])
      qed
    next
      case (Inr page)
      show ?thesis
      proof (cases "\<exists>items'. bindE (jiter page) (scan_page limit sb su items) = Inr (items', None)")
        case True
        then obtain items' where i: "bindE (jiter page) (scan_page limit sb su items) = Inr (items', None)" by blast
        have "fetch_loop flt to_b limit su items' (e + 1) (next_chunk chunk) (-1) net w1 = (r, w')"
          using "1.prems"(1) go rp Inr i
          by (subst (asm) fetch_loop.simps) (simp add: e_def [symmetric])
        then show ?thesis
          using "1.prems" e
          by (intro later "1.IH"(2) [OF go e_def rp [symmetric] Inr i refl refl])
            (auto simp: next_chunk_def min_chunk_size_def default_chunk_size_def)
      next
        case False
        then show ?thesis using "1.prems"(1) go rp Inr n1
          by (subst (asm) fetch_loop.simps)
            (auto simp: e_def [symmetric] split: sum.splits option.splits)
      qed
    qed
  qed
qed

section \<open>A concrete upstream\<close>

text \<open>An upstream over fixed logs that refuses every range of more than \<open>wide\<close> + 1 blocks.\<close>

definition request_range :: "json \<Rightarrow> (int \<times> int) res" where
  "request_range b =
     bindE (jindex ''params'' b) (\<lambda>ps.
     bindE (jiter ps) (\<lambda>xs.
     bindE (bindE (jindex ''fromBlock'' (hd xs)) hex_to_int) (\<lambda>f.
     bindE (bindE (jindex ''toBlock'' (hd xs)) hex_to_int) (\<lambda>t. Inr (f, t)))))"

definition too_large_reply :: http_outcome where
  "too_large_reply = HttpReply 200 (Inr (JObj [(''error'', JObj [(''code'', JInt (-32000)),
     (''message'', JStr ''query returned more than 10000 results'')])]))"

definition log_net :: "int \<Rightarrow> json list \<Rightarrow> net" where
  "log_net wide ls = \<lparr>reply = \<lambda>h.
     (case request_range (last h) of
        Inr (a, b) \<Rightarrow> (if wide < b - a then too_large_reply
                    else HttpReply 200 (Inr (JObj [(''result'', JList (logs_between a b ls))])))
      | Inl e \<Rightarrow> HttpClientError ''bad request''), ends = \<lambda>h i. i\<rparr>"

lemma page_params_range:
  "request_range (rpc_body i m [JObj (page_params flt (hex_quantity a) (hex_quantity b))])
    = Inr (int a, int b)"
proof -
  have "map_of (filter (\<lambda>(k, v). k \<noteq> ''fromBlock'' \<and> k \<noteq> ''toBlock'') flt) k = None"
    if "k = ''fromBlock'' \<or> k = ''toBlock''" for k
    using that by (auto simp: map_of_eq_None_iff)
  then show ?thesis
    by (simp add: request_range_def rpc_body_def page_params_def map_add_def)
qed

lemma log_net_serves:
  assumes "0 \<le> wide" "dumpable (JObj flt)"
  shows "serves (log_net wide ls) flt ls"
  unfolding serves_def
proof (intro allI impI)
  fix w and a b :: int
  assume "0 \<le> a" "a \<le> b"
  then obtain m n where mn: "a = int m" "b = int n" by (metis nonneg_int_cases order_trans)
  let ?ps = "[JObj (page_params flt (hex_quantity m) (hex_quantity n))]"
  have d: "list_all dumpable ?ps"
    using assms(2) by (auto simp: page_params_def list_all_iff)
  have "fst (request_page flt a b (log_net wide ls) w) =
      snd (read_outcome (reply (log_net wide ls) (posted w @ [rpc_body (next_id w) ''eth_getLogs'' ?ps])))"
    using d by (simp add: request_page_def bindI_def liftI_def mn upstream_call_dumpable)
  also have "\<dots> = (if wide < b - a
      then Inl (UpstreamJsonRpcError (-32000) ''query returned more than 10000 results'' JNull)
      else Inr (JList (logs_between a b ls)))"
    by (simp add: log_net_def page_params_range mn too_large_reply_def read_outcome_def
        read_payload_def dget_or_def int_of_json_def py_str_def)
  finally have r: "fst (request_page flt a b (log_net wide ls) w) = (if wide < b - a
      then Inl (UpstreamJsonRpcError (-32000) ''query returned more than 10000 results'' JNull)
      else Inr (JList (logs_between a b ls)))" .
  have "is_too_large (UpstreamJsonRpcError (-32000) ''query returned more than 10000 results'' JNull)"
    by code_simp
  then show "fst (request_page flt a b (log_net wide ls) w) = Inr (JList (logs_between a b ls)) \<or>
      (a < b \<and> (\<exists>e. fst (request_page flt a b (log_net wide ls) w) = Inl e \<and> is_too_large e))"
    using r assms(1) by auto
qed

definition sample_log :: "nat \<Rightarrow> nat \<Rightarrow> json" where
  "sample_log b i = JObj [(''blockNumber'', JStr (hex_quantity b)), (''logIndex'', JStr (hex_quantity i))]"

definition sample_chain :: "json list" where
  "sample_chain = [sample_log 3 0, sample_log 3 1, sample_log 5 0, sample_log 9000 0]"

lemma sample_log_facts [simp]:
  "good_log (sample_log b i)" "blk (sample_log b i) = int b" "idx (sample_log b i) = int i"
  by (simp_all add: good_log_def blk_def idx_def sample_log_def)

lemma sample_chain_in_order: "in_order sample_chain"
  by (simp add: in_order_def sample_chain_def)

lemma sample_serves: "serves (log_net 2 sample_chain) [] sample_chain"
  by (rule log_net_serves) simp_all

lemma fetch_logs_spec:
  assumes "in_order ls" "serves net flt ls" "0 \<le> from_b" "1 \<le> limit"
  shows "\<exists>r w'. fetch_logs_paginated flt from_b to_b limit su net w = (Inr r, w')
    \<and> pr_items r = take (nat limit) (wanted from_b to_b su ls)
    \<and> (pr_next_from_block r = None \<longleftrightarrow> int (length (wanted from_b to_b su ls)) < limit)
    \<and> (pr_next_from_block r \<noteq> None \<longrightarrow> pr_next_from_block r = Some (blk (last (pr_items r)))
         \<and> pr_last_log_index r = idx (last (pr_items r)))"
proof -
  let ?L = "wanted from_b to_b su ls"
  obtain w' where "fetch_logs_paginated flt from_b to_b limit su net w
      = (Inr (page_result limit [] ?L), w')"
    using fetch_logs_result [OF assms] by blast
  moreover have "last (take (nat limit) ?L) = ?L ! (nat limit - 1)" if "nat limit \<le> length ?L"
    using that assms(4) by (subst last_conv_nth) (auto simp: min_def)
  ultimately show ?thesis
    using assms(4) by (auto simp: page_result_def Let_def)
qed

lemma fetch_logs_continue:
  assumes "in_order ls" "serves net flt ls" "0 \<le> from_b" "1 \<le> limit" "1 \<le> limit2"
    and "fetch_logs_paginated flt from_b to_b limit su net w = (Inr r, w')"
    and "pr_next_from_block r = Some b"
  shows "(\<exists>l \<in> set ls. b = blk l \<and> pr_last_log_index r = idx l)
    \<and> (\<exists>r2 w2. fetch_logs_paginated flt b to_b limit2 (pr_last_log_index r) net v = (Inr r2, w2)
      \<and> pr_items r @ pr_items r2 = take (nat limit + nat limit2) (wanted from_b to_b su ls))"
proof -
  let ?L = "wanted from_b to_b su ls" and ?k = "nat limit - 1"
  have r: "r = page_result limit [] ?L"
    using fetch_logs_result [OF assms(1-4), of to_b su w] assms(6) by auto
  then have k: "?k < length ?L" "Suc ?k = nat limit" and b: "b = blk (?L ! ?k)"
    "pr_last_log_index r = idx (?L ! ?k)" and items: "pr_items r = take (nat limit) ?L"
    using assms(4,7) by (auto simp: page_result_def Let_def split: if_splits)
  have mem: "?L ! ?k \<in> set ls" using nth_mem [OF k(1)] by (simp add: wanted_def)
  then have "0 \<le> b" using assms(1) b(1) by (auto simp: in_order_def list_all_iff dest: good_log_nonneg)
  from fetch_logs_spec [OF assms(1,2) this assms(5), of to_b "pr_last_log_index r" v]
  obtain r2 w2 where r2: "fetch_logs_paginated flt b to_b limit2 (pr_last_log_index r) net v = (Inr r2, w2)"
    "pr_items r2 = take (nat limit2) (wanted b to_b (pr_last_log_index r) ls)" by blast
  have "wanted b to_b (pr_last_log_index r) ls = drop (nat limit) ?L"
    using wanted_after [OF assms(1) k(1)] b k(2) by simp
  with r2 items have "pr_items r @ pr_items r2 = take (nat limit + nat limit2) ?L"
    by (simp add: take_add)
  with r2(1) mem b show ?thesis by blast
qed

section \<open>Properties\<close>

text \<open>
  C6. Pagination is complete and exact. On an upstream that serves a fixed chain and may refuse any
  range of more than one block, a fetch returns (it does not loop, and no chunking shows): its
  items are the first logs of the range after the resume position, in order and without a gap,
  up to the limit; it says that the range is exhausted exactly when fewer than the limit were
  left, and otherwise names the position of the last item.
\<close>

theorem fetch_logs_complete:
  assumes "in_order ls" "serves net flt ls" "0 \<le> from_b" "1 \<le> limit"
  shows "\<exists>r w'. fetch_logs_paginated flt from_b to_b limit su net w = (Inr r, w')
    \<and> pr_items r = take (nat limit) (wanted from_b to_b su ls)
    \<and> (pr_next_from_block r = None \<longleftrightarrow> int (length (wanted from_b to_b su ls)) < limit)
    \<and> (pr_next_from_block r \<noteq> None \<longrightarrow> pr_next_from_block r = Some (blk (last (pr_items r)))
         \<and> pr_last_log_index r = idx (last (pr_items r)))"
  by (rule fetch_logs_spec [OF assms])

theorem fetch_logs_complete_witness:
  "\<exists>r w'. fetch_logs_paginated [] 0 100 2 (-1) (log_net 2 sample_chain) fresh = (Inr r, w')
    \<and> pr_items r = [sample_log 3 0, sample_log 3 1]"
proof -
  have "wanted 0 100 (-1) sample_chain = [sample_log 3 0, sample_log 3 1, sample_log 5 0]"
    by (simp add: wanted_def sample_chain_def)
  then show ?thesis
    using fetch_logs_complete [OF sample_chain_in_order sample_serves, of 0 2 100 "-1" fresh]
    by (auto simp: numeral_2_eq_2)
qed

text \<open>
  Resuming loses nothing and repeats nothing: when a page stops at a position, a second fetch
  from that position, with the same filter and upper bound, delivers exactly the logs that follow,
  so the two pages together are what one page with both limits would hold.
\<close>

lemma fetch_logs_resume:
  assumes "in_order ls" "serves net flt ls" "0 \<le> from_b" "1 \<le> limit" "1 \<le> limit2"
    and "fetch_logs_paginated flt from_b to_b limit su net w = (Inr r, w')"
    and "pr_next_from_block r = Some b"
  shows "\<exists>r2 w2. fetch_logs_paginated flt b to_b limit2 (pr_last_log_index r) net w' = (Inr r2, w2)
    \<and> pr_items r @ pr_items r2 = take (nat limit + nat limit2) (wanted from_b to_b su ls)"
  using fetch_logs_continue [OF assms] by blast

lemma fetch_logs_resume_witness:
  "\<exists>r w' r2 w2. fetch_logs_paginated [] 0 100 1 (-1) (log_net 2 sample_chain) fresh = (Inr r, w')
    \<and> fetch_logs_paginated [] 3 100 5 0 (log_net 2 sample_chain) w' = (Inr r2, w2)
    \<and> pr_items r @ pr_items r2 = [sample_log 3 0, sample_log 3 1, sample_log 5 0]"
proof -
  have L: "wanted 0 100 (-1) sample_chain = [sample_log 3 0, sample_log 3 1, sample_log 5 0]"
    by (simp add: wanted_def sample_chain_def)
  obtain w' where p: "fetch_logs_paginated [] 0 100 1 (-1) (log_net 2 sample_chain) fresh
      = (Inr \<lparr>pr_items = [sample_log 3 0], pr_next_from_block = Some 3, pr_last_log_index = 0\<rparr>, w')"
    using fetch_logs_result [OF sample_chain_in_order sample_serves, of 0 1 100 "-1" fresh]
    by (auto simp: L page_result_def)
  from fetch_logs_resume [OF sample_chain_in_order sample_serves _ _ _ p, of 5 3] show ?thesis
    using p by (fastforce simp: L)
qed

text \<open>
  C36. Every request of a fetch is an \<open>eth_getLogs\<close> for a range that lies within the requested one
  and spans at most 5000 blocks, whatever the upstream answers and whatever else fails.
\<close>

theorem fetch_logs_requests_bounded:
  assumes "fetch_logs_paginated flt from_b to_b limit su net w = (r, w')"
  shows "\<exists>news. posted w' = posted w @ news \<and> (\<forall>b \<in> set news. \<exists>i m n. from_b \<le> int m \<and> m \<le> n
    \<and> int n \<le> to_b \<and> n - m < 5000
    \<and> b = rpc_body i ''eth_getLogs'' [JObj (page_params flt (hex_quantity m) (hex_quantity n))])"
  using fetch_loop_posts [OF assms [unfolded fetch_logs_paginated_def], of from_b]
  by (simp add: default_chunk_size_def range_request_def)

theorem fetch_logs_requests_bounded_witness:
  "\<exists>news. posted (snd (fetch_logs_paginated [] 0 100 2 (-1) (log_net 2 sample_chain) fresh)) = news
    \<and> (\<forall>b \<in> set news. \<exists>i m n. m \<le> n \<and> int n \<le> 100 \<and> n - m < 5000
      \<and> b = rpc_body i ''eth_getLogs'' [JObj (page_params [] (hex_quantity m) (hex_quantity n))])"
proof -
  obtain r w' where c: "fetch_logs_paginated [] 0 100 2 (-1) (log_net 2 sample_chain) fresh = (r, w')"
    by fastforce
  show ?thesis using fetch_logs_requests_bounded [OF c] c by (fastforce simp: fresh_def)
qed

end
