(* ===== verification/Requests.thy ===== *)
theory Requests
  imports Shapes Cursor Pagination
begin

text \<open>
  What the handlers see of a request, and \<open>handlers/transactions.py\<close>: the GET endpoints, the
  submission of a raw transaction and the two tracing endpoints. A handler is a computation that
  returns a response; early returns are its branches in the code's order, and exceptions are left
  to the middleware. The facts: which responses a handler can give, and that a refused request
  costs no upstream call.
\<close>

section \<open>Requests\<close>

record request =
  req_method :: string
  req_path :: string
  match_info :: "(string \<times> string) list"
  query :: "(string \<times> string) list"
  req_headers :: "(string \<times> string) list"
  req_body :: "nat list"

text \<open>\<open>request.query.get(k)\<close> is the first value; header names are matched in any letter case.\<close>

definition query_get :: "request \<Rightarrow> string \<Rightarrow> string option" where
  "query_get req k = dget k (query req)"

definition header_get :: "request \<Rightarrow> string \<Rightarrow> string option" where
  "header_get req k = dget (lower k) (map (\<lambda>(h, v). (lower h, v)) (req_headers req))"

definition match_get :: "request \<Rightarrow> string \<Rightarrow> string res" where
  "match_get req k = (case dget k (match_info req) of Some v \<Rightarrow> Inr v | None \<Rightarrow> Inl (KeyError k))"

text \<open>
  \<open>await request.json()\<close> under \<open>except (ValueError, TypeError)\<close>: the body is decoded as UTF-8 and
  parsed, and every failure of the two is a \<open>ValueError\<close>.
\<close>

definition request_json :: "request \<Rightarrow> json res" where
  "request_json req = bindE (utf8_decode (req_body req)) json_loads"

definition caught_body :: "exn \<Rightarrow> bool" where
  "caught_body e = (is_value_error e \<or> e = TypeError)"

text \<open>The rest of a handler runs on the body, or the request is refused.\<close>

definition with_json :: "request \<Rightarrow> (json \<Rightarrow> response io) \<Rightarrow> response io" where
  "with_json req k =
     (case request_json req of
        Inr v \<Rightarrow> k v
      | Inl e \<Rightarrow>
          (if caught_body e then retI (bad_request (req_path req) ''request body must be valid JSON'')
           else raiseI e))"

definition reply_json :: "json res \<Rightarrow> response io" where
  "reply_json r = liftI (bindE r json_response)"

text \<open>A step that may raise one of the exceptions a handler turns into a 400.\<close>

definition or_bad :: "(exn \<Rightarrow> bool) \<Rightarrow> request \<Rightarrow> 'a res \<Rightarrow> ('a \<Rightarrow> response io) \<Rightarrow> response io" where
  "or_bad caught req r k =
     (case r of
        Inr a \<Rightarrow> k a
      | Inl e \<Rightarrow> (if caught e then retI (bad_request (req_path req) (exn_str e)) else raiseI e))"

fun is_block_id_error :: "exn \<Rightarrow> bool" where
  "is_block_id_error (BlockIdError _) = True"
| "is_block_id_error _ = False"

fun is_encoding_error :: "exn \<Rightarrow> bool" where
  "is_encoding_error (EncodingError _) = True"
| "is_encoding_error _ = False"

fun is_cursor_error :: "exn \<Rightarrow> bool" where
  "is_cursor_error (CursorError _) = True"
| "is_cursor_error _ = False"

text \<open>\<open>bytes.fromhex\<close>: white space may stand between the bytes; anything else raises \<open>ValueError\<close>.\<close>

fun from_hex :: "string \<Rightarrow> nat list res" where
  "from_hex [] = Inr []"
| "from_hex (a # s) =
     (if cp a \<in> {9, 10, 11, 12, 13, 32} then from_hex s
      else (case s of
              b # t \<Rightarrow>
                (if is_hex_digit a \<and> is_hex_digit b
                 then mapR ((#) (16 * digit_val a + digit_val b)) (from_hex t)
                 else Inl (ValueError ''non-hexadecimal number found in fromhex() arg''))
            | [] \<Rightarrow> Inl (ValueError ''non-hexadecimal number found in fromhex() arg'')))"

definition rlp_response :: "json \<Rightarrow> response res" where
  "rlp_response v =
     (case v of
        JStr s \<Rightarrow>
          bindE (from_hex (if startswith s ''0x'' then drop 2 s else s)) (\<lambda>bs.
            Inr \<lparr>resp_status = 200, resp_type = content_type_rlp, resp_body = BytesBody bs,
                 resp_headers = []\<rparr>)
      | JUni u \<Rightarrow> Inl (ValueError ''non-hexadecimal number found in fromhex() arg'')
      | _ \<Rightarrow> Inl AttributeError)"

definition supported_types :: "string list" where
  "supported_types = [content_type_json, content_type_rlp]"

definition not_acceptable :: "string \<Rightarrow> response" where
  "not_acceptable path =
     simple_problem 406 ''not-acceptable'' ''Not acceptable''
       (''supported representations: '' @ join '', '' supported_types) path"

section \<open>Transactions\<close>

definition validate_tx_hash :: "string \<Rightarrow> string option" where
  "validate_tx_hash raw = (if re_hex_len 64 raw then Some (lower raw) else None)"

definition bad_hash :: "string \<Rightarrow> response" where
  "bad_hash path = bad_request path ''transaction hash must be 0x-prefixed 32-byte hex''"

definition with_tx_hash :: "request \<Rightarrow> (string \<Rightarrow> response io) \<Rightarrow> response io" where
  "with_tx_hash req k =
     bindI (liftI (match_get req ''hash'')) (\<lambda>raw.
       (case validate_tx_hash raw of
          None \<Rightarrow> retI (bad_hash (req_path req))
        | Some h \<Rightarrow> k h))"

definition get_transaction :: "request \<Rightarrow> response io" where
  "get_transaction req =
     with_tx_hash req (\<lambda>h.
       (case select_representation (header_get req ''Accept'') supported_types of
          None \<Rightarrow> retI (not_acceptable (req_path req))
        | Some chosen \<Rightarrow>
            (if chosen = content_type_rlp then
               bindI (upstream_call ''debug_getRawTransaction'' [JStr h]) (\<lambda>raw.
                 if raw = JNull \<or> raw = JStr ''0x''
                 then retI (not_found (req_path req) (''transaction '' @ h @ '' not found''))
                 else liftI (rlp_response raw))
             else
               bindI (upstream_call ''eth_getTransactionByHash'' [JStr h]) (\<lambda>rpc.
                 if rpc = JNull
                 then retI (not_found (req_path req) (''transaction '' @ h @ '' not found''))
                 else reply_json (transaction_from_rpc rpc)))))"

definition get_receipt :: "request \<Rightarrow> response io" where
  "get_receipt req =
     with_tx_hash req (\<lambda>h.
       bindI (upstream_call ''eth_getTransactionReceipt'' [JStr h]) (\<lambda>rpc.
         if rpc = JNull then retI (not_found (req_path req) (''receipt for '' @ h @ '' not found''))
         else reply_json (receipt_from_rpc rpc)))"

definition get_tx_trace :: "request \<Rightarrow> response io" where
  "get_tx_trace req =
     with_tx_hash req (\<lambda>h.
       bindI (upstream_call ''trace_transaction'' [JStr h]) (\<lambda>rpc.
         if rpc = JNull then retI (not_found (req_path req) (''trace for '' @ h @ '' not found''))
         else reply_json (list_field trace_from_rpc rpc)))"

definition unsupported_media_type :: "string \<Rightarrow> response" where
  "unsupported_media_type path =
     simple_problem 415 ''unsupported-media-type'' ''Unsupported media type''
       ''POST /transactions accepts application/json or application/vnd.ethereum.rlp'' path"

text \<open>The media type without parameters; the raw transaction of the body, or the refusal.\<close>

definition media_type :: "request \<Rightarrow> string" where
  "media_type req =
     lower (strip (fst (partition_on (CHR '';'')
       (case header_get req ''Content-Type'' of None \<Rightarrow> [] | Some v \<Rightarrow> v))))"

definition raw_tx_field :: "request \<Rightarrow> json \<Rightarrow> response + string" where
  "raw_tx_field req bod =
     (case bod of
        JObj d \<Rightarrow>
          (case dget ''raw'' d of
             None \<Rightarrow> Inl (bad_request (req_path req) ''field `raw` is required'')
           | Some (JStr raw) \<Rightarrow>
               (if re_hex_bytes1 raw then Inr (lower raw)
                else Inl (bad_request (req_path req) ''field `raw` must be 0x-prefixed hex bytes''))
           | Some _ \<Rightarrow>
               Inl (bad_request (req_path req) ''field `raw` must be 0x-prefixed hex bytes''))
      | _ \<Rightarrow> Inl (bad_request (req_path req) ''field `raw` is required''))"

definition read_raw_tx :: "request \<Rightarrow> (response + string) res" where
  "read_raw_tx req =
     (let ct = media_type req in
      if ct = content_type_rlp then
        (if req_body req = [] then Inr (Inl (bad_request (req_path req) ''RLP body is empty''))
         else Inr (Inr (''0x'' @ bytes_to_hex (req_body req))))
      else if ct = ''application/json'' \<or> ct = [] then
        (case request_json req of
           Inr bod \<Rightarrow> Inr (raw_tx_field req bod)
         | Inl e \<Rightarrow>
             (if caught_body e
              then Inr (Inl (bad_request (req_path req) ''request body must be valid JSON''))
              else Inl e))
      else Inr (Inl (unsupported_media_type (req_path req))))"

definition submitted :: "request \<Rightarrow> json \<Rightarrow> response res" where
  "submitted req tx_hash =
     (if is_str tx_hash then
        bindE (jlower tx_hash) (\<lambda>h.
          json_reply 202 [(''Location'', ''/transactions/'' @ py_str h)] (JObj [(''hash'', h)]))
      else Inr (upstream_problem (req_path req) ''eth_sendRawTransaction returned non-string''))"

definition post_transaction :: "request \<Rightarrow> response io" where
  "post_transaction req =
     bindI (liftI (read_raw_tx req)) (\<lambda>raw_or_err.
       (case raw_or_err of
          Inl resp \<Rightarrow> retI resp
        | Inr raw \<Rightarrow>
            bindI (upstream_call ''eth_sendRawTransaction'' [JStr raw]) (\<lambda>h. liftI (submitted req h))))"

text \<open>
  The tracers of a body: a non-empty array of the three known names. An entry that is a list or an
  object cannot be looked up in a set.
\<close>

definition known_tracers :: "string list" where
  "known_tracers = [''trace'', ''vmTrace'', ''stateDiff'']"

definition hashable :: "json \<Rightarrow> bool" where
  "hashable v = (\<not> is_list v \<and> \<not> is_dict v)"

definition known_tracer :: "json \<Rightarrow> bool res" where
  "known_tracer t = (if hashable t then Inr (\<exists>s \<in> set known_tracers. t = JStr s) else Inl TypeError)"

fun first_unknown :: "json list \<Rightarrow> json option res" where
  "first_unknown [] = Inr None"
| "first_unknown (t # ts) =
     bindE (known_tracer t) (\<lambda>k. if k then first_unknown ts else Inr (Some t))"

definition with_tracers :: "request \<Rightarrow> json \<Rightarrow> (json list \<Rightarrow> response io) \<Rightarrow> response io" where
  "with_tracers req bod k =
     (case (case bod of JObj d \<Rightarrow> dget_or ''tracers'' JNull d | _ \<Rightarrow> JNull) of
        JList (t # ts) \<Rightarrow>
          bindI (liftI (first_unknown (t # ts))) (\<lambda>u.
            (case u of
               Some x \<Rightarrow> retI (bad_request (req_path req) (''unknown tracer '' @ py_repr x))
             | None \<Rightarrow> k (t # ts)))
      | _ \<Rightarrow> retI (bad_request (req_path req) ''field `tracers` (non-empty array) is required''))"

definition post_trace_replay :: "request \<Rightarrow> response io" where
  "post_trace_replay req =
     with_tx_hash req (\<lambda>h.
     with_json req (\<lambda>bod.
     with_tracers req bod (\<lambda>ts.
       bindI (upstream_call ''trace_replayTransaction'' [JStr h, JList ts]) (\<lambda>r. reply_json (Inr r)))))"

definition with_object :: "request \<Rightarrow> json \<Rightarrow> (dict \<Rightarrow> response io) \<Rightarrow> response io" where
  "with_object req bod k =
     (case bod of
        JObj d \<Rightarrow> k d
      | _ \<Rightarrow> retI (bad_request (req_path req) ''request body must be a JSON object''))"

definition post_debug_trace :: "request \<Rightarrow> response io" where
  "post_debug_trace req =
     with_tx_hash req (\<lambda>h.
     with_json req (\<lambda>bod.
     with_object req bod (\<lambda>d.
       bindI (upstream_call ''debug_traceTransaction'' [JStr h, JObj d]) (\<lambda>r. reply_json (Inr r)))))"

section \<open>Every handler keeps the history of requests\<close>

named_theorems history_rules "computations that only append to the history"

lemmas history_basic [history_rules] =
  history.keeps_ret history.keeps_raise history.keeps_lift history.keeps_call history.keeps_bind
  history.keeps_catch

lemma history_if [history_rules]:
  "(b \<Longrightarrow> keeps history_step m) \<Longrightarrow> (\<not> b \<Longrightarrow> keeps history_step n) \<Longrightarrow>
   keeps history_step (if b then m else n)"
  by simp

lemma history_option [history_rules]:
  "(x = None \<Longrightarrow> keeps history_step m) \<Longrightarrow> (\<And>a. x = Some a \<Longrightarrow> keeps history_step (f a)) \<Longrightarrow>
   keeps history_step (case x of None \<Rightarrow> m | Some a \<Rightarrow> f a)"
  by (cases x) simp_all

lemma history_sum [history_rules]:
  "(\<And>a. x = Inl a \<Longrightarrow> keeps history_step (f a)) \<Longrightarrow> (\<And>b. x = Inr b \<Longrightarrow> keeps history_step (g b)) \<Longrightarrow>
   keeps history_step (case x of Inl a \<Rightarrow> f a | Inr b \<Rightarrow> g b)"
  by (cases x) simp_all

lemma history_json [history_rules]:
  "(\<And>b. keeps history_step (f1 b)) \<Longrightarrow> (\<And>i. keeps history_step (f2 i)) \<Longrightarrow>
   (\<And>s. keeps history_step (f3 s)) \<Longrightarrow> (\<And>s. keeps history_step (f4 s)) \<Longrightarrow>
   (\<And>u. keeps history_step (f5 u)) \<Longrightarrow> (\<And>xs. keeps history_step (f6 xs)) \<Longrightarrow>
   (\<And>d. keeps history_step (f7 d)) \<Longrightarrow> keeps history_step n \<Longrightarrow>
   keeps history_step (case v of JNull \<Rightarrow> n | JBool b \<Rightarrow> f1 b | JInt i \<Rightarrow> f2 i | JFloat s \<Rightarrow> f3 s
     | JStr s \<Rightarrow> f4 s | JUni u \<Rightarrow> f5 u | JList xs \<Rightarrow> f6 xs | JObj d \<Rightarrow> f7 d)"
  by (cases v) simp_all

lemma history_list [history_rules]:
  "keeps history_step m \<Longrightarrow> (\<And>x xs. keeps history_step (f x xs)) \<Longrightarrow>
   keeps history_step (case l of [] \<Rightarrow> m | x # xs \<Rightarrow> f x xs)"
  by (cases l) simp_all

lemma history_with_json [history_rules]:
  "(\<And>v. keeps history_step (k v)) \<Longrightarrow> keeps history_step (with_json req k)"
  unfolding with_json_def by (intro history_rules)

lemma history_or_bad [history_rules]:
  "(\<And>v. keeps history_step (k v)) \<Longrightarrow> keeps history_step (or_bad c req r k)"
  unfolding or_bad_def by (intro history_rules)

lemma history_reply_json [history_rules]: "keeps history_step (reply_json r)"
  unfolding reply_json_def by (intro history_rules)

lemma history_with_tx_hash [history_rules]:
  "(\<And>v. keeps history_step (k v)) \<Longrightarrow> keeps history_step (with_tx_hash req k)"
  unfolding with_tx_hash_def by (intro history_rules)

lemma history_with_tracers [history_rules]:
  "(\<And>v. keeps history_step (k v)) \<Longrightarrow> keeps history_step (with_tracers req bod k)"
  unfolding with_tracers_def by (intro history_rules)

lemma history_with_object [history_rules]:
  "(\<And>v. keeps history_step (k v)) \<Longrightarrow> keeps history_step (with_object req bod k)"
  unfolding with_object_def by (intro history_rules)

lemma transactions_history [history_rules]:
  "keeps history_step (get_transaction req)" "keeps history_step (get_receipt req)"
  "keeps history_step (get_tx_trace req)" "keeps history_step (post_transaction req)"
  "keeps history_step (post_trace_replay req)" "keeps history_step (post_debug_trace req)"
  unfolding get_transaction_def get_receipt_def get_tx_trace_def post_transaction_def
    post_trace_replay_def post_debug_trace_def
  by (intro history_rules)+

section \<open>Facts\<close>

lemmas io_defs = retI_def raiseI_def liftI_def bindI_def catchI_def

lemma request_json_exn: "request_json req = Inl e \<Longrightarrow> caught_body e"
proof -
  assume "request_json req = Inl e"
  then have "e = UnicodeDecodeError \<or> load_error e"
    unfolding request_json_def bindE_eq_Inl_iff using utf8_decode_error json_loads_error by blast
  then show ?thesis by (auto simp: load_error_def caught_body_def)
qed

lemma hex2_lower: "lower (hex2 b) = hex2 b"
  by (simp add: hex2_def)

lemma bytes_to_hex_lower: "lower (bytes_to_hex bs) = bytes_to_hex bs"
  by (induction bs) (simp_all add: bytes_to_hex_def hex2_lower)

lemma bytes_to_hex_nonempty: "bytes_to_hex bs = [] \<longleftrightarrow> bs = []"
  by (cases bs) (simp_all add: bytes_to_hex_def hex2_def)

text \<open>A raw transaction the proxy forwards: lower-case hexadecimal bytes, at least one.\<close>

definition raw_ok :: "string \<Rightarrow> bool" where
  "raw_ok raw \<longleftrightarrow> re_hex_bytes1 raw \<and> lower raw = raw"

lemma raw_ok_bytes: "bs \<noteq> [] \<Longrightarrow> raw_ok (''0x'' @ bytes_to_hex bs)"
  using bytes_to_hex_digits [of bs] bytes_to_hex_lower [of bs]
  by (simp add: raw_ok_def re_hex_bytes1_def bytes_to_hex_nonempty lower_char_def)

lemma raw_ok_lower: "re_hex_bytes1 raw \<Longrightarrow> raw_ok (lower raw)"
  by (auto simp: raw_ok_def re_hex_bytes1_def hex_body_lower split: option.splits)

lemma raw_tx_field_cases:
  "(\<exists>m. raw_tx_field req v = Inl (bad_request (req_path req) m)) \<or>
   (\<exists>raw. raw_tx_field req v = Inr raw \<and> raw_ok raw)"
  by (auto simp: raw_tx_field_def raw_ok_lower split: json.splits option.splits)

lemma read_raw_tx_cases:
  "(\<exists>resp. read_raw_tx req = Inr (Inl resp) \<and> resp_status resp \<in> {400, 415}) \<or>
   (\<exists>raw. read_raw_tx req = Inr (Inr raw) \<and> raw_ok raw)"
proof (cases "media_type req = content_type_rlp")
  case True
  then show ?thesis using raw_ok_bytes [of "req_body req"] by (auto simp: read_raw_tx_def Let_def)
next
  case False
  show ?thesis
  proof (cases "media_type req = ''application/json'' \<or> media_type req = []")
    case True
    with False show ?thesis
    proof (cases "request_json req")
      case (Inl e)
      with request_json_exn [OF Inl] True False show ?thesis by (simp add: read_raw_tx_def Let_def)
    next
      case (Inr v)
      with raw_tx_field_cases [of req v] True False show ?thesis
        by (auto simp: read_raw_tx_def Let_def)
    qed
  next
    case other: False
    with False show ?thesis
      by (simp add: read_raw_tx_def Let_def unsupported_media_type_def simple_problem_def)
  qed
qed

lemma submitted_cases:
  "submitted req v = Inr resp \<Longrightarrow> (is_str v \<and> resp_status resp = 202) \<or> (\<not> is_str v \<and> resp_status resp = 502)"
  by (auto simp: submitted_def res_iffs json_reply_Inr_iff split: if_splits)

section \<open>Properties\<close>

text \<open>
  C12. A transaction is submitted at most once. Either the request is refused with a 400 or a 415
  and the upstream hears nothing, or exactly one \<open>eth_sendRawTransaction\<close> is posted, with the raw
  transaction as non-empty lower-case hexadecimal bytes; the client is answered 202 only if the
  upstream returned a hash, and no failure of the call leads to a second submission.
\<close>

theorem post_transaction_once:
  assumes "post_transaction req net w = (out, w')"
  shows "(w' = w \<and> (\<exists>resp. out = Inr resp \<and> resp_status resp \<in> {400, 415})) \<or>
    (\<exists>raw. re_hex_bytes1 raw \<and> lower raw = raw
      \<and> posted w' = posted w @ [rpc_body (next_id w) ''eth_sendRawTransaction'' [JStr raw]]
      \<and> (\<forall>resp. out = Inr resp \<longrightarrow> resp_status resp = 202 \<and> (\<exists>h. is_str h
            \<and> fst (upstream_call ''eth_sendRawTransaction'' [JStr raw] net w) = Inr h)
          \<or> resp_status resp = 502))"
  using read_raw_tx_cases [of req]
proof (elim disjE exE conjE)
  fix resp assume "read_raw_tx req = Inr (Inl resp)" "resp_status resp \<in> {400, 415}"
  then show ?thesis using assms by (auto simp: post_transaction_def io_defs)
next
  fix raw assume r: "read_raw_tx req = Inr (Inr raw)" "raw_ok raw"
  let ?c = "upstream_call ''eth_sendRawTransaction'' [JStr raw] net w"
  obtain x w1 where c: "?c = (x, w1)" by fastforce
  have p: "posted w1 = posted w @ [rpc_body (next_id w) ''eth_sendRawTransaction'' [JStr raw]]"
    using c upstream_call_dumpable [of "[JStr raw]"] by auto
  have "out = (case x of Inl e \<Rightarrow> Inl e | Inr h \<Rightarrow> submitted req h)" "w' = w1"
    using assms c r by (auto simp: post_transaction_def io_defs split: sum.splits)
  then show ?thesis
    using p r(2) c submitted_cases by (fastforce simp: raw_ok_def split: sum.splits)
qed

definition sample_post :: request where
  "sample_post = \<lparr>req_method = ''POST'', req_path = ''/transactions'', match_info = [], query = [],
     req_headers = [(''content-type'', content_type_rlp)], req_body = [248, 1]\<rparr>"

theorem post_transaction_once_witness:
  "\<exists>raw w'. re_hex_bytes1 raw \<and> posted w' = [rpc_body 1 ''eth_sendRawTransaction'' [JStr raw]]
    \<and> snd (post_transaction sample_post (constant_net (JStr ''0xAB'')) fresh) = w'"
proof -
  obtain out w' where c: "post_transaction sample_post (constant_net (JStr ''0xAB'')) fresh = (out, w')"
    by fastforce
  have "media_type sample_post = content_type_rlp" by code_simp
  then have "read_raw_tx sample_post = Inr (Inr (''0x'' @ bytes_to_hex [248, 1]))"
    by (simp add: read_raw_tx_def sample_post_def)
  then have "w' \<noteq> fresh"
    using c upstream_call_next_id [of "''eth_sendRawTransaction''"]
    by (auto simp: post_transaction_def io_defs split: prod.splits sum.splits)
      (metis add.right_neutral add_left_cancel snd_conv zero_neq_one)+
  with post_transaction_once [OF c] obtain raw where "re_hex_bytes1 raw"
    "posted w' = posted fresh @ [rpc_body (next_id fresh) ''eth_sendRawTransaction'' [JStr raw]]" by blast
  with c show ?thesis by (auto simp: fresh_def)
qed

end
