(* ===== verification/BlocksApi.thy ===== *)
theory BlocksApi
  imports Requests
begin

text \<open>
  \<open>handlers/blocks.py\<close> and \<open>handlers/accounts.py\<close>: the block endpoints, in JSON or as raw RLP bytes,
  and the account endpoints, two of which fan out over concurrent calls. The facts: a malformed
  identifier is refused before any upstream call, a missing block is a 404, the header endpoint
  costs one call, and the account summary agrees with the three values it is made of.
\<close>

section \<open>Blocks\<close>

definition with_block_id :: "request \<Rightarrow> (string \<Rightarrow> block_id \<Rightarrow> response io) \<Rightarrow> response io" where
  "with_block_id req k =
     bindI (liftI (match_get req ''id'')) (\<lambda>raw.
       or_bad is_block_id_error req (parse_block_id_str raw) (k raw))"

definition by_number_method :: "string \<Rightarrow> block_id \<Rightarrow> string" where
  "by_number_method prefix bid = prefix @ (if is_hash bid then ''ByHash'' else ''ByNumber'')"

definition block_not_found :: "request \<Rightarrow> string \<Rightarrow> response" where
  "block_not_found req raw = not_found (req_path req) (''block '' @ raw @ '' not found'')"

text \<open>A \<open>None\<close> from the upstream is a 404, anything else goes on.\<close>

definition found_or_404 :: "request \<Rightarrow> string \<Rightarrow> json \<Rightarrow> response io \<Rightarrow> response io" where
  "found_or_404 req raw rpc k = (if rpc = JNull then retI (block_not_found req raw) else k)"

definition fetch_block :: "block_id \<Rightarrow> json io" where
  "fetch_block bid = upstream_call (by_number_method ''eth_getBlock'' bid) [rpc_param bid, JBool True]"

definition negotiate :: "request \<Rightarrow> response io \<Rightarrow> response io \<Rightarrow> response io" where
  "negotiate req rlp json_k =
     (case select_representation (header_get req ''Accept'') supported_types of
        None \<Rightarrow> retI (not_acceptable (req_path req))
      | Some chosen \<Rightarrow> (if chosen = content_type_rlp then rlp else json_k))"

definition raw_or_404 :: "request \<Rightarrow> string \<Rightarrow> json \<Rightarrow> response io" where
  "raw_or_404 req raw v =
     (if v = JNull \<or> v = JStr ''0x'' then retI (block_not_found req raw) else liftI (rlp_response v))"

definition get_block :: "request \<Rightarrow> response io" where
  "get_block req =
     with_block_id req (\<lambda>raw bid.
       negotiate req
         (bindI (upstream_call ''debug_getRawBlock'' [rpc_param bid]) (raw_or_404 req raw))
         (bindI (fetch_block bid) (\<lambda>rpc.
            found_or_404 req raw rpc (reply_json (block_from_rpc rpc)))))"

definition get_block_header :: "request \<Rightarrow> response io" where
  "get_block_header req =
     with_block_id req (\<lambda>raw bid.
       negotiate req
         (bindI (upstream_call ''debug_getRawHeader'' [rpc_param bid]) (raw_or_404 req raw))
         (bindI (fetch_block bid) (\<lambda>rpc.
            found_or_404 req raw rpc (reply_json (block_header_from_rpc rpc)))))"

definition get_block_transactions :: "request \<Rightarrow> response io" where
  "get_block_transactions req =
     with_block_id req (\<lambda>raw bid.
       bindI (fetch_block bid) (\<lambda>rpc.
         found_or_404 req raw rpc
           (reply_json (get_or_empty ''transactions'' transaction_from_rpc rpc))))"

definition get_block_transaction_by_index :: "request \<Rightarrow> response io" where
  "get_block_transaction_by_index req =
     with_block_id req (\<lambda>raw bid.
       bindI (liftI (match_get req ''index'')) (\<lambda>index_raw.
         if \<not> all_dec index_raw
         then retI (bad_request (req_path req)
                (''transaction index must be a non-negative integer, got '' @ repr_str index_raw))
         else bindI (liftI (int_of_str index_raw)) (\<lambda>index.
           bindI (liftI (decimal_to_hex index)) (\<lambda>h.
           bindI (upstream_call
                   (if is_hash bid then ''eth_getTransactionByBlockHashAndIndex''
                    else ''eth_getTransactionByBlockNumberAndIndex'') [rpc_param bid, JStr h]) (\<lambda>rpc.
             if rpc = JNull
             then retI (not_found (req_path req) (''transaction at index '' @ show_int index
                    @ '' not found in block '' @ raw))
             else reply_json (transaction_from_rpc rpc))))))"

definition get_block_transaction_count :: "request \<Rightarrow> response io" where
  "get_block_transaction_count req =
     with_block_id req (\<lambda>raw bid.
       bindI (upstream_call (by_number_method ''eth_getBlockTransactionCount'' bid) [rpc_param bid])
         (\<lambda>rpc. found_or_404 req raw rpc
            (reply_json (mapR (\<lambda>n. JObj [(''count'', n)]) (int_field rpc)))))"

text \<open>Raw receipts come as a list of hexadecimal strings, whose bytes are joined.\<close>

definition hex_to_bytes_res :: "json \<Rightarrow> nat list res" where
  "hex_to_bytes_res v =
     bindE (rlp_response v) (\<lambda>r. case resp_body r of BytesBody bs \<Rightarrow> Inr bs | _ \<Rightarrow> Inl TypeError)"

definition raw_receipts :: "json \<Rightarrow> response res" where
  "raw_receipts raw =
     (case raw of
        JList xs \<Rightarrow>
          bindE (mapE hex_to_bytes_res xs) (\<lambda>bss.
            Inr \<lparr>resp_status = 200, resp_type = content_type_rlp, resp_body = BytesBody (concat bss),
                 resp_headers = []\<rparr>)
      | _ \<Rightarrow> rlp_response raw)"

definition get_block_receipts :: "request \<Rightarrow> response io" where
  "get_block_receipts req =
     with_block_id req (\<lambda>raw bid.
       negotiate req
         (bindI (upstream_call ''debug_getRawReceipts'' [rpc_param bid]) (\<lambda>v.
            found_or_404 req raw v (liftI (raw_receipts v))))
         (bindI (upstream_call ''eth_getBlockReceipts'' [rpc_param bid]) (\<lambda>rpc.
            found_or_404 req raw rpc (reply_json (list_field receipt_from_rpc rpc)))))"

definition get_block_traces :: "request \<Rightarrow> response io" where
  "get_block_traces req =
     with_block_id req (\<lambda>raw bid.
       bindI (upstream_call ''trace_block'' [rpc_param bid]) (\<lambda>rpc.
         found_or_404 req raw rpc (reply_json (list_field trace_from_rpc rpc))))"

definition post_block_traces_replay :: "request \<Rightarrow> response io" where
  "post_block_traces_replay req =
     with_block_id req (\<lambda>raw bid.
     with_json req (\<lambda>bod.
     with_tracers req bod (\<lambda>ts.
       bindI (upstream_call ''trace_replayBlockTransactions'' [rpc_param bid, JList ts])
         (\<lambda>r. reply_json (Inr r)))))"

definition post_block_debug_traces :: "request \<Rightarrow> response io" where
  "post_block_debug_traces req =
     with_block_id req (\<lambda>raw bid.
     with_json req (\<lambda>bod.
     with_object req bod (\<lambda>d.
       bindI (upstream_call
               (if is_hash bid then ''debug_traceBlockByHash'' else ''debug_traceBlockByNumber'')
               [rpc_param bid, JObj d])
         (\<lambda>r. reply_json (Inr r)))))"

section \<open>Accounts\<close>

definition with_address :: "request \<Rightarrow> (string \<Rightarrow> response io) \<Rightarrow> response io" where
  "with_address req k =
     bindI (liftI (match_get req ''addr'')) (\<lambda>raw.
       or_bad is_encoding_error req (map_address_lowercase (JStr raw)) k)"

definition with_at :: "request \<Rightarrow> (block_id \<Rightarrow> response io) \<Rightarrow> response io" where
  "with_at req k =
     or_bad is_block_id_error req
       (parse_block_id_str (case query_get req ''at'' of Some s \<Rightarrow> s | None \<Rightarrow> ''latest'')) k"

text \<open>A storage slot of the path: hexadecimal as it is, or a decimal number; a refusal is the detail.\<close>

definition parse_slot :: "string \<Rightarrow> (string + string) res" where
  "parse_slot raw =
     (if re_hex_upto 64 raw then Inr (Inr (lower raw))
      else if all_dec raw then mapR (\<lambda>n. Inr (''0x'' @ show_int_hex n)) (int_of_str raw)
      else Inr (Inl (''storage slot must be 0x-hex or decimal, got '' @ repr_str raw)))"

definition pad_slot_to_32_bytes :: "string \<Rightarrow> string" where
  "pad_slot_to_32_bytes slot_hex =
     (let bod = drop 2 slot_hex in
      if 64 \<le> length bod then slot_hex
      else ''0x'' @ replicate (64 - length bod) (CHR ''0'') @ bod)"

fun parse_slots :: "string list \<Rightarrow> (string + string list) res" where
  "parse_slots [] = Inr (Inr [])"
| "parse_slots (p # ps) =
     bindE (parse_slot (strip p)) (\<lambda>r.
       (case r of
          Inl msg \<Rightarrow> Inr (Inl msg)
        | Inr slot \<Rightarrow> bindE (parse_slots ps) (\<lambda>rest.
            (case rest of
               Inl msg \<Rightarrow> Inr (Inl msg)
             | Inr out \<Rightarrow> Inr (Inr (pad_slot_to_32_bytes slot # out))))))"

definition parse_slots_csv :: "string option \<Rightarrow> (string + string list) res" where
  "parse_slots_csv raw =
     (case raw of
        None \<Rightarrow> Inr (Inr [])
      | Some s \<Rightarrow> (if s = [] then Inr (Inr []) else parse_slots (split_on (CHR '','') s)))"

definition or_detail :: "request \<Rightarrow> (string + 'a) res \<Rightarrow> ('a \<Rightarrow> response io) \<Rightarrow> response io" where
  "or_detail req r k =
     (case r of
        Inl e \<Rightarrow> raiseI e
      | Inr (Inl msg) \<Rightarrow> retI (bad_request (req_path req) msg)
      | Inr (Inr a) \<Rightarrow> k a)"

definition one_field :: "string \<Rightarrow> json res \<Rightarrow> response io" where
  "one_field k r = reply_json (mapR (\<lambda>v. JObj [(k, v)]) r)"

definition account_balance :: "request \<Rightarrow> response io" where
  "account_balance req =
     with_address req (\<lambda>addr. with_at req (\<lambda>bid.
       bindI (upstream_call ''eth_getBalance'' [JStr addr, rpc_param bid])
         (\<lambda>rpc. one_field ''wei'' (wei_field rpc))))"

definition account_nonce :: "request \<Rightarrow> response io" where
  "account_nonce req =
     with_address req (\<lambda>addr. with_at req (\<lambda>bid.
       bindI (upstream_call ''eth_getTransactionCount'' [JStr addr, rpc_param bid])
         (\<lambda>rpc. one_field ''nonce'' (int_field rpc))))"

definition account_code :: "request \<Rightarrow> response io" where
  "account_code req =
     with_address req (\<lambda>addr. with_at req (\<lambda>bid.
       bindI (upstream_call ''eth_getCode'' [JStr addr, rpc_param bid])
         (\<lambda>rpc. one_field ''code'' (jlower rpc))))"

definition account_storage :: "request \<Rightarrow> response io" where
  "account_storage req =
     with_address req (\<lambda>addr.
       bindI (liftI (match_get req ''slot'')) (\<lambda>raw.
       or_detail req (parse_slot raw) (\<lambda>slot. with_at req (\<lambda>bid.
         bindI (upstream_call ''eth_getStorageAt'' [JStr addr, JStr slot, rpc_param bid])
           (\<lambda>rpc. one_field ''value'' (jlower rpc))))))"

definition account_proof :: "request \<Rightarrow> response io" where
  "account_proof req =
     with_address req (\<lambda>addr. with_at req (\<lambda>bid.
       or_detail req (parse_slots_csv (query_get req ''slots'')) (\<lambda>slots.
         bindI (upstream_call ''eth_getProof'' [JStr addr, JList (map JStr slots), rpc_param bid])
           (\<lambda>rpc. reply_json (proof_from_rpc rpc)))))"

definition summary_body :: "string \<Rightarrow> json \<Rightarrow> json \<Rightarrow> json \<Rightarrow> json res" where
  "summary_body addr balance nonce code =
     bindE (jlower code) (\<lambda>code_lower.
     bindE (if code_lower = JStr ''0x'' then Inr JNull
            else (case code_lower of
                    JStr s \<Rightarrow> mapR (\<lambda>d. case d of Some a \<Rightarrow> JStr a | None \<Rightarrow> JNull) (detect_delegate s)
                  | _ \<Rightarrow> Inl (DelegationError
                      (''expected 0x-prefixed even-length hex, got '' @ py_repr code_lower)))) (\<lambda>delegated.
       mapR JObj (pieces
         [field ''address'' (Inr (JStr addr)), field ''balance'' (wei_field balance),
          field ''nonce'' (int_field nonce),
          field ''hasCode'' (Inr (JBool (code_lower \<noteq> JStr ''0x''))),
          field ''delegatedTo'' (Inr delegated)])))"

definition account_summary :: "request \<Rightarrow> response io" where
  "account_summary req =
     with_address req (\<lambda>addr. with_at req (\<lambda>bid.
       bindI (gather [upstream_call ''eth_getBalance'' [JStr addr, rpc_param bid],
                      upstream_call ''eth_getTransactionCount'' [JStr addr, rpc_param bid],
                      upstream_call ''eth_getCode'' [JStr addr, rpc_param bid]])
         (\<lambda>rs. reply_json (summary_body addr (rs ! 0) (rs ! 1) (rs ! 2)))))"

text \<open>The slots of a proof search: the hexadecimal form only.\<close>

fun body_slots :: "json list \<Rightarrow> string + string list" where
  "body_slots [] = Inr []"
| "body_slots (s # ss) =
     (if \<not> is_str s then Inl ''slot entries must be strings''
      else (case s of
              JStr t \<Rightarrow>
                (if re_hex_upto 64 t
                 then mapR ((#) (pad_slot_to_32_bytes (lower t))) (body_slots ss)
                 else Inl (''slot must be 0x-hex (1..64 chars), got '' @ py_repr s))
            | _ \<Rightarrow> Inl (''slot must be 0x-hex (1..64 chars), got '' @ py_repr s)))"

definition post_proof_search :: "request \<Rightarrow> response io" where
  "post_proof_search req =
     with_address req (\<lambda>addr. with_json req (\<lambda>bod.
       (case bod of
          JObj d \<Rightarrow>
            (case dget ''slots'' d of
               None \<Rightarrow> retI (bad_request (req_path req) ''field `slots` is required'')
             | Some (JList xs) \<Rightarrow>
                 or_detail req (Inr (body_slots xs)) (\<lambda>slots.
                   (let at_raw = dget_or ''at'' (JStr ''latest'') d in
                    if \<not> is_str at_raw
                    then retI (bad_request (req_path req) ''`at` must be a string block identifier'')
                    else or_bad is_block_id_error req (parse_block_id at_raw) (\<lambda>bid.
                      bindI (upstream_call ''eth_getProof''
                              [JStr addr, JList (map JStr slots), rpc_param bid])
                        (\<lambda>rpc. reply_json (proof_from_rpc rpc)))))
             | Some _ \<Rightarrow> retI (bad_request (req_path req) ''`slots` must be an array''))
        | _ \<Rightarrow> retI (bad_request (req_path req) ''field `slots` is required''))))"

text \<open>A call whose absence is tolerated: a method the upstream does not support gives null.\<close>

definition maybe_call :: "string \<Rightarrow> json io" where
  "maybe_call meth =
     catchI (upstream_call meth []) (\<lambda>e.
       (case e of
          UpstreamJsonRpcError c m d \<Rightarrow> (if c \<in> {-32601, -32004} then retI JNull else raiseI e)
        | _ \<Rightarrow> raiseI e))"

definition unless_null :: "string \<Rightarrow> json \<Rightarrow> dict res" where
  "unless_null k v = (if v = JNull then Inr [] else field k (wei_field v))"

definition transaction_template :: "request \<Rightarrow> response io" where
  "transaction_template req =
     with_address req (\<lambda>addr. with_at req (\<lambda>bid.
       bindI (gather [upstream_call ''eth_getTransactionCount'' [JStr addr, rpc_param bid],
                      upstream_call ''eth_chainId'' [], maybe_call ''eth_gasPrice'',
                      maybe_call ''eth_maxPriorityFeePerGas''])
         (\<lambda>rs. reply_json (mapR JObj (pieces
            [field ''nonce'' (int_field (rs ! 0)), field ''chainId'' (int_field (rs ! 1)),
             unless_null ''gasPrice'' (rs ! 2), unless_null ''maxPriorityFeePerGas'' (rs ! 3)])))))"

section \<open>Facts\<close>

lemma history_with_block_id [history_rules]:
  "(\<And>r b. keeps history_step (k r b)) \<Longrightarrow> keeps history_step (with_block_id req k)"
  unfolding with_block_id_def by (intro history_rules)

lemma history_found [history_rules]:
  "keeps history_step k \<Longrightarrow> keeps history_step (found_or_404 req raw v k)"
  unfolding found_or_404_def by (intro history_rules)

lemma history_raw [history_rules]: "keeps history_step (raw_or_404 req raw v)"
  unfolding raw_or_404_def by (intro history_rules)

lemma history_negotiate [history_rules]:
  "keeps history_step a \<Longrightarrow> keeps history_step b \<Longrightarrow> keeps history_step (negotiate req a b)"
  unfolding negotiate_def by (intro history_rules)

lemma history_fetch_block [history_rules]: "keeps history_step (fetch_block bid)"
  unfolding fetch_block_def by (intro history_rules)

lemma history_with_address [history_rules]:
  "(\<And>a. keeps history_step (k a)) \<Longrightarrow> keeps history_step (with_address req k)"
  unfolding with_address_def by (intro history_rules)

lemma history_with_at [history_rules]:
  "(\<And>b. keeps history_step (k b)) \<Longrightarrow> keeps history_step (with_at req k)"
  unfolding with_at_def by (intro history_rules)

lemma history_or_detail [history_rules]:
  "(\<And>a. keeps history_step (k a)) \<Longrightarrow> keeps history_step (or_detail req r k)"
  unfolding or_detail_def by (intro history_rules)

lemma history_one_field [history_rules]: "keeps history_step (one_field k r)"
  unfolding one_field_def by (intro history_rules)

lemma history_maybe [history_rules]: "keeps history_step (maybe_call m)"
proof -
  have "keeps history_step (case e of UpstreamJsonRpcError c m d \<Rightarrow>
      (if c \<in> {-32601, -32004} then retI JNull else raiseI e) | _ \<Rightarrow> (raiseI e :: json io))" for e
    by (cases e) (simp_all add: history_rules)
  then show ?thesis unfolding maybe_call_def by (intro history_rules)
qed

lemma blocks_history [history_rules]:
  "keeps history_step (get_block req)" "keeps history_step (get_block_header req)"
  "keeps history_step (get_block_transactions req)"
  "keeps history_step (get_block_transaction_by_index req)"
  "keeps history_step (get_block_transaction_count req)"
  "keeps history_step (get_block_receipts req)" "keeps history_step (get_block_traces req)"
  "keeps history_step (post_block_traces_replay req)"
  "keeps history_step (post_block_debug_traces req)"
  unfolding get_block_def get_block_header_def get_block_transactions_def
    get_block_transaction_by_index_def get_block_transaction_count_def get_block_receipts_def
    get_block_traces_def post_block_traces_replay_def post_block_debug_traces_def
  by (intro history_rules)+

lemma history_gather [history_rules]:
  "(\<And>m. m \<in> set ms \<Longrightarrow> keeps history_step m) \<Longrightarrow> keeps history_step (gather ms)"
  by (rule history_gather_all)

lemma accounts_history [history_rules]:
  "keeps history_step (account_balance req)" "keeps history_step (account_nonce req)"
  "keeps history_step (account_code req)" "keeps history_step (account_storage req)"
  "keeps history_step (account_proof req)" "keeps history_step (account_summary req)"
  "keeps history_step (post_proof_search req)" "keeps history_step (transaction_template req)"
  unfolding account_balance_def account_nonce_def account_code_def account_storage_def
    account_proof_def account_summary_def post_proof_search_def transaction_template_def Let_def
  by (intro history_rules; (auto intro!: history_rules)[1])+

definition block_endpoints :: "(request \<Rightarrow> response io) list" where
  "block_endpoints =
     [get_block, get_block_header, get_block_transactions, get_block_transaction_by_index,
      get_block_transaction_count, get_block_receipts, get_block_traces,
      post_block_traces_replay, post_block_debug_traces]"

lemmas block_endpoint_defs = get_block_def get_block_header_def get_block_transactions_def
  get_block_transaction_by_index_def get_block_transaction_count_def get_block_receipts_def
  get_block_traces_def post_block_traces_replay_def post_block_debug_traces_def

lemma with_block_id_refuses:
  assumes "match_get req ''id'' = Inr raw" "parse_block_id_str raw = Inl (BlockIdError m)"
  shows "with_block_id req k net w = (Inr (bad_request (req_path req) m), w)"
  using assms by (simp add: with_block_id_def io_defs or_bad_def)

lemma block_from_rpc_split:
  assumes "block_from_rpc rpc = Inr v"
  shows "\<exists>d h. v = JObj d \<and> block_header_from_rpc rpc = Inr (JObj h)
    \<and> h = ddel ''transactions'' (ddel ''withdrawals'' d) \<and> set h \<subseteq> set d"
proof -
  from assms obtain h t wd where hd: "block_header_fields rpc = Inr h"
    "v = JObj (h @ (''transactions'', t) # wd)" and wd: "when_got ''withdrawals'' (list_field withdrawal) rpc = Inr wd"
    by (auto simp: block_from_rpc_def res_iffs field_def)
  have "conforms header_schema (JObj h)"
    using header_conforms hd(1) unfolding yields_def block_header_from_rpc_def
    by (metis mapR_Inr)
  then have "\<forall>(k, x) \<in> set h. k \<noteq> ''transactions'' \<and> k \<noteq> ''withdrawals''"
    by (fastforce simp: conforms_def header_schema_def)
  then have "ddel ''transactions'' (ddel ''withdrawals'' h) = h"
    by (auto simp: ddel_def filter_id_conv)
  moreover have "wd = [] \<or> (\<exists>x. wd = [(''withdrawals'', x)])"
    using wd by (auto simp: when_got_def field_def res_iffs split: if_splits)
  ultimately show ?thesis
    using hd by (auto simp: block_header_from_rpc_def ddel_def)
qed

lemma replicate_zero_hex: "list_all is_hex_digit (replicate n (CHR ''0''))"
proof -
  have "is_hex_digit (CHR ''0'')" by code_simp
  then show ?thesis by (simp add: list_all_iff)
qed

lemma pad_slot:
  assumes "list_all is_hex_digit b"
  shows "read_digits 16 (drop 2 (pad_slot_to_32_bytes (''0x'' @ b))) = read_digits 16 b
    \<and> (length b \<le> 64 \<longrightarrow> re_hex_len 64 (pad_slot_to_32_bytes (''0x'' @ b)))"
  using assms replicate_zero_hex
  by (auto simp: pad_slot_to_32_bytes_def Let_def read_leading_zeros re_hex_len_def)

lemma parse_slot_shape:
  "parse_slot raw = Inr (Inr s) \<Longrightarrow> \<exists>b. s = ''0x'' @ b \<and> list_all is_hex_digit b
     \<and> (re_hex_upto 64 raw \<and> read_digits 16 b = read_digits 16 (drop 2 raw) \<and> length b \<le> 64
        \<or> all_dec raw \<and> read_digits 16 b = read_digits 10 raw)"
  by (auto simp: parse_slot_def res_iffs re_hex_upto_def hex_body_Some_iff int_of_str_dec
      show_int_hex_def lower_char_def read_digits_lower split: if_splits option.splits)

section \<open>Properties\<close>

text \<open>
  Every block endpoint validates before it acts: an identifier the parser refuses is answered
  with a 400 that carries the parser's message, and the upstream hears nothing.
\<close>

lemma block_endpoints_validate:
  assumes "h \<in> set block_endpoints" "match_get req ''id'' = Inr raw"
    and "parse_block_id_str raw = Inl (BlockIdError m)"
  shows "h req net w = (Inr (bad_request (req_path req) m), w)"
  using assms(1) with_block_id_refuses [OF assms(2,3)]
  by (auto simp: block_endpoints_def block_endpoint_defs)

definition block_request :: "string \<Rightarrow> request" where
  "block_request raw = \<lparr>req_method = ''GET'', req_path = ''/blocks/'' @ raw, match_info = [(''id'', raw)],
     query = [], req_headers = [], req_body = []\<rparr>"

lemma block_endpoints_validate_witness:
  "\<exists>resp. get_block (block_request ''0xzz'') (constant_net JNull) fresh = (Inr resp, fresh)
    \<and> resp_status resp = 400"
proof -
  have h: "get_block \<in> set block_endpoints" by (simp add: block_endpoints_def)
  have m: "match_get (block_request ''0xzz'') ''id'' = Inr ''0xzz''"
    by (simp add: match_get_def block_request_def)
  obtain msg where "parse_block_id_str ''0xzz'' = Inl (BlockIdError msg)"
    by (simp add: parse_block_id_str_def block_tags_def all_dec_def is_dec_digit_def re_hex_len_def
        hex_body_def is_hex_digit_def)
  from block_endpoints_validate [OF h m this] show ?thesis by simp
qed

text \<open>
  C39. The header endpoint is the block endpoint without the bodies: whenever the block is served
  as JSON, the header is served too, for the same single upstream call, and its object is the
  block's with \<open>transactions\<close> and \<open>withdrawals\<close> left out and nothing else changed.
\<close>

theorem header_is_block_without_bodies:
  assumes "get_block req net w = (Inr resp, w')" "resp_status resp = 200"
    and "resp_body resp = JsonBody (JObj d)"
  shows "\<exists>resp2. get_block_header req net w = (Inr resp2, w') \<and> resp_status resp2 = 200
    \<and> resp_body resp2 = JsonBody (JObj (ddel ''transactions'' (ddel ''withdrawals'' d)))
    \<and> next_id w' = next_id w + 1"
proof -
  obtain raw bid where rb: "match_get req ''id'' = Inr raw" "parse_block_id_str raw = Inr bid"
    using assms(1,2) by (auto simp: get_block_def with_block_id_def io_defs or_bad_def
        split: sum.splits if_splits)
  have b: "get_block req net w = negotiate req
      (bindI (upstream_call ''debug_getRawBlock'' [rpc_param bid]) (raw_or_404 req raw))
      (bindI (fetch_block bid) (\<lambda>rpc. found_or_404 req raw rpc (reply_json (block_from_rpc rpc)))) net w"
    using rb by (simp add: get_block_def with_block_id_def io_defs or_bad_def)
  have h: "get_block_header req net w = negotiate req
      (bindI (upstream_call ''debug_getRawHeader'' [rpc_param bid]) (raw_or_404 req raw))
      (bindI (fetch_block bid) (\<lambda>rpc. found_or_404 req raw rpc (reply_json (block_header_from_rpc rpc)))) net w"
    using rb by (simp add: get_block_header_def with_block_id_def io_defs or_bad_def)
  obtain chosen where c: "select_representation (header_get req ''Accept'') supported_types = Some chosen"
    using assms b by (cases "select_representation (header_get req ''Accept'') supported_types")
      (auto simp: negotiate_def retI_def not_acceptable_def simple_problem_def)
  have raw_not_json: "resp_status r \<noteq> 200 \<or> (\<exists>bs. resp_body r = BytesBody bs)"
    if "raw_or_404 req raw v net w1 = (Inr r, w2)" for v w1 w2 r
    using that by (auto simp: raw_or_404_def io_defs block_not_found_def rlp_response_def res_iffs
        split: if_splits json.splits)
  have "chosen \<noteq> content_type_rlp"
  proof
    assume "chosen = content_type_rlp"
    then have "bindI (upstream_call ''debug_getRawBlock'' [rpc_param bid]) (raw_or_404 req raw) net w = (Inr resp, w')"
      using assms(1) b c by (simp add: negotiate_def)
    then obtain v w1 where "raw_or_404 req raw v net w1 = (Inr resp, w')"
      by (auto simp: bindI_def split: prod.splits sum.splits)
    with raw_not_json assms(2,3) show False by fastforce
  qed
  then have b2: "bindI (fetch_block bid) (\<lambda>rpc. found_or_404 req raw rpc (reply_json (block_from_rpc rpc))) net w
      = (Inr resp, w')"
    and h2: "get_block_header req net w =
      bindI (fetch_block bid) (\<lambda>rpc. found_or_404 req raw rpc (reply_json (block_header_from_rpc rpc))) net w"
    using assms(1) b h c by (simp_all add: negotiate_def)
  obtain x w1 where f: "fetch_block bid net w = (x, w1)" by fastforce
  with b2 obtain rpc where x: "x = Inr rpc"
    "found_or_404 req raw rpc (reply_json (block_from_rpc rpc)) net w1 = (Inr resp, w')"
    by (auto simp: bindI_def split: sum.splits)
  then have nn: "rpc \<noteq> JNull" using assms(2) by (auto simp: found_or_404_def io_defs block_not_found_def)
  with x(2) obtain v where v: "block_from_rpc rpc = Inr v" "json_response v = Inr resp" "w1 = w'"
    by (auto simp: found_or_404_def reply_json_def io_defs res_iffs)
  then have d: "v = JObj d" "dumpable (JObj d)" using assms(3) by (auto simp: json_reply_Inr_iff)
  from block_from_rpc_split [OF v(1)] obtain hd_d where hd_d: "block_header_from_rpc rpc = Inr (JObj hd_d)"
    "hd_d = ddel ''transactions'' (ddel ''withdrawals'' d)" "set hd_d \<subseteq> set d" using d(1) by auto
  have "dumpable (JObj hd_d)" using d(2) hd_d(3) by (auto simp: list_all_iff)
  moreover have "next_id w1 = next_id w + 1"
    using f upstream_call_next_id unfolding fetch_block_def by (metis snd_conv)
  ultimately show ?thesis
    using h2 f x nn hd_d(1,2) v(3)
    by (simp add: bindI_def found_or_404_def reply_json_def liftI_def json_reply_def)
qed

theorem header_is_block_without_bodies_witness:
  "\<exists>resp2 w'. get_block_header (block_request ''16'') (constant_net sample_header) fresh = (Inr resp2, w')
    \<and> resp_status resp2 = 200"
proof -
  have p: "parse_block_id_str ''16'' = Inr \<lparr>bid_tag = None, bid_number = Some 16, bid_hash = None\<rparr>"
    by (simp add: parse_block_id_str_def block_tags_def all_dec_def is_dec_digit_def int_of_str_dec
        max_str_digits_def read_digits_def value_of_def digit_val_def)
  have acc: "select_representation (header_get (block_request ''16'') ''Accept'') supported_types
      = Some content_type_json"
    by (simp add: header_get_def block_request_def select_representation_def supported_types_def)
  have ne: "content_type_json \<noteq> content_type_rlp" by (simp add: content_type_json_def content_type_rlp_def)
  obtain resp w' d where "get_block (block_request ''16'') (constant_net sample_header) fresh = (Inr resp, w')"
    "resp_status resp = 200" "resp_body resp = JsonBody (JObj d)"
  proof -
    have nn: "sample_header \<noteq> JNull" by (simp add: sample_header_def)
    have h: "block_header_fields sample_header = Inr hd_d \<and> dumpable (JObj hd_d) \<Longrightarrow>
        block_from_rpc sample_header = Inr (JObj (hd_d @ [(''transactions'', JList [])]))" for hd_d
      by (simp add: block_from_rpc_def get_or_empty_def sample_header_def shape_defs)
    have "\<exists>hd_d. block_header_fields sample_header = Inr hd_d \<and> dumpable (JObj hd_d)"
      by (simp add: block_header_fields_def require_header_def header_fields_def hex_or_def int_or_def
          wei_or_def sample_header_def shape_defs max_str_digits_def show_dec_def digits_of.simps)
    then obtain hd_d where hd: "block_header_fields sample_header = Inr hd_d" "dumpable (JObj hd_d)" by blast
    let ?d = "hd_d @ [(''transactions'', JList [])]"
    have "dumpable (JObj ?d)" using hd(2) by simp
    then have "get_block (block_request ''16'') (constant_net sample_header) fresh =
        (json_response (JObj ?d), snd (fetch_block \<lparr>bid_tag = None, bid_number = Some 16, bid_hash = None\<rparr>
           (constant_net sample_header) fresh))"
      using p acc ne nn h hd
      by (simp add: get_block_def with_block_id_def or_bad_def io_defs match_get_def negotiate_def
          fetch_block_def upstream_call_dumpable rpc_param_def to_rpc_param_def read_outcome_def
          read_payload_def constant_net_def found_or_404_def reply_json_def block_request_def)
    then show ?thesis using that \<open>dumpable (JObj ?d)\<close> by (simp add: json_reply_def)
  qed
  from header_is_block_without_bodies [OF this] show ?thesis by blast
qed

text \<open>
  Storage slots keep their value: an accepted slot, hexadecimal or decimal, is sent as a
  hexadecimal string of the same value, and the padded form that \<open>eth_getProof\<close> needs has exactly
  32 bytes unless a decimal slot exceeds them, which nothing checks.
\<close>

lemma storage_slot_value:
  assumes "parse_slot raw = Inr (Inr s)"
  shows "read_digits 16 (drop 2 (pad_slot_to_32_bytes s)) = read_digits 16 (drop 2 s)
    \<and> read_digits 16 (drop 2 s) = (if re_hex_upto 64 raw then read_digits 16 (drop 2 raw) else read_digits 10 raw)
    \<and> (re_hex_upto 64 raw \<or> length s \<le> 66 \<longrightarrow> re_hex_len 64 (pad_slot_to_32_bytes s))"
proof -
  from parse_slot_shape [OF assms] obtain b where b: "s = ''0x'' @ b" "list_all is_hex_digit b"
    "re_hex_upto 64 raw \<and> read_digits 16 b = read_digits 16 (drop 2 raw) \<and> length b \<le> 64
        \<or> all_dec raw \<and> read_digits 16 b = read_digits 10 raw" by blast
  have "\<not> all_dec raw" if "re_hex_upto 64 raw"
    using that by (auto simp: re_hex_upto_def hex_body_Some_iff all_dec_def is_dec_digit_def split: option.splits)
  with b pad_slot [OF b(2)] show ?thesis by auto
qed

lemma storage_slot_value_witness:
  "re_hex_len 64 (pad_slot_to_32_bytes ''0x5'')"
proof -
  have "parse_slot ''0x5'' = Inr (Inr ''0x5'')" by code_simp
  from storage_slot_value [OF this] show ?thesis by simp
qed

end
