(* ===== verification/Config.thy ===== *)
theory Config
  imports Requests
begin

text \<open>
  \<open>config.py\<close>, and \<open>_split_listen\<close> of \<open>__main__.py\<close>: command-line flags over environment variables
  over defaults. The flags are read by the standard library's \<open>argparse\<close>, modelled for the options
  this parser declares: long options with a value in the next argument or after an equals sign,
  unique prefixes, help, and failure with exit code 2 on everything else (an argument of exactly
  two dashes, which the program never needs, is refused too). The facts: which source wins, and
  what a configuration that was accepted satisfies.
\<close>

section \<open>Configuration\<close>

record config =
  upstream_http :: string
  upstream_ws :: string
  listen :: string
  upstream_timeout_seconds :: pyfloat
  default_page_size :: int
  max_page_size :: int
  sse_buffer_bytes :: int
  sse_replay_window :: int
  sse_heartbeat_seconds :: int
  ready_sync_lag :: int
  log_level :: string
  log_format :: "string option"
  metrics_enabled :: bool

definition log_levels :: "string list" where
  "log_levels = [''debug'', ''error'', ''info'', ''warn'']"

definition derive_ws_from_http :: "string \<Rightarrow> string res" where
  "derive_ws_from_http u =
     (if startswith u ''https://'' then Inr (''wss://'' @ drop 8 u)
      else if startswith u ''http://'' then Inr (''ws://'' @ drop 7 u)
      else Inl (ConfigError (''upstream-http URL must be http(s)://, got '' @ repr_str u)))"

section \<open>Flags\<close>

datatype opt_kind = StrOpt | IntOpt | FloatOpt | ChoiceOpt "string list" | FlagOpt | HelpOpt

datatype opt_value = StrVal string | IntVal int | FloatVal pyfloat | TrueVal

definition options :: "(string \<times> opt_kind) list" where
  "options =
     [(''--help'', HelpOpt), (''--upstream-http'', StrOpt), (''--upstream-ws'', StrOpt),
      (''--listen'', StrOpt), (''--upstream-timeout'', FloatOpt),
      (''--default-page-size'', IntOpt), (''--max-page-size'', IntOpt),
      (''--sse-buffer-bytes'', IntOpt), (''--sse-replay-window'', IntOpt),
      (''--sse-heartbeat-seconds'', IntOpt), (''--ready-sync-lag'', IntOpt),
      (''--log-format'', ChoiceOpt [''human'', ''json'']), (''--log-level'', ChoiceOpt log_levels),
      (''--metrics'', ChoiceOpt [''on'', ''off'']), (''--version'', FlagOpt)]"

text \<open>An option by its exact name or by the only one it is a prefix of.\<close>

definition find_option :: "string \<Rightarrow> (string \<times> opt_kind) option" where
  "find_option name =
     (if name = ''-h'' then Some (''--help'', HelpOpt)
      else (case dget name options of
              Some k \<Rightarrow> Some (name, k)
            | None \<Rightarrow>
                (if startswith name ''--'' then
                   (case filter (\<lambda>(o', k). startswith o' name) options of
                      [p] \<Rightarrow> Some p
                    | _ \<Rightarrow> None)
                 else None)))"

definition convert_value :: "opt_kind \<Rightarrow> string \<Rightarrow> opt_value option" where
  "convert_value k raw =
     (case k of
        StrOpt \<Rightarrow> Some (StrVal raw)
      | IntOpt \<Rightarrow> (case int_of_str raw of Inr i \<Rightarrow> Some (IntVal i) | Inl e \<Rightarrow> None)
      | FloatOpt \<Rightarrow> map_option FloatVal (float_of_str raw)
      | ChoiceOpt cs \<Rightarrow> (if raw \<in> set cs then Some (StrVal raw) else None)
      | FlagOpt \<Rightarrow> None
      | HelpOpt \<Rightarrow> None)"

text \<open>What may stand as the value of an option: no dash in front, or a negative number, or a dash.\<close>

definition negative_number :: "string \<Rightarrow> bool" where
  "negative_number s =
     (startswith s ''-'' \<and>
      (let r = drop 1 s; ip = takeWhile is_dec_digit r; rest = dropWhile is_dec_digit r in
       (ip \<noteq> [] \<and> rest = []) \<or>
       (startswith rest ''.'' \<and> drop 1 rest \<noteq> [] \<and> list_all is_dec_digit (drop 1 rest))))"

definition is_argument :: "string \<Rightarrow> bool" where
  "is_argument s =
     (\<not> startswith s ''-'' \<or> s = ''-'' \<or> negative_number s
      \<or> (CHR '' '' \<in> set s \<and> find_option (fst (partition_on (CHR ''='') s)) = None))"

text \<open>
  \<open>parser.parse_args\<close>: the values given, the last one of an option counting, or the exit code.
  \<open>extra\<close> says that an argument nobody claims was seen, which fails at the end.
\<close>

fun parse_args :: "(string \<times> opt_value) list \<Rightarrow> bool \<Rightarrow> string list \<Rightarrow> int + (string \<times> opt_value) list" where
  "parse_args acc extra [] = (if extra then Inl 2 else Inr acc)"
| "parse_args acc extra (tok # toks) =
     (if is_argument tok then parse_args acc True toks
      else (case find_option (fst (partition_on (CHR ''='') tok)) of
              None \<Rightarrow> parse_args acc True toks
            | Some (name, k) \<Rightarrow>
                (if CHR ''='' \<in> set tok then
                   (case convert_value k (snd (partition_on (CHR ''='') tok)) of
                      None \<Rightarrow> Inl 2
                    | Some v \<Rightarrow> parse_args (dset name v acc) extra toks)
                 else if k = HelpOpt then Inl 0
                 else if k = FlagOpt then parse_args (dset name TrueVal acc) extra toks
                 else (case toks of
                         [] \<Rightarrow> Inl 2
                       | raw # rest \<Rightarrow>
                           (if is_argument raw then
                              (case convert_value k raw of
                                 None \<Rightarrow> Inl 2
                               | Some v \<Rightarrow> parse_args (dset name v acc) extra rest)
                            else Inl 2)))))"

text \<open>Every argument is classified before any is consumed; an ambiguous prefix fails there.\<close>

definition ambiguous :: "string \<Rightarrow> bool" where
  "ambiguous tok =
     (let name = fst (partition_on (CHR ''='') tok) in
      startswith name ''--'' \<and> name \<noteq> ''--'' \<and> dget name options = None
      \<and> 1 < length (filter (\<lambda>(o', k). startswith o' name) options))"

definition parse_argv :: "string list \<Rightarrow> int + (string \<times> opt_value) list" where
  "parse_argv argv = (if list_ex ambiguous argv then Inl 2 else parse_args [] False argv)"

section \<open>Fields\<close>

definition env_get :: "(string \<times> string) list \<Rightarrow> string \<Rightarrow> string option" where
  "env_get env name = dget (''EXEC_REST_API_'' @ name) env"

definition opt_str_field ::
  "opt_value option \<Rightarrow> (string \<times> string) list \<Rightarrow> string \<Rightarrow> string option \<Rightarrow> string option" where
  "opt_str_field flag env name dflt =
     (case flag of
        Some (StrVal s) \<Rightarrow> Some s
      | _ \<Rightarrow> (case env_get env name of Some raw \<Rightarrow> Some raw | None \<Rightarrow> dflt))"

definition str_field :: "opt_value option \<Rightarrow> (string \<times> string) list \<Rightarrow> string \<Rightarrow> string \<Rightarrow> string" where
  "str_field flag env name dflt =
     (case flag of
        Some (StrVal s) \<Rightarrow> s
      | _ \<Rightarrow> (case env_get env name of Some raw \<Rightarrow> raw | None \<Rightarrow> dflt))"

definition int_field_of :: "opt_value option \<Rightarrow> (string \<times> string) list \<Rightarrow> string \<Rightarrow> int \<Rightarrow> int res" where
  "int_field_of flag env name dflt =
     (case flag of
        Some (IntVal i) \<Rightarrow> Inr i
      | _ \<Rightarrow> (case env_get env name of Some raw \<Rightarrow> int_of_str raw | None \<Rightarrow> Inr dflt))"

definition float_field_of ::
  "opt_value option \<Rightarrow> (string \<times> string) list \<Rightarrow> string \<Rightarrow> pyfloat \<Rightarrow> pyfloat res" where
  "float_field_of flag env name dflt =
     (case flag of
        Some (FloatVal q) \<Rightarrow> Inr q
      | _ \<Rightarrow> (case env_get env name of
               Some raw \<Rightarrow>
                 (case float_of_str raw of
                    Some q \<Rightarrow> Inr q
                  | None \<Rightarrow> Inl (ValueError (''could not convert string to float: '' @ repr_str raw)))
             | None \<Rightarrow> Inr dflt))"

definition config_of :: "(string \<times> opt_value) list \<Rightarrow> (string \<times> string) list \<Rightarrow> config res" where
  "config_of ns env =
     (let http = (case opt_str_field (dget ''--upstream-http'' ns) env ''UPSTREAM_HTTP'' None of
                    Some s \<Rightarrow> s | None \<Rightarrow> []) in
      if http = []
      then Inl (ConfigError ''--upstream-http (or EXEC_REST_API_UPSTREAM_HTTP) is required'')
      else
        bindE (case opt_str_field (dget ''--upstream-ws'' ns) env ''UPSTREAM_WS'' None of
                 Some s \<Rightarrow> Inr s | None \<Rightarrow> derive_ws_from_http http) (\<lambda>ws.
        (let level = str_field (dget ''--log-level'' ns) env ''LOG_LEVEL'' ''info'' in
         if level \<notin> set log_levels
         then Inl (ConfigError (''--log-level must be one of ''
                @ py_repr (JList (map JStr log_levels)) @ '', got '' @ repr_str level))
         else
           bindE (float_field_of (dget ''--upstream-timeout'' ns) env ''UPSTREAM_TIMEOUT'' (Fin 30)) (\<lambda>timeout.
           bindE (int_field_of (dget ''--default-page-size'' ns) env ''DEFAULT_PAGE_SIZE'' 1000) (\<lambda>dps.
           bindE (int_field_of (dget ''--max-page-size'' ns) env ''MAX_PAGE_SIZE'' 10000) (\<lambda>mps.
           bindE (int_field_of (dget ''--sse-buffer-bytes'' ns) env ''SSE_BUFFER_BYTES'' 65536) (\<lambda>buf.
           bindE (int_field_of (dget ''--sse-replay-window'' ns) env ''SSE_REPLAY_WINDOW'' 1024) (\<lambda>win.
           bindE (int_field_of (dget ''--sse-heartbeat-seconds'' ns) env ''SSE_HEARTBEAT_SECONDS'' 30) (\<lambda>beat.
           bindE (int_field_of (dget ''--ready-sync-lag'' ns) env ''READY_SYNC_LAG'' 10) (\<lambda>lag.
             Inr \<lparr>upstream_http = http, upstream_ws = ws,
                  listen = str_field (dget ''--listen'' ns) env ''LISTEN'' ''127.0.0.1:8080'',
                  upstream_timeout_seconds = timeout, default_page_size = dps, max_page_size = mps,
                  sse_buffer_bytes = buf, sse_replay_window = win, sse_heartbeat_seconds = beat,
                  ready_sync_lag = lag, log_level = level,
                  log_format = opt_str_field (dget ''--log-format'' ns) env ''LOG_FORMAT'' None,
                  metrics_enabled = (str_field (dget ''--metrics'' ns) env ''METRICS'' ''on'' = ''on'')\<rparr>))))))))))"

definition parse_config :: "string list \<Rightarrow> (string \<times> string) list \<Rightarrow> config res" where
  "parse_config argv env =
     (case parse_argv argv of
        Inl code \<Rightarrow> Inl (ConfigError (''Invalid arguments (exit code '' @ show_int code @ '')''))
      | Inr ns \<Rightarrow> config_of ns env)"

text \<open>\<open>_split_listen\<close>: the host and the port of the listen address.\<close>

definition split_listen :: "string \<Rightarrow> (string \<times> int) res" where
  "split_listen l =
     (let (host, port) = rpartition_on (CHR '':'') l in
      if host = [] \<or> port = []
      then Inl (ConfigError (''--listen must be host:port, got '' @ repr_str l))
      else (case int_of_str port of
              Inr p \<Rightarrow> Inr (host, p)
            | Inl e \<Rightarrow> Inl (ConfigError (''--listen port must be numeric, got '' @ repr_str port))))"

section \<open>Facts\<close>

definition numeric_env :: "string list" where
  "numeric_env = [''UPSTREAM_TIMEOUT'', ''DEFAULT_PAGE_SIZE'', ''MAX_PAGE_SIZE'', ''SSE_BUFFER_BYTES'',
     ''SSE_REPLAY_WINDOW'', ''SSE_HEARTBEAT_SECONDS'', ''READY_SYNC_LAG'']"

lemma int_field_of_exn:
  "int_field_of flag env name d = Inl e \<Longrightarrow> (\<exists>m. e = ValueError m) \<and> env_get env name \<noteq> None"
  by (auto simp: int_field_of_def dest: int_of_str_exn split: option.splits opt_value.splits)

lemma float_field_of_exn:
  "float_field_of flag env name d = Inl e \<Longrightarrow> (\<exists>m. e = ValueError m) \<and> env_get env name \<noteq> None"
  by (auto simp: float_field_of_def split: option.splits opt_value.splits)

lemma derive_ws_exn: "derive_ws_from_http u = Inl e \<Longrightarrow> \<exists>m. e = ConfigError m"
  by (auto simp: derive_ws_from_http_def split: if_splits)

lemma config_of_exn:
  assumes "config_of ns env = Inl e"
  shows "(\<exists>m. e = ConfigError m) \<or> ((\<exists>m. e = ValueError m) \<and> (\<exists>n \<in> set numeric_env. env_get env n \<noteq> None))"
  using assms unfolding config_of_def Let_def
  by (auto simp: bindE_eq_Inl_iff numeric_env_def dest: derive_ws_exn int_field_of_exn float_field_of_exn
      split: if_splits option.splits)

lemma config_of_values:
  assumes "config_of ns env = Inr c"
  shows "upstream_http c \<noteq> [] \<and> log_level c \<in> set log_levels
    \<and> Some (upstream_http c) = opt_str_field (dget ''--upstream-http'' ns) env ''UPSTREAM_HTTP'' None
    \<and> int_field_of (dget ''--default-page-size'' ns) env ''DEFAULT_PAGE_SIZE'' 1000 = Inr (default_page_size c)
    \<and> int_field_of (dget ''--max-page-size'' ns) env ''MAX_PAGE_SIZE'' 10000 = Inr (max_page_size c)
    \<and> (metrics_enabled c \<longleftrightarrow> str_field (dget ''--metrics'' ns) env ''METRICS'' ''on'' = ''on'')"
  using assms unfolding config_of_def Let_def
  by (auto simp: bindE_eq_Inr_iff split: if_splits option.splits)

lemma config_of_ws:
  assumes "config_of ns env = Inr c"
  shows "(case opt_str_field (dget ''--upstream-ws'' ns) env ''UPSTREAM_WS'' None of
            Some s \<Rightarrow> upstream_ws c = s
          | None \<Rightarrow> derive_ws_from_http (upstream_http c) = Inr (upstream_ws c))"
  using assms unfolding config_of_def Let_def
  by (auto simp: bindE_eq_Inr_iff split: if_splits option.splits)


end
