(* ===== verification/LogsApi.thy ===== *)
theory LogsApi
  imports BlocksApi Config
begin

text \<open>
  \<open>handlers/logs.py\<close>: log queries by range with cursor pagination and reorg detection, as a GET with
  query parameters and as a POST with a body. The facts: a cursor whose boundary block has changed
  is refused with a 409 before any log is fetched, and following the link of a page continues
  exactly after its last log.
\<close>

section \<open>Parameters\<close>

definition re_topic :: "string \<Rightarrow> bool" where
  "re_topic s = re_hex_len 64 s"

fun topics_from :: "request \<Rightarrow> nat list \<Rightarrow> string + json list" where
  "topics_from req [] = Inr []"
| "topics_from req (i # is) =
     (let k = ''topic'' @ show_int (int i) in
      case query_get req k of
        None \<Rightarrow> mapR ((#) JNull) (topics_from req is)
      | Some v \<Rightarrow>
          (if re_topic v then mapR ((#) (JStr (lower v))) (topics_from req is)
           else Inl (k @ '' must be 0x-prefixed 32-byte hex, got '' @ repr_str v)))"

text \<open>Trailing nulls are stripped.\<close>

definition strip_nulls :: "json list \<Rightarrow> json list" where
  "strip_nulls xs = rev (dropWhile (\<lambda>v. v = JNull) (rev xs))"

definition parse_topics :: "request \<Rightarrow> string + json list" where
  "parse_topics req = mapR strip_nulls (topics_from req [0, 1, 2, 3])"

definition detail_of :: "'a res \<Rightarrow> string + 'a" where
  "detail_of r = (case r of Inl e \<Rightarrow> Inl (exn_str e) | Inr a \<Rightarrow> Inr a)"

definition parse_addresses_csv :: "string option \<Rightarrow> string + string list option" where
  "parse_addresses_csv raw =
     (case raw of
        None \<Rightarrow> Inr None
      | Some s \<Rightarrow>
          (if s = [] then Inr None
           else mapR Some (mapE (\<lambda>p. detail_of (map_address_lowercase (JStr (strip p))))
                  (split_on (CHR '','') s))))"

definition build_filter :: "string list option \<Rightarrow> json list \<Rightarrow> dict" where
  "build_filter addresses topics =
     (case addresses of None \<Rightarrow> [] | Some a \<Rightarrow> [(''address'', JList (map JStr a))])
       @ (if topics = [] then [] else [(''topics'', JList topics)])"

definition address_entry :: "json \<Rightarrow> string + string" where
  "address_entry v =
     (if is_str v then detail_of (map_address_lowercase v) else Inl ''address entries must be strings'')"

definition validate_logfilter_address :: "json \<Rightarrow> string + string list" where
  "validate_logfilter_address v =
     (if v = JNull then Inr []
      else if is_str v then mapR (\<lambda>a. [a]) (detail_of (map_address_lowercase v))
      else (case v of
              JList xs \<Rightarrow> mapE address_entry xs
            | _ \<Rightarrow> Inl ''address must be string or array of strings''))"

definition topic_string :: "json \<Rightarrow> string + json" where
  "topic_string v =
     (case v of
        JStr s \<Rightarrow> (if re_topic s then Inr (JStr (lower s)) else Inl (''invalid topic: '' @ py_repr v))
      | _ \<Rightarrow> Inl (''invalid topic: '' @ py_repr v))"

definition topic_entry :: "json \<Rightarrow> string + json" where
  "topic_entry v =
     (case v of
        JNull \<Rightarrow> Inr JNull
      | JStr s \<Rightarrow> topic_string v
      | JUni u \<Rightarrow> topic_string v
      | JList ts \<Rightarrow> mapR JList (mapE topic_string ts)
      | _ \<Rightarrow> Inl (''invalid topic entry: '' @ py_repr v))"

definition validate_logfilter_topics :: "json \<Rightarrow> string + json list" where
  "validate_logfilter_topics v =
     (case v of
        JNull \<Rightarrow> Inr []
      | JList xs \<Rightarrow> mapE topic_entry xs
      | _ \<Rightarrow> Inl ''topics must be an array'')"

section \<open>Limits, cursors and ranges\<close>

definition with_limit :: "config \<Rightarrow> request \<Rightarrow> (int \<Rightarrow> response io) \<Rightarrow> response io" where
  "with_limit cfg req k =
     (case query_get req ''limit'' of
        None \<Rightarrow> k (min (default_page_size cfg) (max_page_size cfg))
      | Some raw \<Rightarrow>
          (let bad = retI (bad_request (req_path req)
                 (''limit must be a positive integer, got '' @ repr_str raw)) in
           case int_of_str raw of
             Inl e \<Rightarrow> bad
           | Inr n \<Rightarrow> (if n < 1 then bad else k (min n (max_page_size cfg)))))"

definition or_bad_cursor :: "request \<Rightarrow> 'c res \<Rightarrow> ('c \<Rightarrow> response io) \<Rightarrow> response io" where
  "or_bad_cursor req r k =
     (case r of
        Inr c \<Rightarrow> k c
      | Inl e \<Rightarrow>
          (if is_cursor_error e
           then retI (bad_request (req_path req) (''invalid cursor: '' @ exn_str e))
           else raiseI e))"

text \<open>Both ends parsed, then resolved, then compared.\<close>

definition with_range ::
  "request \<Rightarrow> block_id res \<Rightarrow> block_id res \<Rightarrow> (int \<Rightarrow> int \<Rightarrow> response io) \<Rightarrow> response io" where
  "with_range req from_bid to_bid k =
     or_bad is_block_id_error req (bindE from_bid (\<lambda>f. mapR (\<lambda>t. (f, t)) to_bid)) (\<lambda>(f, t).
       bindI (resolve_block_id f) (\<lambda>fr.
       bindI (resolve_block_id t) (\<lambda>tr.
         (case (fr, tr) of
            (Some from_b, Some to_b) \<Rightarrow>
              (if to_b < from_b
               then bindI (liftI (str_of_int from_b)) (\<lambda>fs.
                    bindI (liftI (str_of_int to_b)) (\<lambda>ts.
                      retI (bad_request (req_path req)
                        (''fromBlock ('' @ fs @ '') must be <= toBlock ('' @ ts @ '')''))))
               else k from_b to_b)
          | _ \<Rightarrow> retI (bad_request (req_path req) ''fromBlock/toBlock could not be resolved'')))))"

definition query_block_id :: "request \<Rightarrow> string \<Rightarrow> string \<Rightarrow> block_id res" where
  "query_block_id req k dflt =
     parse_block_id_str (case query_get req k of Some s \<Rightarrow> s | None \<Rightarrow> dflt)"

definition or_400 :: "request \<Rightarrow> string + 'a \<Rightarrow> ('a \<Rightarrow> response io) \<Rightarrow> response io" where
  "or_400 req r k = (case r of Inl msg \<Rightarrow> retI (bad_request (req_path req) msg) | Inr a \<Rightarrow> k a)"

section \<open>Reorg detection\<close>

definition chain_reorged :: "string \<Rightarrow> string \<Rightarrow> response" where
  "chain_reorged path detail = simple_problem 409 ''chain-reorged'' ''Chain reorganized'' detail path"

definition block_summary :: "int \<Rightarrow> json io" where
  "block_summary n = upstream_call ''eth_getBlockByNumber'' [JStr (''0x'' @ show_int_hex n), JBool False]"

definition verify_cursor_boundary :: "cursor \<Rightarrow> string \<Rightarrow> response option io" where
  "verify_cursor_boundary c path =
     bindI (block_summary (next_from_block c)) (\<lambda>rpc.
       if rpc = JNull
       then retI (Some (chain_reorged path (''block '' @ show_int (next_from_block c)
              @ '' no longer exists; restart the query'')))
       else liftI (bindE (bindE (jindex ''hash'' rpc) jlower) (\<lambda>h.
              bindE (jlower (boundary_block_hash c)) (\<lambda>b.
                Inr (if h \<noteq> b
                     then Some (chain_reorged path (''block '' @ show_int (next_from_block c)
                            @ '' hash changed since cursor was issued; restart the query''))
                     else None)))))"

section \<open>Pages\<close>

definition next_link :: "string \<Rightarrow> string \<Rightarrow> string \<times> string" where
  "next_link path c = (''Link'', ''</'' @ path @ ''?cursor='' @ c @ ''>; rel='' @ [CHR 0x22] @ ''next'' @ [CHR 0x22])"

definition boundary_cursor :: "pagination_result \<Rightarrow> int \<Rightarrow> int \<Rightarrow> dict \<Rightarrow> json \<Rightarrow> string res" where
  "boundary_cursor r b to_b flt rpc =
     bindE (bindE (jindex ''hash'' rpc) jlower) (\<lambda>h.
       encode_cursor \<lparr>next_from_block = b, last_log_index = pr_last_log_index r, to_block = to_b,
         boundary_block_hash = h, cursor_filter = flt\<rparr>)"

definition logs_page :: "string \<Rightarrow> int \<Rightarrow> dict \<Rightarrow> int \<Rightarrow> int \<Rightarrow> int \<Rightarrow> response io" where
  "logs_page path limit flt from_b to_b skip =
     bindI (fetch_logs_paginated flt from_b to_b limit skip) (\<lambda>r.
     bindI (liftI (mapE log_from_rpc (pr_items r))) (\<lambda>items.
       (let size = (''X-Page-Size'', show_int limit) in
        case pr_next_from_block r of
          None \<Rightarrow> liftI (json_reply 200 [size] (JList items))
        | Some b \<Rightarrow>
            bindI (block_summary b) (\<lambda>rpc.
              if rpc = JNull then liftI (json_reply 200 [size] (JList items))
              else liftI (bindE (boundary_cursor r b to_b flt rpc) (\<lambda>c.
                     json_reply 200 [size, next_link path c] (JList items)))))))"

definition resume_logs :: "string \<Rightarrow> request \<Rightarrow> int \<Rightarrow> string \<Rightarrow> response io" where
  "resume_logs path req limit raw =
     or_bad_cursor req (decode_cursor raw) (\<lambda>c.
       bindI (verify_cursor_boundary c (req_path req)) (\<lambda>reorg.
         (case reorg of
            Some resp \<Rightarrow> retI resp
          | None \<Rightarrow> logs_page path limit (cursor_filter c) (next_from_block c) (to_block c)
                     (last_log_index c))))"

definition get_logs :: "config \<Rightarrow> request \<Rightarrow> response io" where
  "get_logs cfg req =
     with_limit cfg req (\<lambda>limit.
       (case query_get req ''cursor'' of
          Some raw \<Rightarrow> resume_logs ''logs'' req limit raw
        | None \<Rightarrow>
            with_range req (query_block_id req ''fromBlock'' ''earliest'')
              (query_block_id req ''toBlock'' ''latest'') (\<lambda>from_b to_b.
            or_400 req (parse_addresses_csv (query_get req ''address'')) (\<lambda>addresses.
            or_400 req (parse_topics req) (\<lambda>topics.
              logs_page ''logs'' limit (build_filter addresses topics) from_b to_b (-1))))))"

definition post_logs_search :: "config \<Rightarrow> request \<Rightarrow> response io" where
  "post_logs_search cfg req =
     with_limit cfg req (\<lambda>limit.
       (case query_get req ''cursor'' of
          Some raw \<Rightarrow> resume_logs ''logs/search'' req limit raw
        | None \<Rightarrow>
            with_json req (\<lambda>bod. with_object req bod (\<lambda>d.
            or_400 req (validate_logfilter_address (dget_or ''address'' JNull d)) (\<lambda>addresses.
            or_400 req (validate_logfilter_topics (dget_or ''topics'' JNull d)) (\<lambda>topics.
            with_range req (parse_block_id (dget_or ''fromBlock'' (JStr ''earliest'') d))
              (parse_block_id (dget_or ''toBlock'' (JStr ''latest'') d)) (\<lambda>from_b to_b.
              logs_page ''logs/search'' limit
                ((if addresses = [] then [] else [(''address'', JList (map JStr addresses))])
                  @ (if topics = [] then [] else [(''topics'', JList topics)])) from_b to_b (-1))))))))"

section \<open>Facts\<close>

lemma history_fetch_loop: "history_step w (snd (fetch_loop flt to_b limit su items cur chunk sb net w))"
proof (induction flt to_b limit su items cur chunk sb net w rule: fetch_loop.induct)
  case (1 flt to_b limit su items cur chunk sb net w)
  let ?e = "min (cur + chunk - 1) to_b"
  have rq: "history_step w (snd (request_page flt cur ?e net w))"
  proof -
    have "keeps history_step (request_page flt cur ?e)"
      unfolding request_page_def by (intro history_rules)
    then show ?thesis by (simp add: keeps_def)
  qed
  show ?case
    using 1 rq
    by (subst fetch_loop.simps)
      (auto simp: Let_def history_step_refl split: prod.splits sum.splits option.splits
        intro: history_step_trans)
qed

lemma history_fetch_logs [history_rules]: "keeps history_step (fetch_logs_paginated flt f t l su)"
  by (simp add: keeps_def fetch_logs_paginated_def history_fetch_loop)

lemma history_limit [history_rules]:
  "(\<And>l. keeps history_step (k l)) \<Longrightarrow> keeps history_step (with_limit cfg req k)"
  unfolding with_limit_def Let_def by (intro history_rules)

lemma history_bad_cursor [history_rules]:
  "(\<And>c. keeps history_step (k c)) \<Longrightarrow> keeps history_step (or_bad_cursor req r k)"
  unfolding or_bad_cursor_def by (intro history_rules)

lemma history_range [history_rules]:
  "(\<And>a b. keeps history_step (k a b)) \<Longrightarrow> keeps history_step (with_range req f t k)"
  unfolding with_range_def
  by (auto intro!: history_rules resolve_block_id_history split: option.splits)

lemma history_or_400 [history_rules]:
  "(\<And>a. keeps history_step (k a)) \<Longrightarrow> keeps history_step (or_400 req r k)"
  unfolding or_400_def by (intro history_rules)

lemma history_block_summary [history_rules]: "keeps history_step (block_summary n)"
  unfolding block_summary_def by (intro history_rules)

lemma history_logs_page [history_rules]: "keeps history_step (logs_page path limit flt f t su)"
  unfolding logs_page_def Let_def by (intro history_rules)

lemma history_resume_logs [history_rules]: "keeps history_step (resume_logs path req limit raw)"
  unfolding resume_logs_def verify_cursor_boundary_def by (intro history_rules)

lemma logs_history [history_rules]:
  "keeps history_step (get_logs cfg req)" "keeps history_step (post_logs_search cfg req)"
  unfolding get_logs_def post_logs_search_def by (intro history_rules)+

lemma bindI_Inr_iff:
  "bindI m f net w = (Inr b, w') \<longleftrightarrow> (\<exists>a w1. m net w = (Inr a, w1) \<and> f a net w1 = (Inr b, w'))"
  by (auto simp: bindI_def split: prod.splits sum.splits)

lemma liftI_Inr_iff: "liftI r net w = (Inr b, w') \<longleftrightarrow> r = Inr b \<and> w' = w"
  by (auto simp: liftI_def)

lemma logs_page_status: "logs_page path limit flt f t su net w = (Inr resp, w') \<Longrightarrow> resp_status resp = 200"
  unfolding logs_page_def Let_def
  by (auto simp: bindI_Inr_iff liftI_Inr_iff json_reply_Inr_iff res_iffs split: option.splits if_splits)

text \<open>What the check of the boundary answers, given the block the upstream has there.\<close>

definition boundary_moved :: "cursor \<Rightarrow> json \<Rightarrow> bool" where
  "boundary_moved c rpc =
     (rpc = JNull \<or> bindE (jindex ''hash'' rpc) jlower \<noteq> jlower (boundary_block_hash c))"

lemma resume_logs_status:
  assumes "decode_cursor raw = Inr c" "block_summary (next_from_block c) net w = (Inr rpc, w1)"
    and "resume_logs path req limit raw net w = (Inr resp, w')"
  shows "if boundary_moved c rpc then resp_status resp = 409 \<and> w' = w1 else resp_status resp = 200"
proof -
  have v: "bindI (verify_cursor_boundary c (req_path req)) (\<lambda>reorg.
         (case reorg of
            Some resp \<Rightarrow> retI resp
          | None \<Rightarrow> logs_page path limit (cursor_filter c) (next_from_block c) (to_block c)
                     (last_log_index c))) net w = (Inr resp, w')"
    using assms by (simp add: resume_logs_def or_bad_cursor_def)
  show ?thesis
  proof (cases "rpc = JNull")
    case True
    with v assms(2) show ?thesis
      by (auto simp: verify_cursor_boundary_def bindI_def retI_def boundary_moved_def
          chain_reorged_def simple_problem_def)
  next
    case False
    define h where "h = bindE (jindex ''hash'' rpc) jlower"
    define b where "b = jlower (boundary_block_hash c)"
    have vc: "verify_cursor_boundary c (req_path req) net w =
        (bindE h (\<lambda>h. bindE b (\<lambda>b. Inr (if h \<noteq> b
            then Some (chain_reorged (req_path req) (''block '' @ show_int (next_from_block c)
              @ '' hash changed since cursor was issued; restart the query'')) else None))), w1)"
      using False assms(2) by (simp add: verify_cursor_boundary_def bindI_def liftI_def h_def b_def)
    obtain x y where xy: "h = Inr x" "b = Inr y"
      using v vc by (cases h; cases b) (simp_all add: bindI_def)
    have "boundary_moved c rpc = (x \<noteq> y)"
      using False xy by (simp add: boundary_moved_def h_def b_def)
    moreover have "bindI (verify_cursor_boundary c (req_path req)) k net w =
        k (if x \<noteq> y then Some (chain_reorged (req_path req) (''block '' @ show_int (next_from_block c)
              @ '' hash changed since cursor was issued; restart the query'')) else None) net w1" for k :: "response option \<Rightarrow> response io"
      using vc xy by (simp add: bindI_def)
    ultimately show ?thesis
      using v logs_page_status by (cases "x = y") (auto simp: retI_def chain_reorged_def simple_problem_def)
  qed
qed

text \<open>An upstream whose blocks keep their hashes, and logs that convert and fit into a cursor.\<close>

definition stable_hashes :: "net \<Rightarrow> (int \<Rightarrow> string) \<Rightarrow> bool" where
  "stable_hashes net hs \<longleftrightarrow> (\<forall>w n. 0 \<le> n \<longrightarrow>
     (\<exists>d. fst (block_summary n net w) = Inr (JObj d) \<and> dget ''hash'' d = Some (JStr (hs n))))"

definition codable_log :: "json \<Rightarrow> bool" where
  "codable_log l \<longleftrightarrow> json_plain (JInt (blk l)) \<and> json_plain (JInt (idx l))
     \<and> (\<exists>v. log_from_rpc l = Inr v \<and> dumpable v)"

lemma stable_hashes_at:
  assumes "stable_hashes net hs" "0 \<le> n"
  obtains d w' where "block_summary n net w = (Inr (JObj d), w')" "dget ''hash'' d = Some (JStr (hs n))"
  using assms unfolding stable_hashes_def by (metis prod.collapse)

definition cursor_at :: "pagination_result \<Rightarrow> int \<Rightarrow> int \<Rightarrow> dict \<Rightarrow> string \<Rightarrow> cursor" where
  "cursor_at r b to_b flt h =
     \<lparr>next_from_block = b, last_log_index = pr_last_log_index r, to_block = to_b,
      boundary_block_hash = JStr (lower h), cursor_filter = flt\<rparr>"

lemma mapE_append: "mapE f xs = Inr us \<Longrightarrow> mapE f ys = Inr vs \<Longrightarrow> mapE f (xs @ ys) = Inr (us @ vs)"
  by (induction xs arbitrary: us) (auto simp: res_iffs)

lemma codable_items:
  assumes "list_all codable_log ls"
  obtains xs where "mapE log_from_rpc ls = Inr xs" "dumpable (JList xs)"
proof -
  have "\<exists>xs. mapE log_from_rpc ls = Inr xs \<and> list_all dumpable xs"
    using assms by (induction ls) (auto simp: codable_log_def)
  then show thesis using that by auto
qed

lemma next_link_simps [simp]:
  "next_link path s = next_link path t \<longleftrightarrow> s = t" "next_link path s \<noteq> (''X-Page-Size'', v)"
  by (simp_all add: next_link_def)

lemma logs_page_ok:
  assumes fetch: "fetch_logs_paginated flt f to_b limit su net w = (Inr r, w0)"
    and items: "list_all codable_log (pr_items r)" and stable: "stable_hashes net hs"
    and next_ok: "\<And>b. pr_next_from_block r = Some b \<Longrightarrow> 0 \<le> b \<and> cursor_ok (cursor_at r b to_b flt (hs b))"
  shows "\<exists>resp w1 xs. logs_page path limit flt f to_b su net w = (Inr resp, w1) \<and> resp_status resp = 200
    \<and> resp_body resp = JsonBody (JList xs) \<and> mapE log_from_rpc (pr_items r) = Inr xs
    \<and> (\<forall>s. next_link path s \<in> set (resp_headers resp) \<longleftrightarrow>
          (\<exists>b. pr_next_from_block r = Some b \<and> encode_cursor (cursor_at r b to_b flt (hs b)) = Inr s))"
proof -
  obtain xs where xs: "mapE log_from_rpc (pr_items r) = Inr xs" "dumpable (JList xs)"
    using codable_items [OF items] .
  show ?thesis
  proof (cases "pr_next_from_block r")
    case None
    then show ?thesis using fetch xs
      by (simp add: logs_page_def bindI_def liftI_def json_reply_def)
  next
    case (Some b)
    obtain d w' where d: "block_summary b net w0 = (Inr (JObj d), w')" "dget ''hash'' d = Some (JStr (hs b))"
      using stable_hashes_at [OF stable] next_ok [OF Some] by blast
    obtain s where s: "encode_cursor (cursor_at r b to_b flt (hs b)) = Inr s"
      using encode_decode_cursor next_ok [OF Some] by blast
    then have "boundary_cursor r b to_b flt (JObj d) = Inr s"
      using d(2) by (simp add: boundary_cursor_def cursor_at_def)
    then show ?thesis using fetch xs Some d s
      by (auto simp: logs_page_def Let_def bindI_def liftI_def json_reply_def)
  qed
qed

lemma resume_logs_ok:
  assumes "decode_cursor raw = Inr (cursor_at r b to_b flt (hs b))" "stable_hashes net hs" "0 \<le> b"
  shows "\<exists>v. resume_logs path req limit raw net w
      = logs_page path limit flt b to_b (pr_last_log_index r) net v"
proof -
  obtain d w' where d: "block_summary b net w = (Inr (JObj d), w')" "dget ''hash'' d = Some (JStr (hs b))"
    using stable_hashes_at [OF assms(2,3)] by blast
  then show ?thesis
    using assms(1)
    by (simp add: resume_logs_def or_bad_cursor_def verify_cursor_boundary_def cursor_at_def
        bindI_def liftI_def)
      (rule exI [of _ w'], simp)
qed

section \<open>A sample chain\<close>

definition sample_config :: config where
  "sample_config = \<lparr>upstream_http = ''http://up'', upstream_ws = ''ws://up'', listen = ''127.0.0.1:8080'',
     upstream_timeout_seconds = Fin 30, default_page_size = 1000, max_page_size = 10000,
     sse_buffer_bytes = 65536, sse_replay_window = 1024, sse_heartbeat_seconds = 30,
     ready_sync_lag = 10, log_level = ''info'', log_format = None, metrics_enabled = True\<rparr>"

definition cursor_request :: "string \<Rightarrow> request" where
  "cursor_request c = \<lparr>req_method = ''GET'', req_path = ''/logs'', match_info = [],
     query = [(''cursor'', c)], req_headers = [], req_body = []\<rparr>"

definition is_method :: "string \<Rightarrow> json \<Rightarrow> bool" where
  "is_method m b = (jindex ''method'' b = Inr (JStr m))"

definition chain_net :: "json list \<Rightarrow> net" where
  "chain_net ls = \<lparr>reply = \<lambda>h.
     (if is_method ''eth_getLogs'' (last h) then reply (log_net 2 ls) h
      else HttpReply 200 (Inr (JObj [(''result'', JObj [(''hash'', JStr ''0xAB'')])]))), ends = \<lambda>h i. i\<rparr>"

definition sample_logs :: "json list" where
  "sample_logs = [rpc_log sample_address [] ''0x'' ''0x1'' 3 ''0x2'' 0 0 False,
                  rpc_log sample_address [] ''0x'' ''0x1'' 3 ''0x2'' 0 1 False]"

lemma is_method_body [simp]: "is_method m (rpc_body i m' ps) = (m' = m)"
  by (simp add: is_method_def rpc_body_def)

lemma chain_net_serves: "serves (chain_net ls) [] ls"
proof -
  have "fst (request_page [] a b (chain_net ls) w) = fst (request_page [] a b (log_net 2 ls) w)"
    if "0 \<le> a" "a \<le> b" for a b w
  proof -
    from that have "0 \<le> b" by simp
    with that(1) obtain m n where mn: "a = int m" "b = int n" by (meson nonneg_int_cases)
    have d: "list_all dumpable [JObj (page_params [] (hex_quantity m) (hex_quantity n))]"
      by (simp add: page_params_def)
    have "request_page [] a b net w = upstream_call ''eth_getLogs''
        [JObj (page_params [] (hex_quantity m) (hex_quantity n))] net w" for net
      by (simp add: request_page_def bindI_def liftI_def mn)
    moreover have "reply (chain_net ls) (h @ [rpc_body i ''eth_getLogs'' ps])
        = reply (log_net 2 ls) (h @ [rpc_body i ''eth_getLogs'' ps])" for h i ps
      by (simp add: chain_net_def)
    ultimately show ?thesis by (simp only: upstream_call_dumpable [OF d] fst_conv)
  qed
  then show ?thesis
    using log_net_serves [of 2 "[]" ls] by (simp add: serves_def)
qed

lemma chain_net_hashes: "stable_hashes (chain_net ls) (\<lambda>n. ''0xAB'')"
  by (simp add: stable_hashes_def block_summary_def upstream_call_dumpable chain_net_def
      read_outcome_def read_payload_def)

lemma rpc_log_facts [simp]:
  "good_log (rpc_log a ts dt bh bn th ti li rm)" "blk (rpc_log a ts dt bh bn th ti li rm) = int bn"
  "idx (rpc_log a ts dt bh bn th ti li rm) = int li"
  by (simp_all add: good_log_def blk_def idx_def rpc_log_def)

lemma sample_logs_ok: "in_order sample_logs" "list_all codable_log sample_logs"
  by (simp_all add: in_order_def sample_logs_def codable_log_def log_from_rpc_log
      sample_address_ok small_plain)

section \<open>Properties\<close>



text \<open>
  Following the link of a page loses nothing and repeats nothing. On a fixed chain whose blocks
  keep their hashes, if a page of \<open>/logs\<close> carries the link with a cursor, then a request with that
  cursor is answered, and the two bodies together are the conversions of the first matching logs,
  as many as both limits allow.
\<close>

lemma next_link_continues:
  assumes "in_order ls" "serves net flt ls" "list_all codable_log ls" "stable_hashes net hs"
    and "json_plain (JObj flt)" "json_plain (JInt to_b)" "0 \<le> from_b" "1 \<le> limit"
    and "logs_page ''logs'' limit flt from_b to_b su net w = (Inr resp, w1)"
    and "next_link ''logs'' s \<in> set (resp_headers resp)"
    and "query_get req ''cursor'' = Some s" "query_get req ''limit'' = None"
    and "1 \<le> default_page_size cfg" "1 \<le> max_page_size cfg"
  shows "\<exists>resp2 w2 xs ys. get_logs cfg req net w1 = (Inr resp2, w2) \<and> resp_status resp2 = 200
    \<and> resp_body resp = JsonBody (JList xs) \<and> resp_body resp2 = JsonBody (JList ys)
    \<and> mapE log_from_rpc (take (nat limit + nat (min (default_page_size cfg) (max_page_size cfg)))
          (wanted from_b to_b su ls)) = Inr (xs @ ys)"
proof -
  let ?L = "wanted from_b to_b su ls" and ?n = "min (default_page_size cfg) (max_page_size cfg)"
  have plain_wanted: "list_all codable_log (take k (wanted f t u ls))" for k f t u
    using assms(3) by (auto simp: list_all_iff wanted_def dest: in_set_takeD)
  have cur_ok: "0 \<le> b \<and> cursor_ok (cursor_at r b to_b flt (hs b))"
    if "l \<in> set ls" "b = blk l" "pr_last_log_index r = idx l" for l r b
    using that assms(1,3,5,6)
    by (auto simp: in_order_def list_all_iff codable_log_def cursor_ok_def cursor_at_def
        cursor_payload_def dest: good_log_nonneg)
  obtain r w0 where r: "fetch_logs_paginated flt from_b to_b limit su net w = (Inr r, w0)"
    "pr_items r = take (nat limit) ?L"
    using fetch_logs_spec [OF assms(1,2,7,8)] by blast
  have nx: "\<exists>l \<in> set ls. b = blk l \<and> pr_last_log_index r = idx l" if "pr_next_from_block r = Some b" for b
    using fetch_logs_continue [OF assms(1,2,7,8,8) r(1) that] by blast
  obtain xs where xs: "resp_body resp = JsonBody (JList xs)" "mapE log_from_rpc (pr_items r) = Inr xs"
    and link: "\<exists>b. pr_next_from_block r = Some b \<and> encode_cursor (cursor_at r b to_b flt (hs b)) = Inr s"
    using logs_page_ok [OF r(1) _ assms(4), where path = "''logs''"] r(2) plain_wanted nx cur_ok assms(9,10)
    by fastforce
  then obtain b l where b: "pr_next_from_block r = Some b" "l \<in> set ls" "b = blk l" "pr_last_log_index r = idx l"
    using nx by blast
  have dec: "decode_cursor s = Inr (cursor_at r b to_b flt (hs b))"
    using encode_decode_cursor [of "cursor_at r b to_b flt (hs b)"] cur_ok b link by fastforce
  obtain v where v: "resume_logs ''logs'' req ?n s net w1
      = logs_page ''logs'' ?n flt b to_b (pr_last_log_index r) net v"
    using resume_logs_ok [OF dec assms(4)] cur_ok b by blast
  have n: "1 \<le> ?n" using assms(13,14) by simp
  obtain r2 w2 where r2: "fetch_logs_paginated flt b to_b ?n (pr_last_log_index r) net v = (Inr r2, w2)"
    "pr_items r @ pr_items r2 = take (nat limit + nat ?n) ?L"
    using fetch_logs_continue [OF assms(1,2,7,8) n r(1) b(1), of v] by blast
  have "0 \<le> b" using cur_ok b by blast
  have nx2: "\<exists>l \<in> set ls. b' = blk l \<and> pr_last_log_index r2 = idx l" if "pr_next_from_block r2 = Some b'" for b'
    using fetch_logs_continue [OF assms(1,2) \<open>0 \<le> b\<close> n n r2(1) that] by blast
  have "list_all codable_log (pr_items r2)"
    using plain_wanted [of "nat limit + nat ?n"] r2(2) by (metis list_all_append)
  from logs_page_ok [OF r2(1) this assms(4), where path = "''logs''"]
  obtain resp2 w3 ys where "logs_page ''logs'' ?n flt b to_b (pr_last_log_index r) net v = (Inr resp2, w3)"
    "resp_status resp2 = 200" "resp_body resp2 = JsonBody (JList ys)" "mapE log_from_rpc (pr_items r2) = Inr ys"
    using nx2 cur_ok by blast
  moreover have "get_logs cfg req net w1 = resume_logs ''logs'' req ?n s net w1"
    using assms(11,12) by (simp add: get_logs_def with_limit_def)
  moreover have "mapE log_from_rpc (take (nat limit + nat ?n) ?L) = Inr (xs @ ys)"
    using xs(2) calculation(4) r2(2) by (metis mapE_append)
  ultimately show ?thesis using xs(1) v by auto
qed

lemma next_link_continues_witness:
  "\<exists>resp w1 c resp2 w2 xs ys.
     logs_page ''logs'' 1 [] 0 10 (-1) (chain_net sample_logs) fresh = (Inr resp, w1)
     \<and> get_logs sample_config (cursor_request c) (chain_net sample_logs) w1 = (Inr resp2, w2)
     \<and> resp_body resp = JsonBody (JList xs) \<and> resp_body resp2 = JsonBody (JList ys)
     \<and> mapE log_from_rpc sample_logs = Inr (xs @ ys)"
proof -
  let ?net = "chain_net sample_logs"
  have L: "wanted 0 10 (-1) sample_logs = sample_logs"
    by (simp add: wanted_def sample_logs_def)
  obtain r w0 where r: "fetch_logs_paginated [] 0 10 1 (-1) ?net fresh = (Inr r, w0)"
    "pr_items r = take 1 sample_logs" "pr_next_from_block r = Some 3" "pr_last_log_index r = 0"
    using fetch_logs_spec [OF sample_logs_ok(1) chain_net_serves, of 0 1 10 "-1" fresh] L
    by (auto simp: sample_logs_def)
  have ok: "cursor_ok (cursor_at r 3 10 [] ''0xAB'')"
    by (simp add: cursor_ok_def cursor_at_def cursor_payload_def r(4) small_plain)
  then obtain s where "encode_cursor (cursor_at r 3 10 [] ''0xAB'') = Inr s"
    using encode_decode_cursor by blast
  then obtain resp w1 where p: "logs_page ''logs'' 1 [] 0 10 (-1) ?net fresh = (Inr resp, w1)"
    "next_link ''logs'' s \<in> set (resp_headers resp)"
    using logs_page_ok [OF r(1) _ chain_net_hashes, where path = "''logs''"] r ok sample_logs_ok(2)
    by (auto simp: sample_logs_def)
  have n: "min (default_page_size sample_config) (max_page_size sample_config) = 1000"
    by (simp add: sample_config_def)
  have "take (nat 1 + nat 1000) sample_logs = sample_logs" by (simp add: sample_logs_def)
  with next_link_continues [OF sample_logs_ok(1) chain_net_serves sample_logs_ok(2) chain_net_hashes
      _ _ _ _ p, of "cursor_request s" sample_config] n L p(1)
  show ?thesis
    by (auto simp: cursor_request_def query_get_def small_plain sample_config_def)
qed

end
