(* ===== verification/ComputedApi.thy ===== *)
theory ComputedApi
  imports Requests
begin

text \<open>
  \<open>handlers/computed.py\<close>: the conversion of a REST call request into a JSON-RPC call object and the
  five endpoints that execute a call without submitting it. The facts: what a converted request
  holds, and that a reverted execution is always a 200 with the decoded revert, never an error.
\<close>

section \<open>Converting a call request\<close>

definition hex_of_input :: "json \<Rightarrow> json res" where
  "hex_of_input v = mapR JStr (bindE (parse_input_int v) decimal_to_hex)"

definition hex_of_wei :: "json \<Rightarrow> json res" where
  "hex_of_wei v = mapR JStr (bindE (parse_input_wei v) decimal_to_hex)"

definition hex_bytes_field :: "string \<Rightarrow> json \<Rightarrow> json res" where
  "hex_bytes_field f v =
     (case v of
        JStr s \<Rightarrow>
          (if re_hex_bytes s then Inr (JStr (lower s))
           else Inl (ValueError (''field '' @ repr_str f @ '' must be 0x-prefixed hex bytes (even length)'')))
      | _ \<Rightarrow> Inl (ValueError (''field '' @ repr_str f @ '' must be 0x-prefixed hex bytes (even length)'')))"

definition convert_addresses :: "json \<Rightarrow> dict res" where
  "convert_addresses bod =
     pieces [when_present ''from'' address_field bod, when_present ''to'' address_field bod]"

definition convert_numeric :: "json \<Rightarrow> dict res" where
  "convert_numeric bod =
     pieces [when_present ''gas'' hex_of_input bod, when_present ''nonce'' hex_of_input bod,
             when_present ''chainId'' hex_of_input bod, when_present ''gasPrice'' hex_of_wei bod,
             when_present ''maxFeePerGas'' hex_of_wei bod,
             when_present ''maxPriorityFeePerGas'' hex_of_wei bod,
             when_present ''value'' hex_of_wei bod]"

definition convert_bytes :: "json \<Rightarrow> dict res" where
  "convert_bytes bod = pieces [when_present ''data'' (hex_bytes_field ''data'') bod]"

text \<open>The keys of an entry are converted before its address.\<close>

definition storage_key :: "json \<Rightarrow> json res" where
  "storage_key k =
     (if \<not> is_str k then Inl (ValueError ''accessList storageKey entries must be strings'')
      else jlower k)"

definition convert_access_entry :: "json \<Rightarrow> json res" where
  "convert_access_entry entry =
     (case entry of
        JObj e \<Rightarrow>
          (case dget ''address'' e of
             None \<Rightarrow> Inl (ValueError ''accessList entry missing `address`'')
           | Some addr \<Rightarrow>
               (case dget_or ''storageKeys'' (JList []) e of
                  JList ks \<Rightarrow>
                    bindE (mapE storage_key ks) (\<lambda>keys.
                    bindE (address_field addr) (\<lambda>a.
                      Inr (JObj [(''address'', a), (''storageKeys'', JList keys)])))
                | _ \<Rightarrow> Inl (ValueError ''accessList `storageKeys` must be an array'')))
      | _ \<Rightarrow> Inl (ValueError ''accessList entries must be objects''))"

definition convert_access_items :: "json \<Rightarrow> json res" where
  "convert_access_items al =
     (case al of
        JList xs \<Rightarrow> mapR JList (mapE convert_access_entry xs)
      | _ \<Rightarrow> Inl (ValueError ''accessList must be an array''))"

definition convert_access_list :: "json \<Rightarrow> dict res" where
  "convert_access_list bod = when_got ''accessList'' convert_access_items bod"

text \<open>\<open>{k.lower(): v.lower() for k, v in d.items()}\<close>: a later key that lowers to the same text wins.\<close>

fun lower_items :: "dict \<Rightarrow> dict \<Rightarrow> dict res" where
  "lower_items acc [] = Inr acc"
| "lower_items acc ((k, v) # d) = bindE (jlower v) (\<lambda>x. lower_items (dset (lower k) x acc) d)"

definition lower_state :: "json \<Rightarrow> json res" where
  "lower_state v = (case v of JObj d \<Rightarrow> mapR JObj (lower_items [] d) | _ \<Rightarrow> Inl AttributeError)"

definition convert_override :: "json \<Rightarrow> json res" where
  "convert_override ov = mapR JObj (pieces
     [when_present ''balance'' hex_of_wei ov, when_present ''nonce'' hex_of_input ov,
      when_present ''code'' jlower ov, when_present ''state'' lower_state ov,
      when_present ''stateDiff'' lower_state ov])"

fun convert_overrides :: "dict \<Rightarrow> dict \<Rightarrow> dict res" where
  "convert_overrides acc [] = Inr acc"
| "convert_overrides acc ((addr, ov) # so) =
     (if \<not> is_dict ov
      then Inl (ValueError (''stateOverride for '' @ addr @ '' must be an object''))
      else bindE (convert_override ov) (\<lambda>o'.
           bindE (map_address_lowercase (JStr addr)) (\<lambda>a. convert_overrides (dset a o' acc) so)))"

definition convert_override_set :: "json \<Rightarrow> json res" where
  "convert_override_set so =
     (case so of
        JObj d \<Rightarrow> mapR JObj (convert_overrides [] d)
      | _ \<Rightarrow> Inl (ValueError ''stateOverrides must be an object''))"

definition convert_state_overrides :: "json \<Rightarrow> dict res" where
  "convert_state_overrides bod = when_got ''stateOverrides'' convert_override_set bod"

definition convert_block_override :: "json \<Rightarrow> json res" where
  "convert_block_override bo =
     (if \<not> is_dict bo then Inl (ValueError ''blockOverrides must be an object'')
      else mapR JObj (pieces
        [when_present ''number'' hex_of_input bo, when_present ''timestamp'' hex_of_input bo,
         when_present ''gasLimit'' hex_of_input bo, when_present ''baseFeePerGas'' hex_of_wei bo,
         when_present ''difficulty'' hex_of_wei bo, when_present ''coinbase'' address_field bo,
         when_present ''random'' jlower bo]))"

definition convert_block_overrides :: "json \<Rightarrow> dict res" where
  "convert_block_overrides bod = when_got ''blockOverrides'' convert_block_override bod"

definition call_request_to_rpc :: "json \<Rightarrow> (json \<times> json) res" where
  "call_request_to_rpc bod =
     (case bod of
        JObj d \<Rightarrow>
          bindE (pieces [convert_addresses bod, convert_numeric bod, convert_bytes bod,
                         convert_access_list bod, convert_state_overrides bod,
                         convert_block_overrides bod]) (\<lambda>out.
            (let at_raw = dget_or ''at'' (JStr ''latest'') d in
             if \<not> is_str at_raw then Inl (ValueError ''`at` must be a string block identifier'')
             else mapR (\<lambda>b. (JObj out, rpc_param b)) (parse_block_id at_raw)))
      | _ \<Rightarrow> Inl (ValueError ''CallRequest must be an object''))"

section \<open>The endpoints\<close>

definition value_or_key_error :: "exn \<Rightarrow> bool" where
  "value_or_key_error e = (is_value_error e \<or> is_key_error e)"

definition with_call_request :: "request \<Rightarrow> (json \<Rightarrow> json \<Rightarrow> response io) \<Rightarrow> response io" where
  "with_call_request req k =
     with_json req (\<lambda>bod. or_bad value_or_key_error req (call_request_to_rpc bod) (\<lambda>(c, at_p). k c at_p))"

text \<open>The upstream call of an endpoint: a revert is answered here, everything else goes on.\<close>

definition revert_reply :: "exn \<Rightarrow> (response + json) io" where
  "revert_reply e =
     (case e of
        UpstreamJsonRpcError c m d \<Rightarrow>
          (let err = \<lparr>err_code = c, err_message = m, err_data = d\<rparr> in
           if is_revert err \<or> is_out_of_gas err
           then bindI (reply_json (Inr (revert_body err))) (\<lambda>r. retI (Inl r))
           else raiseI e)
      | _ \<Rightarrow> raiseI e)"

definition call_or_revert :: "string \<Rightarrow> json list \<Rightarrow> (json \<Rightarrow> response io) \<Rightarrow> response io" where
  "call_or_revert meth ps k =
     bindI (catchI (bindI (upstream_call meth ps) (\<lambda>v. retI (Inr v))) revert_reply)
       (\<lambda>x. case x of Inl resp \<Rightarrow> retI resp | Inr v \<Rightarrow> k v)"

definition call_endpoint :: "request \<Rightarrow> response io" where
  "call_endpoint req =
     with_call_request req (\<lambda>c at_p.
       call_or_revert ''eth_call'' [c, at_p] (\<lambda>r.
         if \<not> is_str r then retI (upstream_problem (req_path req) ''eth_call returned non-string result'')
         else reply_json (mapR (\<lambda>x. JObj [(''data'', x)]) (jlower r))))"

definition gas_estimate :: "request \<Rightarrow> response io" where
  "gas_estimate req =
     with_call_request req (\<lambda>c at_p.
       call_or_revert ''eth_estimateGas'' [c, at_p] (\<lambda>r.
         if \<not> is_str r
         then retI (upstream_problem (req_path req) ''eth_estimateGas returned non-string result'')
         else reply_json (mapR (\<lambda>x. JObj [(''gas'', x)]) (int_field r))))"

definition access_list_body :: "json \<Rightarrow> json res" where
  "access_list_body r = mapR JObj (pieces
     [field ''accessList'' (get_or_empty ''accessList'' access_entry r),
      field ''gasUsed'' (at_key ''gasUsed'' int_field r),
      when_present ''error'' Inr r])"

definition access_list :: "request \<Rightarrow> response io" where
  "access_list req =
     with_call_request req (\<lambda>c at_p.
       call_or_revert ''eth_createAccessList'' [c, at_p] (\<lambda>r. reply_json (access_list_body r)))"

text \<open>
  \<open>int(s, 16) == 0\<close> on a string that starts with \<open>0x\<close>: trailing white space and single underscores
  before digits are allowed, any other text is a \<open>ValueError\<close> and counts as not failed.
\<close>

definition hex_is_zero :: "string \<Rightarrow> bool" where
  "hex_is_zero s =
     (let parts = split_on (CHR ''_'') (drop 2 (strip s));
          ps = (if hd parts = [] \<and> tl parts \<noteq> [] then tl parts else parts)
      in list_all (\<lambda>p. p \<noteq> [] \<and> list_all is_hex_digit p) ps \<and> read_digits 16 (concat ps) = 0)"

definition status_failed :: "json \<Rightarrow> bool" where
  "status_failed v = (case v of JStr s \<Rightarrow> startswith s ''0x'' \<and> hex_is_zero s | _ \<Rightarrow> False)"

definition str_or :: "json \<Rightarrow> json" where
  "str_or v = (if is_str v then v else JStr ''0x'')"

definition simulate_call_result :: "json \<Rightarrow> json res" where
  "simulate_call_result call_rpc =
     bindE (jget ''status'' call_rpc) (\<lambda>st.
     bindE (jget ''error'' call_rpc) (\<lambda>err.
       if status_failed st \<or> truthy err then
         bindE (jget_default ''returnData'' (JStr ''0x'') call_rpc) (\<lambda>data_raw.
           (let (reason, panic) = decode_revert_data (str_or data_raw) in
            bindE (jlower (str_or data_raw)) (\<lambda>data.
              Inr (JObj [(''reverted'', JBool True), (''data'', data), (''reason'', reason),
                         (''panicCode'', panic)]))))
       else mapR JObj (pieces
         [field ''returnData'' (bindE (jget ''returnData'' call_rpc) (\<lambda>v. jlower (str_or v))),
          field ''gasUsed'' (at_key ''gasUsed'' int_field call_rpc),
          when_present ''logs'' (list_field log_from_rpc) call_rpc])))"

text \<open>
  One block state: an override object that is null leaves nothing to copy, which is a \<open>KeyError\<close>.
\<close>

definition copied :: "string \<Rightarrow> (json \<Rightarrow> json res) \<Rightarrow> dict \<Rightarrow> dict res" where
  "copied k f d =
     (case dget k d of
        None \<Rightarrow> Inr []
      | Some v \<Rightarrow> (if v = JNull then Inl (KeyError k) else field k (f v)))"

definition convert_block_state :: "json \<Rightarrow> json res" where
  "convert_block_state bsc =
     (case bsc of
        JObj d \<Rightarrow>
          mapR JObj (pieces
            [copied ''blockOverrides'' convert_block_override d,
             copied ''stateOverrides'' convert_override_set d,
             field ''calls''
               (case dget_or ''calls'' (JList []) d of
                  JList cs \<Rightarrow> mapR JList (mapE (\<lambda>c. mapR fst (call_request_to_rpc c)) cs)
                | _ \<Rightarrow> Inl (ValueError ''`calls` must be an array''))])
      | _ \<Rightarrow> Inl (ValueError ''each blockStateCalls entry must be an object''))"

definition flag_field :: "string \<Rightarrow> dict \<Rightarrow> dict" where
  "flag_field f d = (case dget f d of None \<Rightarrow> [] | Some v \<Rightarrow> [(f, JBool (truthy v))])"

definition simulate_payload :: "dict \<Rightarrow> json \<Rightarrow> (json \<times> json) res" where
  "simulate_payload d calls =
     bindE (list_field convert_block_state calls) (\<lambda>bscs.
     mapR (\<lambda>b. (JObj ([(''blockStateCalls'', bscs)] @ flag_field ''traceTransfers'' d
                @ flag_field ''validation'' d @ flag_field ''returnFullTransactions'' d), rpc_param b))
       (parse_block_id (dget_or ''at'' (JStr ''latest'') d)))"

definition simulated_block :: "json \<Rightarrow> json res" where
  "simulated_block b = mapR JObj (pieces
     [field ''block'' (block_header_from_rpc b),
      field ''calls'' (get_list ''calls'' simulate_call_result b)])"

definition simulate :: "request \<Rightarrow> response io" where
  "simulate req =
     with_json req (\<lambda>bod.
       (case bod of
          JObj d \<Rightarrow>
            (case dget ''blockStateCalls'' d of
               None \<Rightarrow> retI (bad_request (req_path req) ''field `blockStateCalls` is required'')
             | Some calls \<Rightarrow>
                 or_bad value_or_key_error req (simulate_payload d calls) (\<lambda>(payload, at_p).
                   call_or_revert ''eth_simulateV1'' [payload, at_p] (\<lambda>r.
                     if \<not> is_list r
                     then retI (upstream_problem (req_path req) ''eth_simulateV1 returned non-list result'')
                     else reply_json (list_field simulated_block r))))
        | _ \<Rightarrow> retI (bad_request (req_path req) ''field `blockStateCalls` is required'')))"

definition debug_traces_call :: "request \<Rightarrow> response io" where
  "debug_traces_call req =
     with_json req (\<lambda>bod.
       (case bod of
          JObj d \<Rightarrow>
            (case dget ''call'' d of
               None \<Rightarrow> retI (bad_request (req_path req) ''field `call` is required'')
             | Some c \<Rightarrow>
                 or_bad value_or_key_error req
                   (bindE (call_request_to_rpc c) (\<lambda>(rpc_call, at_inside).
                      mapR (\<lambda>b. (rpc_call, rpc_param b))
                        (parse_block_id (dget_or ''at'' (JStr ''latest'') d)))) (\<lambda>(rpc_call, at_p).
                   (let tracer_raw = dget_or ''tracer'' JNull d;
                        go = (\<lambda>tracer. call_or_revert ''debug_traceCall'' [rpc_call, at_p, tracer]
                                (\<lambda>r. reply_json (Inr r))) in
                    if tracer_raw = JNull then go (JObj [])
                    else if is_dict tracer_raw then go tracer_raw
                    else retI (bad_request (req_path req) ''`tracer` must be an object''))))
        | _ \<Rightarrow> retI (bad_request (req_path req) ''field `call` is required'')))"

section \<open>Facts\<close>

lemma history_with_call_request [history_rules]:
  "(\<And>c a. keeps history_step (k c a)) \<Longrightarrow> keeps history_step (with_call_request req k)"
  unfolding with_call_request_def by (intro history_rules) (auto intro: history_rules)

lemma history_revert_reply [history_rules]: "keeps history_step (revert_reply e)"
  by (cases e) (auto simp: revert_reply_def Let_def intro!: history_rules)

lemma history_call_or_revert [history_rules]:
  "(\<And>v. keeps history_step (k v)) \<Longrightarrow> keeps history_step (call_or_revert m ps k)"
  unfolding call_or_revert_def by (intro history_rules)

lemma computed_history [history_rules]:
  "keeps history_step (call_endpoint req)" "keeps history_step (gas_estimate req)"
  "keeps history_step (access_list req)" "keeps history_step (simulate req)"
  "keeps history_step (debug_traces_call req)"
  unfolding call_endpoint_def gas_estimate_def access_list_def simulate_def debug_traces_call_def
    Let_def
  by (auto intro!: history_rules)

text \<open>A revert body can always be printed: its panic code has at most 256 bits.\<close>

lemma length_show_dec: "0 < k \<Longrightarrow> n < 10 ^ k \<Longrightarrow> length (show_dec n) \<le> k"
  using length_digits_of [of 10 k n] by (simp add: show_dec_def)

lemma pow_bound: "(2::nat) ^ 256 \<le> 10 ^ max_str_digits"
proof -
  have "(2::nat) ^ 256 \<le> 10 ^ 256" by (rule power_mono) simp_all
  also have "\<dots> \<le> (10::nat) ^ max_str_digits"
    by (rule power_increasing) (simp_all add: max_str_digits_def)
  finally show ?thesis .
qed

lemma decode_panic_dumpable: "dumpable (decode_panic_uint t)"
proof (cases "length t < 64")
  case False
  let ?n = "read_digits 16 (slice 0 64 t)"
  have "?n < 16 ^ length (slice 0 64 t)" by (rule read_digits_bound)
  also have "\<dots> \<le> (16::nat) ^ 64" by (intro power_increasing) (simp_all add: slice_def)
  also have "(16::nat) ^ 64 = 2 ^ 256" by simp
  also note pow_bound
  finally have "length (show_dec ?n) \<le> max_str_digits"
    by (intro length_show_dec) (simp_all add: max_str_digits_def del: power_numeral)
  then show ?thesis using False by (simp add: decode_panic_uint_def)
qed (simp add: decode_panic_uint_def)

lemma mk_str_dumpable: "dumpable (mk_str u)"
  by (simp add: mk_str_def)

lemma decode_revert_dumpable: "decode_revert_data v = (r, p) \<Longrightarrow> dumpable r \<and> dumpable p"
  using decode_panic_dumpable mk_str_dumpable
  by (auto simp: decode_revert_data_def decode_error_string_def Let_def
      split: json.splits if_splits)

lemma revert_body_dumpable: "dumpable (revert_body err)"
proof -
  obtain r p where rp: "decode_revert_data (JStr (revert_raw_data err)) = (r, p)" by fastforce
  with decode_revert_dumpable [OF rp] show ?thesis
    by (simp add: revert_body_def Let_def rp)
qed

lemma call_or_revert_revert:
  assumes "upstream_call m ps net w = (Inl (UpstreamJsonRpcError c msg d), w')"
    and "is_revert \<lparr>err_code = c, err_message = msg, err_data = d\<rparr>
      \<or> is_out_of_gas \<lparr>err_code = c, err_message = msg, err_data = d\<rparr>"
  shows "call_or_revert m ps k net w = (Inr \<lparr>resp_status = 200, resp_type = ''application/json'',
     resp_body = JsonBody (revert_body \<lparr>err_code = c, err_message = msg, err_data = d\<rparr>),
     resp_headers = []\<rparr>, w')"
  using assms
  by (simp add: call_or_revert_def io_defs revert_reply_def Let_def reply_json_def json_reply_def
      revert_body_dumpable)

section \<open>What a converted request holds\<close>

definition is_quantity :: "json \<Rightarrow> bool" where
  "is_quantity v \<longleftrightarrow> (\<exists>n. v = JStr (hex_quantity n))"

definition is_hex_bytes :: "json \<Rightarrow> bool" where
  "is_hex_bytes v \<longleftrightarrow> (\<exists>s. v = JStr s \<and> re_hex_bytes s \<and> lower s = s)"

definition call_schema :: schema where
  "call_schema =
     [(''from'', False, is_address), (''to'', False, is_address), (''gas'', False, is_quantity),
      (''nonce'', False, is_quantity), (''chainId'', False, is_quantity),
      (''gasPrice'', False, is_quantity), (''maxFeePerGas'', False, is_quantity),
      (''maxPriorityFeePerGas'', False, is_quantity), (''value'', False, is_quantity),
      (''data'', False, is_hex_bytes), (''accessList'', False, list_of (conforms access_schema)),
      (''stateOverrides'', False, is_dict), (''blockOverrides'', False, is_dict)]"

lemma yields_hex_of_input [yield_rules]: "yields hex_of_input is_quantity" "yields hex_of_wei is_quantity"
  by (auto simp: yields_def hex_of_input_def hex_of_wei_def res_iffs decimal_to_hex_def is_quantity_def
      split: if_splits)

lemma yields_hex_bytes [yield_rules]: "yields (hex_bytes_field f) is_hex_bytes"
  by (auto simp: yields_def hex_bytes_field_def is_hex_bytes_def re_hex_bytes_lower
      split: json.splits if_splits)

lemma yields_access_entry: "convert_access_entry e = Inr v \<Longrightarrow> conforms access_schema v"
proof -
  assume a: "convert_access_entry e = Inr v"
  then obtain a ks keys addr where v: "v = JObj [(''address'', a), (''storageKeys'', JList keys)]"
    "mapE storage_key ks = Inr keys" "address_field addr = Inr a"
    by (auto simp: convert_access_entry_def res_iffs split: json.splits option.splits)
  have "is_str k" if "k \<in> set keys" for k
    using mapE_set [OF v(2) that] by (auto simp: storage_key_def jlower_str split: if_splits)
  then have "list_of is_str (JList keys)" by (simp add: list_of_def list_all_iff)
  moreover have "is_address a" using v(3) yields_address by (simp add: yields_def)
  ultimately show ?thesis
    by (auto simp: conforms_def access_schema_def v(1) dwf_def dhas_def)
qed

lemma yields_access_items [yield_rules]:
  "yields convert_access_items (list_of (conforms access_schema))"
proof -
  have "list_of (conforms access_schema) x" if "convert_access_items v = Inr x" for v x
  proof -
    from that obtain xs ys where "x = JList ys" "mapE convert_access_entry xs = Inr ys"
      by (auto simp: convert_access_items_def res_iffs split: json.splits)
    moreover from this have "conforms access_schema y" if "y \<in> set ys" for y
      using mapE_set [OF _ that] yields_access_entry by blast
    ultimately show ?thesis by (simp add: list_of_def list_all_iff)
  qed
  then show ?thesis by (simp add: yields_def)
qed

lemma yields_override_sets [yield_rules]:
  "yields convert_override_set is_dict" "yields convert_block_override is_dict"
  by (auto simp: yields_def convert_override_set_def convert_block_override_def res_iffs
      split: json.splits if_splits)

lemma pieces_append: "pieces (rs @ ss) = bindE (pieces rs) (\<lambda>d. bindE (pieces ss) (\<lambda>e. Inr (d @ e)))"
proof (induction rs)
  case Nil
  then show ?case by (cases "pieces ss") simp_all
next
  case (Cons r rs)
  then show ?case by (cases r; cases "pieces rs"; cases "pieces ss") simp_all
qed

lemma pieces_nested: "pieces (pieces rs # ss) = pieces (rs @ ss)"
  by (simp add: pieces_append)

lemma pieces_nested_after: "pieces (r # pieces rs # ss) = pieces (r # rs @ ss)"
  by (cases r) (simp_all add: pieces_append)

lemma call_request_conforms:
  assumes "call_request_to_rpc bod = Inr (c, at_p)"
  shows "conforms call_schema c \<and> (\<exists>bid. block_id_ok bid \<and> at_p = rpc_param bid)"
proof -
  from assms obtain out bid at_raw where o: "c = JObj out" "at_p = rpc_param bid"
    "pieces [convert_addresses bod, convert_numeric bod, convert_bytes bod,
       convert_access_list bod, convert_state_overrides bod, convert_block_overrides bod] = Inr out"
    "parse_block_id at_raw = Inr bid"
    by (auto simp: call_request_to_rpc_def Let_def res_iffs split: json.splits if_splits
        simp del: pieces.simps)
  let ?rs = "[when_present ''from'' address_field bod, when_present ''to'' address_field bod,
     when_present ''gas'' hex_of_input bod, when_present ''nonce'' hex_of_input bod,
     when_present ''chainId'' hex_of_input bod, when_present ''gasPrice'' hex_of_wei bod,
     when_present ''maxFeePerGas'' hex_of_wei bod, when_present ''maxPriorityFeePerGas'' hex_of_wei bod,
     when_present ''value'' hex_of_wei bod, when_present ''data'' (hex_bytes_field ''data'') bod,
     when_got ''accessList'' convert_access_items bod,
     when_got ''stateOverrides'' convert_override_set bod,
     when_got ''blockOverrides'' convert_block_override bod]"
  have "pieces (pieces rs # pieces qs # pieces ps # ss) = pieces (rs @ qs @ ps @ ss)" for rs qs ps ss
    by (simp only: pieces_nested pieces_append [of rs] pieces_append [of qs])
  then have "pieces ?rs = Inr out"
    using o(3) unfolding convert_addresses_def convert_numeric_def convert_bytes_def
      convert_access_list_def convert_state_overrides_def convert_block_overrides_def
    by (simp del: pieces.simps)
  moreover have "list_all2 piece_ok call_schema ?rs"
    unfolding call_schema_def by (simp add: yield_rules)
  ultimately have "conforms call_schema c"
    unfolding o(1) by (intro pieces_conform) (simp_all add: call_schema_def del: pieces.simps)
  then show ?thesis using o(2,4) parse_block_id_ok by blast
qed

section \<open>Properties\<close>

text \<open>
  C30. A reverted execution is a result, not an error: when the upstream refuses the call with a
  revert, or because the execution ran out of gas, the three call endpoints answer 200 with the
  revert body for that error, for any revert data the upstream may attach.
\<close>

theorem revert_is_response:
  assumes "(h, m) \<in> {(call_endpoint, ''eth_call''), (gas_estimate, ''eth_estimateGas''),
      (access_list, ''eth_createAccessList'')}"
    and "request_json req = Inr bod" "call_request_to_rpc bod = Inr (c, at_p)"
    and "upstream_call m [c, at_p] net w = (Inl (UpstreamJsonRpcError code msg d), w')"
    and "is_revert \<lparr>err_code = code, err_message = msg, err_data = d\<rparr>
      \<or> is_out_of_gas \<lparr>err_code = code, err_message = msg, err_data = d\<rparr>"
  shows "h req net w = (Inr \<lparr>resp_status = 200, resp_type = ''application/json'',
     resp_body = JsonBody (revert_body \<lparr>err_code = code, err_message = msg, err_data = d\<rparr>),
     resp_headers = []\<rparr>, w')"
  using assms(1-3) call_or_revert_revert [OF assms(4,5)]
  by (auto simp: call_endpoint_def gas_estimate_def access_list_def with_call_request_def
      with_json_def or_bad_def)


definition sample_call :: json where
  "sample_call = JObj [(''to'', JStr sample_address), (''gas'', JInt 21000), (''data'', JStr ''0xABCD'')]"

lemma latest_parses:
  "parse_block_id (JStr ''latest'') = Inr \<lparr>bid_tag = Some ''latest'', bid_number = None, bid_hash = None\<rparr>"
  by (simp add: parse_block_id_def parse_block_id_str_def block_tags_def)

lemma sample_call_converts: "\<exists>c. call_request_to_rpc sample_call = Inr (c, JStr ''latest'')"
  by (simp add: call_request_to_rpc_def sample_call_def convert_addresses_def convert_numeric_def
      convert_bytes_def convert_access_list_def convert_state_overrides_def
      convert_block_overrides_def shape_defs hex_of_input_def hex_of_wei_def parse_input_int_def
      decimal_to_hex_def hex_bytes_field_def re_hex_bytes_def hex_body_def is_hex_digit_def
      dget_or_def latest_parses rpc_param_def to_rpc_param_def)


definition revert_net :: net where
  "revert_net = \<lparr>reply = \<lambda>h. HttpReply 200 (Inr (JObj [(''error'', JObj [(''code'', JInt (-32000)),
     (''message'', JStr ''execution reverted'')])])), ends = \<lambda>h i. i\<rparr>"

definition json_request :: "json \<Rightarrow> request" where
  "json_request v = \<lparr>req_method = ''POST'', req_path = ''/call'', match_info = [], query = [],
     req_headers = [], req_body = to_bytes (json_dumps v)\<rparr>"

lemma json_request_reads: "json_plain v \<Longrightarrow> request_json (json_request v) = Inr v"
  by (simp add: request_json_def json_request_def text_bytes.both.dec_enc)

theorem revert_is_response_witness:
  "\<exists>resp w'. call_endpoint (json_request sample_call) revert_net fresh = (Inr resp, w') \<and> resp_status resp = 200"
proof -
  obtain c where c: "call_request_to_rpc sample_call = Inr (c, JStr ''latest'')"
    using sample_call_converts by blast
  have "json_plain sample_call"
    by (simp add: sample_call_def max_str_digits_def show_dec_def digits_of.simps)
  then have r: "request_json (json_request sample_call) = Inr sample_call" by (rule json_request_reads)
  have d: "dumpable c"
    using c by (auto simp: call_request_to_rpc_def sample_call_def convert_addresses_def
        convert_numeric_def convert_bytes_def convert_access_list_def convert_state_overrides_def
        convert_block_overrides_def shape_defs hex_of_input_def hex_of_wei_def parse_input_int_def
        decimal_to_hex_def hex_bytes_field_def re_hex_bytes_def hex_body_def is_hex_digit_def
        dget_or_def latest_parses)
  have u: "upstream_call ''eth_call'' [c, JStr ''latest''] revert_net fresh =
      (Inl (UpstreamJsonRpcError (-32000) ''execution reverted'' JNull),
       snd (upstream_call ''eth_call'' [c, JStr ''latest''] revert_net fresh))"
    using d by (simp add: upstream_call_dumpable revert_net_def read_outcome_def read_payload_def
        dget_or_def int_of_json_def py_str_def)
  have "is_revert \<lparr>err_code = -32000, err_message = ''execution reverted'', err_data = JNull\<rparr>"
    by code_simp
  with revert_is_response [OF _ r c u] show ?thesis by auto
qed

end
