(* ===== verification/TracesApi.thy ===== *)
theory TracesApi
  imports LogsApi ComputedApi
begin

text \<open>
  \<open>handlers/traces.py\<close>: paginated trace filters, the lookup of one trace, and the three endpoints that
  trace a call, several calls or a raw transaction. The facts: consecutive pages of a filter tile
  the list of matching traces.
\<close>

section \<open>Filters\<close>

definition validate_address_list :: "json \<Rightarrow> string + string list" where
  "validate_address_list v =
     (case v of
        JNull \<Rightarrow> Inr []
      | JList xs \<Rightarrow> mapE address_entry xs
      | _ \<Rightarrow> Inl ''address list must be an array'')"

definition opt_addresses :: "string \<Rightarrow> string list option \<Rightarrow> dict" where
  "opt_addresses k a = (case a of None \<Rightarrow> [] | Some xs \<Rightarrow> [(k, JList (map JStr xs))])"

definition some_addresses :: "string \<Rightarrow> string list \<Rightarrow> dict" where
  "some_addresses k xs = (if xs = [] then [] else [(k, JList (map JStr xs))])"

text \<open>\<open>{**filter_, ...}\<close>: a key of the filter keeps its place and takes the new value.\<close>

definition trace_filter_params :: "dict \<Rightarrow> int \<Rightarrow> int \<Rightarrow> int \<Rightarrow> int \<Rightarrow> dict" where
  "trace_filter_params flt from_b to_b after cnt =
     dset ''count'' (JInt cnt) (dset ''after'' (JInt after)
       (dset ''toBlock'' (JStr (''0x'' @ show_int_hex to_b))
         (dset ''fromBlock'' (JStr (''0x'' @ show_int_hex from_b)) flt)))"

definition trace_page :: "string \<Rightarrow> int \<Rightarrow> dict \<Rightarrow> int \<Rightarrow> int \<Rightarrow> int \<Rightarrow> response io" where
  "trace_page path limit flt from_b to_b after =
     bindI (upstream_call ''trace_filter'' [JObj (trace_filter_params flt from_b to_b after limit)]) (\<lambda>rpc.
     bindI (liftI (bindE (jiter (if truthy rpc then rpc else JList [])) (mapE trace_from_rpc))) (\<lambda>items.
       (let size = (''X-Page-Size'', show_int limit) in
        if limit \<le> int (length items)
        then liftI (bindE (encode_trace_cursor
               \<lparr>tc_after = after + limit, tc_from_block = from_b, tc_to_block = to_b, tc_filter = flt\<rparr>)
               (\<lambda>c. json_reply 200 [size, next_link path c] (JList items)))
        else liftI (json_reply 200 [size] (JList items)))))"

definition resume_traces :: "string \<Rightarrow> request \<Rightarrow> int \<Rightarrow> string \<Rightarrow> response io" where
  "resume_traces path req limit raw =
     or_bad_cursor req (decode_trace_cursor raw) (\<lambda>c.
       trace_page path limit (tc_filter c) (tc_from_block c) (tc_to_block c) (tc_after c))"

definition get_traces :: "config \<Rightarrow> request \<Rightarrow> response io" where
  "get_traces cfg req =
     with_limit cfg req (\<lambda>limit.
       (case query_get req ''cursor'' of
          Some raw \<Rightarrow> resume_traces ''traces'' req limit raw
        | None \<Rightarrow>
            with_range req (query_block_id req ''fromBlock'' ''earliest'')
              (query_block_id req ''toBlock'' ''latest'') (\<lambda>from_b to_b.
            or_400 req (parse_addresses_csv (query_get req ''fromAddress'')) (\<lambda>from_addresses.
            or_400 req (parse_addresses_csv (query_get req ''toAddress'')) (\<lambda>to_addresses.
              trace_page ''traces'' limit
                (opt_addresses ''fromAddress'' from_addresses @ opt_addresses ''toAddress'' to_addresses)
                from_b to_b 0)))))"

text \<open>The body form reads any value of the two ends through \<open>str\<close>.\<close>

definition post_traces_search :: "config \<Rightarrow> request \<Rightarrow> response io" where
  "post_traces_search cfg req =
     with_limit cfg req (\<lambda>limit.
       (case query_get req ''cursor'' of
          Some raw \<Rightarrow> resume_traces ''traces/search'' req limit raw
        | None \<Rightarrow>
            with_json req (\<lambda>bod. with_object req bod (\<lambda>d.
            with_range req (parse_block_id_str (py_str (dget_or ''fromBlock'' (JStr ''earliest'') d)))
              (parse_block_id_str (py_str (dget_or ''toBlock'' (JStr ''latest'') d))) (\<lambda>from_b to_b.
            or_400 req (validate_address_list (dget_or ''fromAddress'' JNull d)) (\<lambda>from_addrs.
            or_400 req (validate_address_list (dget_or ''toAddress'' JNull d)) (\<lambda>to_addrs.
              trace_page ''traces/search'' limit
                (some_addresses ''fromAddress'' from_addrs @ some_addresses ''toAddress'' to_addrs)
                from_b to_b 0)))))))"

section \<open>One trace\<close>

definition trace_segment :: "string \<Rightarrow> int res" where
  "trace_segment p =
     (if all_dec p then int_of_str p
      else Inl (ValueError (''trace address segment must be a non-negative integer: '' @ repr_str p)))"

definition parse_trace_address :: "string \<Rightarrow> int list res" where
  "parse_trace_address raw =
     (if raw \<in> {[], ''/''} then Inr []
      else mapE (\<lambda>p. trace_segment (strip p)) (split_on (CHR '','') raw))"

definition get_trace :: "request \<Rightarrow> response io" where
  "get_trace req =
     bindI (liftI (match_get req ''hash'')) (\<lambda>tx.
       if \<not> re_hex_len 64 tx
       then retI (bad_request (req_path req) ''transaction hash must be 0x-prefixed 32-byte hex'')
       else
         (let raw = (case dget ''trace_address'' (match_info req) of Some s \<Rightarrow> s | None \<Rightarrow> []) in
          or_bad is_value_error req (parse_trace_address raw) (\<lambda>ixs.
            bindI (upstream_call ''trace_get'' [JStr (lower tx), JList (map JInt ixs)]) (\<lambda>rpc.
              if rpc = JNull
              then retI (not_found (req_path req) (''trace not found for '' @ lower tx @ '' at ''
                     @ (if raw = [] then ''root'' else raw)))
              else reply_json (trace_from_rpc rpc)))))"

section \<open>Tracing calls\<close>

definition tracers_of :: "json \<Rightarrow> (string + json list) res" where
  "tracers_of v =
     (case v of
        JList (t # ts) \<Rightarrow>
          bindE (first_unknown (t # ts)) (\<lambda>u.
            Inr (case u of
                   Some x \<Rightarrow> Inl (''unknown tracer '' @ py_repr x
                     @ ''; allowed: ['' @ repr_str ''stateDiff'' @ '', '' @ repr_str ''trace'' @ '', ''
                     @ repr_str ''vmTrace'' @ '']'')
                 | None \<Rightarrow> Inr (t # ts)))
      | _ \<Rightarrow> Inr (Inl ''field `tracers` must be a non-empty array''))"

definition at_param :: "dict \<Rightarrow> json res" where
  "at_param d = mapR rpc_param (parse_block_id (dget_or ''at'' (JStr ''latest'') d))"

definition trace_call_handler :: "request \<Rightarrow> response io" where
  "trace_call_handler req =
     with_json req (\<lambda>bod. with_object req bod (\<lambda>d.
       (case (dget ''call'' d, dget ''tracers'' d) of
          (Some c, Some t) \<Rightarrow>
            or_detail req (tracers_of t) (\<lambda>tracers.
            or_bad value_or_key_error req
              (bindE (call_request_to_rpc c) (\<lambda>(rpc_call, at_in_call).
                 mapR (\<lambda>a. (rpc_call, a)) (at_param d))) (\<lambda>(rpc_call, at_p).
              bindI (upstream_call ''trace_call'' [rpc_call, JList tracers, at_p])
                (\<lambda>r. reply_json (Inr r))))
        | _ \<Rightarrow> retI (bad_request (req_path req) ''fields `call` and `tracers` are required''))))"

definition trace_call_many_handler :: "request \<Rightarrow> response io" where
  "trace_call_many_handler req =
     with_json req (\<lambda>bod. with_object req bod (\<lambda>d.
       (case (dget ''calls'' d, dget ''tracers'' d) of
          (Some calls, Some t) \<Rightarrow>
            or_detail req (tracers_of t) (\<lambda>tracers.
              (case calls of
                 JList cs \<Rightarrow>
                   or_bad value_or_key_error req
                     (bindE (mapE (\<lambda>c. mapR (\<lambda>(rpc_call, a). JList [rpc_call, JList tracers])
                                    (call_request_to_rpc c)) cs) (\<lambda>rpc_calls.
                        mapR (\<lambda>a. (rpc_calls, a)) (at_param d))) (\<lambda>(rpc_calls, at_p).
                     bindI (upstream_call ''trace_callMany'' [JList rpc_calls, at_p])
                       (\<lambda>r. reply_json (Inr r)))
               | _ \<Rightarrow> retI (bad_request (req_path req) ''`calls` must be an array'')))
        | _ \<Rightarrow> retI (bad_request (req_path req) ''fields `calls` and `tracers` are required''))))"

definition trace_raw_transaction_handler :: "request \<Rightarrow> response io" where
  "trace_raw_transaction_handler req =
     with_json req (\<lambda>bod. with_object req bod (\<lambda>d.
       (let bad = retI (bad_request (req_path req) ''field `raw` must be 0x-prefixed hex bytes'') in
        case dget_or ''raw'' JNull d of
          JStr raw \<Rightarrow>
            (if re_hex_bytes raw then
               or_detail req (tracers_of (dget_or ''tracers'' JNull d)) (\<lambda>tracers.
                 bindI (upstream_call ''trace_rawTransaction'' [JStr (lower raw), JList tracers])
                   (\<lambda>r. reply_json (Inr r)))
             else bad)
        | _ \<Rightarrow> bad)))"

section \<open>Facts\<close>

lemma history_trace_page [history_rules]: "keeps history_step (trace_page path limit flt f t a)"
  unfolding trace_page_def Let_def by (intro history_rules)

lemma traces_history [history_rules]:
  "keeps history_step (get_traces cfg req)" "keeps history_step (post_traces_search cfg req)"
  "keeps history_step (get_trace req)" "keeps history_step (trace_call_handler req)"
  "keeps history_step (trace_call_many_handler req)"
  "keeps history_step (trace_raw_transaction_handler req)"
  unfolding get_traces_def post_traces_search_def get_trace_def trace_call_handler_def
    trace_call_many_handler_def trace_raw_transaction_handler_def resume_traces_def Let_def
  by (auto intro!: history_rules split: prod.splits option.splits)

lemma read_digits_bound10: "list_all is_dec_digit s \<Longrightarrow> read_digits 10 s < 10 ^ length s"
proof (induction s rule: rev_induct)
  case (snoc c s)
  have "digit_val c < 10" using snoc.prems by (auto simp: digit_val_def is_dec_digit_def)
  moreover have "read_digits 10 (s @ [c]) = 10 * read_digits 10 s + digit_val c"
    by (simp add: read_digits_def)
  ultimately show ?case using snoc by simp
qed (simp add: read_digits_def)

lemma length_show_dec_mono: "m \<le> n \<Longrightarrow> length (show_dec m) \<le> length (show_dec n)"
proof -
  assume "m \<le> n"
  moreover have "n < 10 ^ length (show_dec n)"
    using read_digits_bound10 [of "show_dec n"] by simp
  ultimately show ?thesis by (intro length_show_dec) (auto simp: show_dec_nonempty)
qed

lemma json_plain_int_mono: "0 \<le> i \<Longrightarrow> i \<le> j \<Longrightarrow> json_plain (JInt j) \<Longrightarrow> json_plain (JInt i)"
  using length_show_dec_mono [of "nat i" "nat j"] by (simp add: nat_mono)

text \<open>The contract of \<open>trace_filter\<close>: the slice that \<open>after\<close> and \<open>count\<close> name of a fixed list.\<close>

definition serves_traces :: "net \<Rightarrow> dict \<Rightarrow> int \<Rightarrow> int \<Rightarrow> json list \<Rightarrow> bool" where
  "serves_traces net flt from_b to_b ts \<longleftrightarrow> (\<forall>w a n. 0 \<le> a \<longrightarrow> 0 \<le> n \<longrightarrow>
     dumpable (JInt (a + n)) \<longrightarrow> fst (upstream_call ''trace_filter'' [JObj (trace_filter_params flt from_b to_b a n)] net w)
       = Inr (JList (take (nat n) (drop (nat a) ts))))"

definition codable_trace :: "json \<Rightarrow> bool" where
  "codable_trace l \<longleftrightarrow> (\<exists>v. trace_from_rpc l = Inr v \<and> dumpable v)"

lemma codable_traces:
  assumes "list_all codable_trace ls"
  obtains xs where "mapE trace_from_rpc ls = Inr xs" "list_all dumpable xs" "length xs = length ls"
proof -
  have "\<exists>xs. mapE trace_from_rpc ls = Inr xs \<and> list_all dumpable xs"
    using assms by (induction ls) (auto simp: codable_trace_def)
  then show thesis using that mapE_length by blast
qed

lemma trace_page_run:
  assumes "serves_traces net flt f t ts" "list_all codable_trace ts" "0 \<le> after" "1 \<le> limit"
    and "trace_cursor_ok \<lparr>tc_after = after + limit, tc_from_block = f, tc_to_block = t, tc_filter = flt\<rparr>"
  shows "\<exists>xs s w1. mapE trace_from_rpc (take (nat limit) (drop (nat after) ts)) = Inr xs \<and> list_all dumpable xs
    \<and> encode_trace_cursor \<lparr>tc_after = after + limit, tc_from_block = f, tc_to_block = t, tc_filter = flt\<rparr> = Inr s
    \<and> trace_page path limit flt f t after net w =
      (if nat limit \<le> length (drop (nat after) ts)
       then json_reply 200 [(''X-Page-Size'', show_int limit), next_link path s] (JList xs)
       else json_reply 200 [(''X-Page-Size'', show_int limit)] (JList xs), w1)"
proof -
  let ?ps = "take (nat limit) (drop (nat after) ts)"
  have "list_all codable_trace ?ps"
    using assms(2) by (auto simp: list_all_iff dest: in_set_takeD in_set_dropD)
  then obtain xs where xs: "mapE trace_from_rpc ?ps = Inr xs" "list_all dumpable xs" "length xs = length ?ps"
    using codable_traces by blast
  obtain w1 where c: "upstream_call ''trace_filter'' [JObj (trace_filter_params flt f t after limit)] net w
      = (Inr (JList ?ps), w1)"
  proof -
    have "fst (upstream_call ''trace_filter'' [JObj (trace_filter_params flt f t after limit)] net w)
        = Inr (JList ?ps)"
      using assms by (simp add: serves_traces_def trace_cursor_ok_def trace_cursor_payload_def)
    then show thesis using that by (metis prod.collapse)
  qed
  obtain s where s: "encode_trace_cursor
      \<lparr>tc_after = after + limit, tc_from_block = f, tc_to_block = t, tc_filter = flt\<rparr> = Inr s"
    using encode_decode_trace_cursor [OF assms(5)] by blast
  have it: "bindE (jiter (if truthy (JList ?ps) then JList ?ps else JList [])) (mapE trace_from_rpc) = Inr xs"
    using xs(1) by (cases "?ps = []") simp_all
  have len: "limit \<le> int (length xs) \<longleftrightarrow> nat limit \<le> length (drop (nat after) ts)"
    using xs(3) assms(4) by auto
  have "trace_page path limit flt f t after net w =
      (if limit \<le> int (length xs)
       then json_reply 200 [(''X-Page-Size'', show_int limit), next_link path s] (JList xs)
       else json_reply 200 [(''X-Page-Size'', show_int limit)] (JList xs), w1)"
    using c s it by (simp add: trace_page_def bindI_def liftI_def)
  then show ?thesis using xs(1,2) s unfolding len by blast
qed

lemma trace_page_ok:
  assumes "serves_traces net flt f t ts" "list_all codable_trace ts" "0 \<le> after" "1 \<le> limit"
    and "trace_cursor_ok \<lparr>tc_after = after + limit, tc_from_block = f, tc_to_block = t, tc_filter = flt\<rparr>"
  shows "\<exists>resp w1 xs. trace_page path limit flt f t after net w = (Inr resp, w1) \<and> resp_status resp = 200
    \<and> resp_body resp = JsonBody (JList xs) \<and> mapE trace_from_rpc (take (nat limit) (drop (nat after) ts)) = Inr xs
    \<and> (\<forall>s. next_link path s \<in> set (resp_headers resp) \<longleftrightarrow> nat limit \<le> length (drop (nat after) ts)
        \<and> encode_trace_cursor \<lparr>tc_after = after + limit, tc_from_block = f, tc_to_block = t, tc_filter = flt\<rparr> = Inr s)"
proof -
  obtain xs s w1 where "mapE trace_from_rpc (take (nat limit) (drop (nat after) ts)) = Inr xs" "list_all dumpable xs"
    "encode_trace_cursor \<lparr>tc_after = after + limit, tc_from_block = f, tc_to_block = t, tc_filter = flt\<rparr> = Inr s"
    "trace_page path limit flt f t after net w =
      (if nat limit \<le> length (drop (nat after) ts)
       then json_reply 200 [(''X-Page-Size'', show_int limit), next_link path s] (JList xs)
       else json_reply 200 [(''X-Page-Size'', show_int limit)] (JList xs), w1)"
    using trace_page_run [OF assms] by blast
  then show ?thesis by (auto simp: json_reply_def)
qed

text \<open>An upstream with a fixed list of traces.\<close>

definition param_int :: "string \<Rightarrow> json \<Rightarrow> int" where
  "param_int k b =
     (case bindE (jindex ''params'' b) (\<lambda>ps. bindE (jiter ps) (\<lambda>xs. jindex k (hd xs))) of
        Inr (JInt i) \<Rightarrow> i | _ \<Rightarrow> 0)"

definition slice_net :: "json list \<Rightarrow> net" where
  "slice_net ts = \<lparr>reply = \<lambda>h. HttpReply 200 (Inr (JObj [(''result'', JList
     (take (nat (param_int ''count'' (last h))) (drop (nat (param_int ''after'' (last h))) ts)))])),
     ends = \<lambda>h i. i\<rparr>"

lemma slice_net_serves: "serves_traces (slice_net ts) [] 1 20 ts"
proof -
  let ?ps = "\<lambda>a n. [JObj (trace_filter_params [] 1 20 a n)]"
  have "fst (upstream_call ''trace_filter'' (?ps a n) (slice_net ts) w)
      = Inr (JList (take (nat n) (drop (nat a) ts)))"
    if "0 \<le> a" "0 \<le> n" "dumpable (JInt (a + n))" for a n w
  proof -
    have "json_plain (JInt a)" "json_plain (JInt n)"
      using that json_plain_int_mono [of _ "a + n"] by simp_all
    then have "list_all dumpable (?ps a n)" by (simp add: trace_filter_params_def)
    then show ?thesis
      by (simp add: upstream_call_dumpable slice_net_def param_int_def rpc_body_def
          trace_filter_params_def read_outcome_def read_payload_def)
  qed
  then show ?thesis by (simp add: serves_traces_def)
qed

lemma sample_trace_codable: "codable_trace sample_trace"
  by (simp add: codable_trace_def trace_from_rpc_def int_of_json_def sample_trace_def shape_defs small_plain)

section \<open>Properties\<close>

text \<open>
  The pages of a trace filter tile the matching traces. When the upstream answers with the
  requested slice of a fixed list and a page carries a link, the request with the linked cursor is
  answered with the traces that follow: the two bodies together convert the slice that both limits
  span.
\<close>

lemma trace_link_continues:
  assumes "serves_traces net flt f t ts" "list_all codable_trace ts" "0 \<le> after" "1 \<le> limit"
    and "trace_page ''traces'' limit flt f t after net w = (Inr resp, w1)"
    and "next_link ''traces'' s \<in> set (resp_headers resp)"
    and "query_get req ''cursor'' = Some s" "query_get req ''limit'' = None"
    and "n = min (default_page_size cfg) (max_page_size cfg)" "1 \<le> n"
    and "trace_cursor_ok \<lparr>tc_after = after + limit + n, tc_from_block = f, tc_to_block = t, tc_filter = flt\<rparr>"
  shows "\<exists>resp2 w2 xs ys. get_traces cfg req net w1 = (Inr resp2, w2) \<and> resp_status resp2 = 200
    \<and> resp_body resp = JsonBody (JList xs) \<and> resp_body resp2 = JsonBody (JList ys)
    \<and> mapE trace_from_rpc (take (nat limit + nat n) (drop (nat after) ts)) = Inr (xs @ ys)"
proof -
  have c1: "trace_cursor_ok \<lparr>tc_after = after + limit, tc_from_block = f, tc_to_block = t, tc_filter = flt\<rparr>"
    using assms(3,4,10,11) json_plain_int_mono [of "after + limit" "after + limit + n"]
    by (simp add: trace_cursor_ok_def trace_cursor_payload_def)
  obtain xs where xs: "resp_body resp = JsonBody (JList xs)"
    "mapE trace_from_rpc (take (nat limit) (drop (nat after) ts)) = Inr xs"
    and s: "encode_trace_cursor
      \<lparr>tc_after = after + limit, tc_from_block = f, tc_to_block = t, tc_filter = flt\<rparr> = Inr s"
    using trace_page_ok [OF assms(1-4) c1, of "''traces''" w] assms(5,6) by auto
  then have "decode_trace_cursor s = Inr
      \<lparr>tc_after = after + limit, tc_from_block = f, tc_to_block = t, tc_filter = flt\<rparr>"
    using encode_decode_trace_cursor [OF c1] by auto
  then have "get_traces cfg req net w1 = trace_page ''traces'' n flt f t (after + limit) net w1"
    using assms(7-9) by (simp add: get_traces_def with_limit_def resume_traces_def or_bad_cursor_def)
  moreover obtain resp2 w2 ys where ys: "trace_page ''traces'' n flt f t (after + limit) net w1 = (Inr resp2, w2)"
    "resp_status resp2 = 200" "resp_body resp2 = JsonBody (JList ys)"
    "mapE trace_from_rpc (take (nat n) (drop (nat (after + limit)) ts)) = Inr ys"
    using trace_page_ok [OF assms(1,2) _ assms(10,11), of "''traces''" w1] assms(3,4) by auto
  moreover have "take (nat limit + nat n) (drop (nat after) ts) =
      take (nat limit) (drop (nat after) ts) @ take (nat n) (drop (nat (after + limit)) ts)"
    using assms(3,4) by (simp add: take_add drop_drop nat_add_distrib add.commute)
  ultimately show ?thesis using xs mapE_append by fastforce
qed

lemma trace_link_continues_example:
  "\<exists>resp w1 c resp2 w2 xs ys.
     trace_page ''traces'' 1 [] 1 20 0 (slice_net [sample_trace, sample_trace]) fresh = (Inr resp, w1)
     \<and> get_traces sample_config (cursor_request c) (slice_net [sample_trace, sample_trace]) w1 = (Inr resp2, w2)
     \<and> resp_body resp = JsonBody (JList xs) \<and> resp_body resp2 = JsonBody (JList ys)
     \<and> mapE trace_from_rpc [sample_trace, sample_trace] = Inr (xs @ ys)"
proof -
  let ?ts = "[sample_trace, sample_trace]"
  have codable: "list_all codable_trace ?ts" using sample_trace_codable by simp
  have ok: "trace_cursor_ok \<lparr>tc_after = 0 + 1 + n, tc_from_block = 1, tc_to_block = 20, tc_filter = []\<rparr>"
    if "n \<in> {0, 1000}" for n
  proof -
    have "json_plain (JInt 1001)" "json_plain (JInt 1)" "json_plain (JInt 20)"
      using length_show_dec [of 4 1001] length_show_dec [of 4 1] length_show_dec [of 4 20]
      by (simp_all add: max_str_digits_def)
    with that show ?thesis by (auto simp: trace_cursor_ok_def trace_cursor_payload_def)
  qed
  obtain s where s: "encode_trace_cursor \<lparr>tc_after = 0 + 1, tc_from_block = 1, tc_to_block = 20, tc_filter = []\<rparr> = Inr s"
    using encode_decode_trace_cursor ok [of 0] by fastforce
  obtain resp w1 where p: "trace_page ''traces'' 1 [] 1 20 0 (slice_net ?ts) fresh = (Inr resp, w1)"
    "next_link ''traces'' s \<in> set (resp_headers resp)"
    using trace_page_ok [OF slice_net_serves codable, of 0 1 "''traces''" fresh] ok [of 0] s by auto
  show ?thesis
    using trace_link_continues [OF slice_net_serves codable _ _ p, of "cursor_request s" 1000 sample_config]
      ok [of 1000] p(1)
    by (simp add: cursor_request_def query_get_def sample_config_def numeral_2_eq_2) blast
qed

end
