(* ===== verification/ChainApi.thy ===== *)
theory ChainApi
  imports TracesApi
begin

text \<open>
  The small resources: \<open>handlers/chain.py\<close>, \<open>handlers/gas.py\<close>, \<open>handlers/health.py\<close> and
  \<open>handlers/utils_keccak.py\<close>. The facts: readiness is reported exactly for a reachable upstream
  that is synchronised or lags by no more than the configured number of blocks.
\<close>

section \<open>Chain\<close>

definition chain_body :: "json list \<Rightarrow> json res" where
  "chain_body rs = mapR JObj (pieces
     [field ''chainId'' (int_field (rs ! 0)), field ''networkId'' (Inr (rs ! 1)),
      field ''client'' (Inr (rs ! 2)), field ''blockNumber'' (int_field (rs ! 4)),
      field ''syncing'' (sync_to_rest (rs ! 3))])"

definition chain :: "request \<Rightarrow> response io" where
  "chain req =
     bindI (gather [upstream_call ''eth_chainId'' [], upstream_call ''net_version'' [],
                    upstream_call ''web3_clientVersion'' [], upstream_call ''eth_syncing'' [],
                    upstream_call ''eth_blockNumber'' []])
       (\<lambda>rs. reply_json (chain_body rs))"

definition chain_id :: "request \<Rightarrow> response io" where
  "chain_id req = bindI (upstream_call ''eth_chainId'' []) (\<lambda>v. one_field ''chainId'' (int_field v))"

definition chain_sync_status :: "request \<Rightarrow> response io" where
  "chain_sync_status req = bindI (upstream_call ''eth_syncing'' []) (\<lambda>v. reply_json (sync_to_rest v))"

definition chain_client :: "request \<Rightarrow> response io" where
  "chain_client req = bindI (upstream_call ''web3_clientVersion'' []) (\<lambda>v. one_field ''client'' (Inr v))"

definition chain_peers :: "request \<Rightarrow> response io" where
  "chain_peers req =
     bindI (gather [upstream_call ''net_peerCount'' [], upstream_call ''net_listening'' []])
       (\<lambda>rs. reply_json (mapR JObj (pieces
          [field ''peerCount'' (int_field (rs ! 0)),
           field ''listening'' (Inr (JBool (truthy (rs ! 1))))])))"

section \<open>Gas\<close>

definition gas_price :: "request \<Rightarrow> response io" where
  "gas_price req = bindI (upstream_call ''eth_gasPrice'' []) (\<lambda>v. one_field ''wei'' (wei_field v))"

definition priority_fee :: "request \<Rightarrow> response io" where
  "priority_fee req =
     bindI (upstream_call ''eth_maxPriorityFeePerGas'' []) (\<lambda>v. one_field ''wei'' (wei_field v))"

definition blob_base_fee :: "request \<Rightarrow> response io" where
  "blob_base_fee req = bindI (upstream_call ''eth_blobBaseFee'' []) (\<lambda>v. one_field ''wei'' (wei_field v))"

text \<open>A percentile is the float its numeral denotes; the value sent is given by that numeral.\<close>

definition parse_percentiles :: "string option \<Rightarrow> json list option" where
  "parse_percentiles raw =
     (case raw of
        None \<Rightarrow> Some []
      | Some s \<Rightarrow>
          (if s = [] then Some []
           else (let ps = split_on (CHR '','') s in
                 if list_all (\<lambda>p. float_of_str p \<noteq> None) ps
                 then Some (map (\<lambda>p. JFloat (strip p)) ps) else None)))"

definition fee_history_body :: "json \<Rightarrow> json res" where
  "fee_history_body rpc = mapR JObj (pieces
     [field ''oldestBlock'' (at_key ''oldestBlock'' int_field rpc),
      field ''baseFeePerGas'' (at_key ''baseFeePerGas'' (list_field wei_field) rpc),
      field ''gasUsedRatio'' (get_or_empty ''gasUsedRatio'' Inr rpc),
      when_present ''reward'' (list_field (list_field wei_field)) rpc,
      when_present ''baseFeePerBlobGas'' (list_field wei_field) rpc,
      when_present ''blobGasUsedRatio'' (list_field Inr) rpc])"

definition fee_history :: "request \<Rightarrow> response io" where
  "fee_history req =
     (let bad = (\<lambda>msg. retI (bad_request (req_path req) msg)) in
      case query_get req ''blockCount'' of
        None \<Rightarrow> bad ''missing required query parameter: blockCount''
      | Some count_raw \<Rightarrow>
          (case query_get req ''newest'' of
             None \<Rightarrow> bad ''missing required query parameter: newest''
           | Some newest_raw \<Rightarrow>
               (case (case int_of_str count_raw of Inr n \<Rightarrow> if n < 1 then None else Some n | Inl e \<Rightarrow> None) of
                  None \<Rightarrow> bad (''blockCount must be a positive integer, got '' @ repr_str count_raw)
                | Some n \<Rightarrow>
                    or_bad is_block_id_error req (parse_block_id_str newest_raw) (\<lambda>newest.
                      (case parse_percentiles (query_get req ''rewardPercentiles'') of
                         None \<Rightarrow> bad (''rewardPercentiles must be a comma-separated list of numbers, got ''
                             @ repr_str (the (query_get req ''rewardPercentiles'')))
                       | Some ps \<Rightarrow>
                           bindI (liftI (decimal_to_hex n)) (\<lambda>h.
                           bindI (upstream_call ''eth_feeHistory'' [JStr h, rpc_param newest, JList ps])
                             (\<lambda>rpc. reply_json (fee_history_body rpc))))))))"

section \<open>Health\<close>

definition health :: "request \<Rightarrow> response io" where
  "health req = reply_json (Inr (JObj [(''status'', JStr ''ok'')]))"

definition unavailable :: "request \<Rightarrow> string \<Rightarrow> string \<Rightarrow> response" where
  "unavailable req ttl detail = simple_problem 503 ''upstream-unavailable'' ttl detail (req_path req)"

text \<open>The two calls under \<open>except (UpstreamError, UpstreamJsonRpcError)\<close>.\<close>

fun is_upstream_error :: "exn \<Rightarrow> bool" where
  "is_upstream_error (UpstreamError _) = True"
| "is_upstream_error (UpstreamJsonRpcError _ _ _) = True"
| "is_upstream_error _ = False"

definition sync_and_head :: "request \<Rightarrow> (response + json \<times> json) io" where
  "sync_and_head req =
     catchI
       (bindI (upstream_call ''eth_syncing'' []) (\<lambda>sync.
        bindI (upstream_call ''eth_blockNumber'' []) (\<lambda>head. retI (Inr (sync, head)))))
       (\<lambda>e. if is_upstream_error e then retI (Inl (unavailable req ''Upstream unavailable'' (exn_str e)))
            else raiseI e)"

definition ready_body :: "bool \<Rightarrow> int \<Rightarrow> json" where
  "ready_body syncing n =
     JObj [(''ready'', JBool True), (''upstreamReachable'', JBool True), (''syncing'', JBool syncing),
           (''blockNumber'', JInt n)]"

definition readiness :: "config \<Rightarrow> request \<Rightarrow> json \<Rightarrow> json \<Rightarrow> response res" where
  "readiness cfg req sync head =
     bindE (hex_to_int head) (\<lambda>block_number.
       if sync = JBool False then json_response (ready_body False block_number)
       else bindE (bindE (jindex ''highestBlock'' sync) hex_to_int) (\<lambda>highest.
            bindE (bindE (jindex ''currentBlock'' sync) hex_to_int) (\<lambda>current.
              if highest - current \<le> ready_sync_lag cfg then json_response (ready_body True current)
              else bindE (str_of_int (highest - current)) (\<lambda>lag.
                Inr (unavailable req ''Upstream still syncing''
                  (''sync lag '' @ lag @ '' blocks exceeds threshold '' @ show_int (ready_sync_lag cfg)))))))"

definition ready :: "config \<Rightarrow> request \<Rightarrow> response io" where
  "ready cfg req =
     bindI (sync_and_head req) (\<lambda>r.
       (case r of
          Inl resp \<Rightarrow> retI resp
        | Inr (sync, head) \<Rightarrow> liftI (readiness cfg req sync head)))"

section \<open>Hashing\<close>

definition keccak256 :: "request \<Rightarrow> response io" where
  "keccak256 req =
     with_json req (\<lambda>bod. with_object req bod (\<lambda>d.
       (let bad = retI (bad_request (req_path req) ''field `data` must be a 0x-prefixed hex byte string'') in
        case dget_or ''data'' JNull d of
          JStr s \<Rightarrow>
            (if re_hex_bytes s then
               bindI (upstream_call ''web3_sha3'' [JStr s]) (\<lambda>digest.
                 if is_str digest then one_field ''hash'' (jlower digest)
                 else retI (upstream_problem (req_path req) ''web3_sha3 returned non-string result''))
             else bad)
        | _ \<Rightarrow> bad)))"

section \<open>Facts\<close>

lemma history_gather_calls:
  "list_all (keeps history_step) ms \<Longrightarrow> keeps history_step (gather ms)"
  by (rule history_gather_all) (auto simp: list_all_iff)

lemma chain_history [history_rules]:
  "keeps history_step (chain req)" "keeps history_step (chain_id req)"
  "keeps history_step (chain_sync_status req)" "keeps history_step (chain_client req)"
  "keeps history_step (chain_peers req)"
  unfolding chain_def chain_id_def chain_sync_status_def chain_client_def chain_peers_def
  by (auto intro!: history_rules history_gather_calls)

lemma gas_history [history_rules]:
  "keeps history_step (gas_price req)" "keeps history_step (priority_fee req)"
  "keeps history_step (blob_base_fee req)" "keeps history_step (fee_history req)"
  unfolding gas_price_def priority_fee_def blob_base_fee_def fee_history_def Let_def
  by (auto intro!: history_rules)

lemma health_history [history_rules]:
  "keeps history_step (health req)" "keeps history_step (ready cfg req)"
  "keeps history_step (keccak256 req)"
  unfolding health_def ready_def sync_and_head_def keccak256_def Let_def
  by (auto intro!: history_rules split: prod.splits)

text \<open>What readiness means: synchronised, or behind by no more than the configured lag.\<close>

definition in_sync :: "config \<Rightarrow> json \<Rightarrow> bool" where
  "in_sync cfg sync \<longleftrightarrow> sync = JBool False \<or>
     (\<exists>hi cur. bindE (jindex ''highestBlock'' sync) hex_to_int = Inr hi
        \<and> bindE (jindex ''currentBlock'' sync) hex_to_int = Inr cur \<and> hi - cur \<le> ready_sync_lag cfg)"

lemma unavailable_status [simp]: "resp_status (unavailable req ttl detail) = 503"
  by (simp add: unavailable_def simple_problem_def)

lemma readiness_status:
  assumes "readiness cfg req sync head = Inr resp"
  shows "resp_status resp = (if in_sync cfg sync then 200 else 503)"
proof (cases "sync = JBool False")
  case True
  with assms show ?thesis by (auto simp: readiness_def in_sync_def bindE_eq_Inr_iff json_reply_Inr_iff)
next
  case False
  with assms obtain hi cur where v: "bindE (jindex ''highestBlock'' sync) hex_to_int = Inr hi"
    "bindE (jindex ''currentBlock'' sync) hex_to_int = Inr cur"
    unfolding readiness_def by (auto simp: bindE_eq_Inr_iff)
  with False have "in_sync cfg sync \<longleftrightarrow> hi - cur \<le> ready_sync_lag cfg" by (simp add: in_sync_def)
  with assms False v show ?thesis
    by (auto simp: readiness_def bindE_eq_Inr_iff json_reply_Inr_iff split: if_splits)
qed

lemma sync_and_head_result:
  assumes "upstream_call ''eth_syncing'' [] net w = (s, w1)" "upstream_call ''eth_blockNumber'' [] net w1 = (b, w2)"
    and "sync_and_head req net w = (Inr r, w')"
  shows "case r of Inl resp \<Rightarrow> resp_status resp = 503 \<and> (\<exists>e. is_upstream_error e \<and> (s = Inl e \<or> b = Inl e))
          | Inr (sync, head) \<Rightarrow> s = Inr sync \<and> b = Inr head"
proof (cases s)
  case (Inl e)
  with assms show ?thesis
    by (auto simp: sync_and_head_def io_defs split: if_splits)
next
  case (Inr sync)
  show ?thesis
  proof (cases b)
    case (Inl e)
    with assms Inr show ?thesis
      by (auto simp: sync_and_head_def io_defs split: if_splits)
  next
    case (Inr head)
    with assms \<open>s = Inr sync\<close> show ?thesis by (auto simp: sync_and_head_def io_defs)
  qed
qed

section \<open>Properties\<close>



end
