(* ===== verification/Sse.thy ===== *)
theory Sse
  imports ChainApi
begin

text \<open>
  \<open>sse.py\<close>: the framing of server-sent events and the heartbeat around a source. A frame is built as
  code points and sent as UTF-8 (a lone surrogate in an id, on which \<open>encode\<close> raises, is left
  out). The facts: a frame has the lines it should have whatever the payload holds, and the payload
  can be read back; heartbeats do not disturb the chunks of the source.
\<close>

section \<open>Frames\<close>

text \<open>The code points of \<open>str(v)\<close>.\<close>

definition cps_of :: "json \<Rightarrow> nat list" where
  "cps_of v = (case v of JUni u \<Rightarrow> u | _ \<Rightarrow> cps (py_str v))"

definition frame_text :: "nat list list \<Rightarrow> nat list" where
  "frame_text lns = concat (map (\<lambda>l. l @ [10]) lns) @ [10]"

definition format_retry :: "int \<Rightarrow> nat list" where
  "format_retry ms = utf8_encode (frame_text [cps (''retry: '' @ show_int ms)])"

text \<open>No id is the null.\<close>

definition event_lines :: "string \<Rightarrow> json \<Rightarrow> string \<Rightarrow> nat list list" where
  "event_lines event i payload =
     [cps ''event: '' @ cps event] @ (if i = JNull then [] else [cps ''id: '' @ cps_of i])
       @ [cps ''data: '' @ cps payload]"

definition format_event :: "string \<Rightarrow> json \<Rightarrow> json \<Rightarrow> nat list res" where
  "format_event event i dat =
     mapR (\<lambda>payload. utf8_encode (frame_text (event_lines event i payload))) (json_dumps_res dat)"

definition format_comment :: "string \<Rightarrow> nat list" where
  "format_comment txt =
     utf8_encode (frame_text [cps ('': '' @ map (\<lambda>c. if c \<in> {CHR 0x0A, CHR 0x0D} then CHR '' '' else c) txt)])"

section \<open>Heartbeats\<close>

text \<open>
  What the source does next: a chunk, silence for a whole interval (with the clock's seconds at its
  end), its end, or an exception. The chunks the wrapper yields, and the exception that ends it.
\<close>

datatype source_step = Chunk "nat list" | Quiet nat | Ended | Failed exn

definition ping :: "nat \<Rightarrow> nat list" where
  "ping t = format_comment (''ping '' @ show_dec t)"

fun stream_with_heartbeat :: "source_step list \<Rightarrow> nat list list \<times> exn option" where
  "stream_with_heartbeat [] = ([], None)"
| "stream_with_heartbeat (Chunk b # es) = (let (bs, r) = stream_with_heartbeat es in (b # bs, r))"
| "stream_with_heartbeat (Quiet t # es) = (let (bs, r) = stream_with_heartbeat es in (ping t # bs, r))"
| "stream_with_heartbeat (Ended # es) = ([], None)"
| "stream_with_heartbeat (Failed e # es) = ([], Some e)"

section \<open>Facts\<close>

text \<open>What a client does with a frame: the lines between the line feeds.\<close>

fun lines_of :: "nat list \<Rightarrow> nat list list" where
  "lines_of [] = [[]]"
| "lines_of (x # xs) =
     (if x = 10 then [] # lines_of xs
      else (case lines_of xs of [] \<Rightarrow> [[x]] | l # ls \<Rightarrow> (x # l) # ls))"

lemma lines_of_line: "10 \<notin> set l \<Longrightarrow> lines_of (l @ 10 # r) = l # lines_of r"
  by (induction l) auto

lemma lines_of_frame: "list_all (\<lambda>l. 10 \<notin> set l) lns \<Longrightarrow> lines_of (frame_text lns) = lns @ [[], []]"
  by (induction lns) (auto simp: frame_text_def lines_of_line)

definition no_lf :: "string \<Rightarrow> bool" where
  "no_lf s \<longleftrightarrow> CHR 0x0A \<notin> set s"

lemma no_lf_append [simp]: "no_lf (s @ t) \<longleftrightarrow> no_lf s \<and> no_lf t"
  by (auto simp: no_lf_def)

lemma no_lf_Nil [simp]: "no_lf []"
  by (simp add: no_lf_def)

lemma no_lf_Cons [simp]: "no_lf (c # s) \<longleftrightarrow> c \<noteq> CHR 0x0A \<and> no_lf s"
  by (auto simp: no_lf_def)

lemma no_lf_digits: "list_all is_hex_digit s \<Longrightarrow> no_lf s"
  by (induction s) (auto simp: is_hex_digit_def)

lemma no_lf_cps: "no_lf s \<longleftrightarrow> 10 \<notin> set (cps s)"
proof -
  have "cp c = (10::nat) \<longleftrightarrow> c = CHR 0x0A" for c :: char
    using of_char_eq_iff [of c "CHR 0x0A", where 'a = nat] by simp
  then show ?thesis by (auto simp: no_lf_def image_iff)
qed

lemma no_lf_concat: "(\<And>s. s \<in> set ss \<Longrightarrow> no_lf s) \<Longrightarrow> no_lf (concat ss)"
  by (auto simp: no_lf_def)

lemma no_lf_join: "no_lf sep \<Longrightarrow> (\<And>s. s \<in> set ss \<Longrightarrow> no_lf s) \<Longrightarrow> no_lf (join sep ss)"
  by (induction sep ss rule: join.induct) auto

lemma no_lf_hex2: "no_lf (hex2 n)"
  by (rule no_lf_digits) (simp add: hex2_def list_all_iff)

lemma no_lf_esc: "no_lf (esc_cp n)"
proof -
  have "char_of n \<noteq> (CHR 0x0A :: char)" if "32 \<le> n" "n \<le> 126"
  proof
    assume "char_of n = (CHR 0x0A :: char)"
    then have "of_char (char_of n :: char) = (10::nat)" by simp
    with that show False by simp
  qed
  then show ?thesis by (auto simp: esc_cp_def hex4_def no_lf_hex2)
qed

lemma no_lf_dump_str: "no_lf (dump_str s)"
  unfolding dump_str_def by (auto intro!: no_lf_concat no_lf_esc)

lemma no_lf_show_dec: "no_lf (show_dec n)"
  by (rule no_lf_digits) (auto simp: list_all_iff is_hex_digit_def is_dec_digit_def
      dest!: show_dec_digits [of n, unfolded list_all_iff, rule_format])

lemma no_lf_dumps: "json_plain j \<Longrightarrow> no_lf (json_dumps j)"
proof (induction j rule: json_dumps.induct)
  case (7 xs)
  then show ?case by (auto simp: list_all_iff intro!: no_lf_join)
next
  case (8 d)
  then show ?case by (fastforce simp: list_all_iff no_lf_dump_str intro!: no_lf_join)
qed (auto simp: no_lf_dump_str no_lf_show_dec show_int_def)

lemma frame_scalar: "list_all (list_all scalar) lns \<Longrightarrow> list_all scalar (frame_text lns)"
  by (induction lns) (auto simp: frame_text_def scalar_def)

lemma heartbeat_filter:
  "filter (\<lambda>b. b \<notin> range ping) (fst (stream_with_heartbeat es))
     = filter (\<lambda>b. b \<notin> range ping)
         (List.map_filter (\<lambda>e. case e of Chunk b \<Rightarrow> Some b | _ \<Rightarrow> None)
            (takeWhile (\<lambda>e. e \<noteq> Ended \<and> (\<forall>x. e \<noteq> Failed x)) es))"
  by (induction es rule: stream_with_heartbeat.induct)
    (auto simp: map_filter_simps split: prod.splits)

section \<open>Properties\<close>

text \<open>
  C27. A frame says what it should and nothing else. For an event name and an id without a line
  feed and any payload, the bytes decode to text whose lines are the event, the id if there is one,
  the payload and the blank line that ends the frame; the payload is one line whatever strings it
  holds, and parses back to the value.
\<close>

theorem sse_frame_roundtrip:
  assumes "no_lf event" "10 \<notin> set (cps_of i)" "list_all scalar (cps_of i)" "json_plain dat"
  shows "\<exists>bs u payload. format_event event i dat = Inr bs \<and> utf8_decode bs = Inr u
    \<and> lines_of u = [cps ''event: '' @ cps event] @ (if i = JNull then [] else [cps ''id: '' @ cps_of i])
        @ [cps ''data: '' @ payload, [], []]
    \<and> json_loads payload = Inr dat"
proof -
  let ?ls = "event_lines event i (json_dumps dat)"
  have "list_all (\<lambda>l. 10 \<notin> set l) ?ls"
    using assms no_lf_dumps [OF assms(4)] by (auto simp: event_lines_def no_lf_cps)
  then have "lines_of (frame_text ?ls) = ?ls @ [[], []]" by (rule lines_of_frame)
  moreover have "list_all (list_all scalar) ?ls"
    using assms(3) cps_scalar [of "''event: '' @ event"] cps_scalar [of "''id: ''"]
      cps_scalar [of "''data: '' @ json_dumps dat"] by (auto simp: event_lines_def)
  then have "utf8_decode (utf8_encode (frame_text ?ls)) = Inr (frame_text ?ls)"
    by (intro utf8.dec_enc frame_scalar)
  moreover have "format_event event i dat = Inr (utf8_encode (frame_text ?ls))"
    using json_plain_dumpable [OF assms(4)] by (simp add: format_event_def json_dumps_res_def)
  moreover have "json_loads (cps (json_dumps dat)) = Inr dat" by (rule json_roundtrip [OF assms(4)])
  ultimately show ?thesis by (auto simp: event_lines_def)
qed

theorem sse_frame_roundtrip_witness:
  "\<exists>bs u payload. format_event ''block'' (JStr ''17'') (JObj [(''x'', JStr [CHR 0x0A])]) = Inr bs
    \<and> utf8_decode bs = Inr u
    \<and> lines_of u = [cps ''event: block'', cps ''id: 17'', cps ''data: '' @ payload, [], []]"
  using sse_frame_roundtrip [of "''block''" "JStr ''17''" "JObj [(''x'', JStr [CHR 0x0A])]"]
  by (auto simp: cps_of_def py_str_def scalar_def)

end
