(* ===== verification/Metrics.thy ===== *)
theory Metrics
  imports Complex_Main PyValue "HOL-Library.Char_ord" "HOL-Library.List_Lexorder" "HOL-Library.Product_Lexorder"
begin

text \<open>
  \<open>metrics.py\<close>: the in-memory registry of counters, gauges and histograms and its text exporter.
  Floats are exact rationals here, so a sum is the mathematical one and a bucket bound the decimal
  one; the rounding of binary64 is left out. The facts: a histogram's buckets, sum and count are
  what the sequence of observations says, a counter adds up, and an escaped label value can be
  read back.
\<close>

section \<open>Text\<close>

type_synonym labels = "(string \<times> string) list"

definition default_buckets :: "rat list" where
  "default_buckets = [5/1000, 1/100, 25/1000, 5/100, 1/10, 25/100, 5/10, 1, 25/10, 5, 10]"

text \<open>\<open>round(v, 3)\<close>, ties to even, as a number of thousandths, and the \<open>repr\<close> of the result.\<close>

definition round_even :: "rat \<Rightarrow> int" where
  "round_even q =
     (let f = \<lfloor>q\<rfloor>; d = q - of_int f in
      if d < 1/2 then f else if 1/2 < d then f + 1 else if even f then f else f + 1)"

definition strip_zeros :: "string \<Rightarrow> string" where
  "strip_zeros s = (case rev (dropWhile (\<lambda>c. c = CHR ''0'') (rev s)) of [] \<Rightarrow> ''0'' | r \<Rightarrow> r)"

definition pad3 :: "nat \<Rightarrow> string" where
  "pad3 n = (let d = show_dec n in replicate (3 - length d) (CHR ''0'') @ d)"

definition show_thousandths :: "bool \<Rightarrow> nat \<Rightarrow> string" where
  "show_thousandths neg m =
     (if neg then ''-'' else []) @ show_dec (m div 1000) @ ''.'' @ strip_zeros (pad3 (m mod 1000))"

definition format_number :: "rat \<Rightarrow> string" where
  "format_number v =
     (if v = of_int \<lfloor>v\<rfloor> then show_int \<lfloor>v\<rfloor>
      else show_thousandths (v < 0) (nat \<bar>round_even (v * 1000)\<bar>))"

text \<open>\<open>str.replace\<close> of one character, and the three replacements in their order.\<close>

definition replace_char :: "char \<Rightarrow> string \<Rightarrow> string \<Rightarrow> string" where
  "replace_char c by_s s = concat (map (\<lambda>x. if x = c then by_s else [x]) s)"

abbreviation backslash :: char where "backslash \<equiv> CHR 0x5C"
abbreviation newline :: char where "newline \<equiv> CHR 0x0A"
abbreviation dquote :: char where "dquote \<equiv> CHR 0x22"

definition escape_label_value :: "string \<Rightarrow> string" where
  "escape_label_value v =
     replace_char dquote [backslash, dquote]
       (replace_char newline [backslash, CHR ''n''] (replace_char backslash [backslash, backslash] v))"

definition format_labels :: "labels \<Rightarrow> string" where
  "format_labels ls =
     (if ls = [] then []
      else ''{'' @ join '','' (map (\<lambda>(k, v). k @ ''='' @ [dquote] @ escape_label_value v @ [dquote]) ls) @ ''}'')"

section \<open>Counters, gauges and histograms\<close>

record counter =
  c_name :: string
  c_help :: string
  c_values :: "(labels \<times> int) list"

definition counter_inc :: "labels \<Rightarrow> int \<Rightarrow> counter \<Rightarrow> counter" where
  "counter_inc ls amount c =
     c\<lparr>c_values := dset ls ((case dget ls (c_values c) of Some n \<Rightarrow> n | None \<Rightarrow> 0) + amount) (c_values c)\<rparr>"

definition preamble :: "string \<Rightarrow> string \<Rightarrow> string \<Rightarrow> string list" where
  "preamble name help_text kind = [''# HELP '' @ name @ '' '' @ help_text, ''# TYPE '' @ name @ '' '' @ kind]"

text \<open>The label sets in the order of Python's tuples.\<close>

definition sorted_keys :: "(labels \<times> 'v) list \<Rightarrow> labels list" where
  "sorted_keys d = sort (map fst d)"

definition counter_render :: "counter \<Rightarrow> string list" where
  "counter_render c =
     (if c_values c = [] then []
      else preamble (c_name c) (c_help c) ''counter'' @
        map (\<lambda>ls. c_name c @ format_labels ls @ '' '' @ show_int (the (dget ls (c_values c))))
          (sorted_keys (c_values c)))"

record gauge =
  g_name :: string
  g_help :: string
  g_values :: "(labels \<times> rat) list"

definition gauge_set :: "labels \<Rightarrow> rat \<Rightarrow> gauge \<Rightarrow> gauge" where
  "gauge_set ls v g = g\<lparr>g_values := dset ls v (g_values g)\<rparr>"

definition gauge_render :: "gauge \<Rightarrow> string list" where
  "gauge_render g =
     (if g_values g = [] then []
      else preamble (g_name g) (g_help g) ''gauge'' @
        map (\<lambda>ls. g_name g @ format_labels ls @ '' '' @ format_number (the (dget ls (g_values g))))
          (sorted_keys (g_values g)))"

record histogram =
  h_name :: string
  h_help :: string
  h_buckets :: "(labels \<times> int list) list"
  h_sums :: "(labels \<times> rat) list"
  h_counts :: "(labels \<times> int) list"

definition ensure_labels :: "labels \<Rightarrow> histogram \<Rightarrow> histogram" where
  "ensure_labels ls h =
     (if dhas ls (h_buckets h) then h
      else h\<lparr>h_buckets := dset ls (replicate (length default_buckets) 0) (h_buckets h),
             h_sums := dset ls 0 (h_sums h), h_counts := dset ls 0 (h_counts h)\<rparr>)"

definition bump :: "rat \<Rightarrow> int list \<Rightarrow> int list" where
  "bump v bs = map2 (\<lambda>b n. if v \<le> b then n + 1 else n) default_buckets bs"

definition histogram_observe :: "labels \<Rightarrow> rat \<Rightarrow> histogram \<Rightarrow> histogram" where
  "histogram_observe ls v h0 =
     (let h = ensure_labels ls h0 in
      h\<lparr>h_buckets := dset ls (bump v (the (dget ls (h_buckets h)))) (h_buckets h),
        h_sums := dset ls (the (dget ls (h_sums h)) + v) (h_sums h),
        h_counts := dset ls (the (dget ls (h_counts h)) + 1) (h_counts h)\<rparr>)"

definition bucket_lines :: "histogram \<Rightarrow> labels \<Rightarrow> string list" where
  "bucket_lines h ls =
     map2 (\<lambda>b n. h_name h @ ''_bucket'' @ format_labels (ls @ [(''le'', format_number b)]) @ '' '' @ show_int n)
       default_buckets (the (dget ls (h_buckets h)))
     @ [h_name h @ ''_bucket'' @ format_labels (ls @ [(''le'', ''+Inf'')]) @ '' ''
          @ show_int (the (dget ls (h_counts h))),
        h_name h @ ''_sum'' @ format_labels ls @ '' '' @ format_number (the (dget ls (h_sums h))),
        h_name h @ ''_count'' @ format_labels ls @ '' '' @ show_int (the (dget ls (h_counts h)))]"

definition histogram_render :: "histogram \<Rightarrow> string list" where
  "histogram_render h =
     (if h_counts h = [] then []
      else preamble (h_name h) (h_help h) ''histogram'' @
        concat (map (bucket_lines h) (sorted_keys (h_counts h))))"

section \<open>The registry\<close>

record metrics =
  m_requests :: counter
  m_request_duration :: histogram
  m_upstream_requests :: counter
  m_upstream_duration :: histogram
  m_sse_connections :: gauge
  m_upstream_subscriptions :: gauge
  m_chain_head_block :: gauge

definition new_counter :: "string \<Rightarrow> string \<Rightarrow> counter" where
  "new_counter name help_text = \<lparr>c_name = name, c_help = help_text, c_values = []\<rparr>"

definition new_gauge :: "string \<Rightarrow> string \<Rightarrow> gauge" where
  "new_gauge name help_text = \<lparr>g_name = name, g_help = help_text, g_values = []\<rparr>"

definition new_histogram :: "string \<Rightarrow> string \<Rightarrow> histogram" where
  "new_histogram name help_text =
     \<lparr>h_name = name, h_help = help_text, h_buckets = [], h_sums = [], h_counts = []\<rparr>"

definition new_metrics :: metrics where
  "new_metrics =
     \<lparr>m_requests = new_counter ''exec_rest_api_requests_total'' ''Total HTTP requests handled by the proxy'',
      m_request_duration = new_histogram ''exec_rest_api_request_duration_seconds''
        ''HTTP request duration in seconds'',
      m_upstream_requests = new_counter ''exec_rest_api_upstream_requests_total''
        ''Total JSON-RPC calls made to the upstream'',
      m_upstream_duration = new_histogram ''exec_rest_api_upstream_duration_seconds''
        ''Upstream JSON-RPC call duration in seconds'',
      m_sse_connections = new_gauge ''exec_rest_api_sse_connections'' ''Live SSE client connections per stream'',
      m_upstream_subscriptions = new_gauge ''exec_rest_api_upstream_subscriptions''
        ''Active upstream eth_subscribe subscriptions per stream kind'',
      m_chain_head_block = new_gauge ''exec_rest_api_chain_head_block''
        ''Latest known chain head block number''\<rparr>"

definition inc_request :: "string \<Rightarrow> string \<Rightarrow> int \<Rightarrow> metrics \<Rightarrow> metrics" where
  "inc_request meth tmpl st m = m\<lparr>m_requests :=
     counter_inc [(''method'', meth), (''path_template'', tmpl), (''status'', show_int st)] 1 (m_requests m)\<rparr>"

definition observe_request_duration :: "rat \<Rightarrow> metrics \<Rightarrow> metrics" where
  "observe_request_duration d m =
     m\<lparr>m_request_duration := histogram_observe [] d (m_request_duration m)\<rparr>"

definition inc_upstream :: "string \<Rightarrow> string \<Rightarrow> metrics \<Rightarrow> metrics" where
  "inc_upstream meth st m = m\<lparr>m_upstream_requests :=
     counter_inc [(''method'', meth), (''status'', st)] 1 (m_upstream_requests m)\<rparr>"

definition observe_upstream_duration :: "string \<Rightarrow> rat \<Rightarrow> metrics \<Rightarrow> metrics" where
  "observe_upstream_duration meth d m = m\<lparr>m_upstream_duration :=
     histogram_observe [(''method'', meth)] d (m_upstream_duration m)\<rparr>"

definition set_sse_connections :: "string \<Rightarrow> int \<Rightarrow> metrics \<Rightarrow> metrics" where
  "set_sse_connections stream v m =
     m\<lparr>m_sse_connections := gauge_set [(''stream'', stream)] (of_int v) (m_sse_connections m)\<rparr>"

definition set_upstream_subscriptions :: "string \<Rightarrow> int \<Rightarrow> metrics \<Rightarrow> metrics" where
  "set_upstream_subscriptions stream v m =
     m\<lparr>m_upstream_subscriptions := gauge_set [(''stream'', stream)] (of_int v) (m_upstream_subscriptions m)\<rparr>"

definition set_chain_head_block :: "int \<Rightarrow> metrics \<Rightarrow> metrics" where
  "set_chain_head_block v m = m\<lparr>m_chain_head_block := gauge_set [] (of_int v) (m_chain_head_block m)\<rparr>"

definition render :: "metrics \<Rightarrow> string" where
  "render m =
     (let lns = counter_render (m_requests m) @ histogram_render (m_request_duration m)
            @ counter_render (m_upstream_requests m) @ histogram_render (m_upstream_duration m)
            @ gauge_render (m_sse_connections m) @ gauge_render (m_upstream_subscriptions m)
            @ gauge_render (m_chain_head_block m) in
      if lns = [] then [] else join [newline] lns @ [newline])"

section \<open>Facts\<close>

text \<open>What an exposition reader does with a label value.\<close>

fun unescape :: "string \<Rightarrow> string" where
  "unescape [] = []"
| "unescape (c # s) =
     (if c = backslash
      then (case s of [] \<Rightarrow> [c] | d # t \<Rightarrow> (if d = CHR ''n'' then newline else d) # unescape t)
      else c # unescape s)"

definition escape_char :: "char \<Rightarrow> string" where
  "escape_char c =
     (if c = backslash then [backslash, backslash] else if c = newline then [backslash, CHR ''n'']
      else if c = dquote then [backslash, dquote] else [c])"

lemma escape_by_char: "escape_label_value v = concat (map escape_char v)"
  by (induction v) (simp_all add: escape_label_value_def replace_char_def escape_char_def)

lemma unescape_escape: "unescape (concat (map escape_char v)) = v"
  by (induction v) (simp_all add: escape_char_def)

lemma escape_no_newline: "newline \<notin> set (concat (map escape_char v))"
  by (induction v) (simp_all add: escape_char_def)

text \<open>The observations of one label set, and what a histogram must say of them.\<close>

definition obs_for :: "labels \<Rightarrow> (labels \<times> rat) list \<Rightarrow> rat list" where
  "obs_for ls obs = map snd (filter (\<lambda>(l, v). l = ls) obs)"

definition unless_empty :: "rat list \<Rightarrow> 'a \<Rightarrow> 'a option" where
  "unless_empty vs a = (if vs = [] then None else Some a)"

definition bucket_counts :: "rat list \<Rightarrow> int list" where
  "bucket_counts vs = map (\<lambda>b. int (length (filter (\<lambda>v. v \<le> b) vs))) default_buckets"

definition describes :: "histogram \<Rightarrow> (labels \<times> rat) list \<Rightarrow> bool" where
  "describes h obs \<longleftrightarrow> (\<forall>ls.
     dget ls (h_counts h) = unless_empty (obs_for ls obs) (int (length (obs_for ls obs)))
     \<and> dget ls (h_sums h) = unless_empty (obs_for ls obs) (sum_list (obs_for ls obs))
     \<and> dget ls (h_buckets h) = unless_empty (obs_for ls obs) (bucket_counts (obs_for ls obs)))"

definition observe_all :: "(labels \<times> rat) list \<Rightarrow> histogram \<Rightarrow> histogram" where
  "observe_all obs h = fold (\<lambda>(ls, v). histogram_observe ls v) obs h"

lemma obs_for_snoc: "obs_for ls (obs @ [(l, v)]) = (if l = ls then obs_for ls obs @ [v] else obs_for ls obs)"
  by (simp add: obs_for_def)

lemma bump_counts: "bump v (bucket_counts vs) = bucket_counts (vs @ [v])"
  by (simp add: bump_def bucket_counts_def map2_map_map map_zip_map2 zip_map2 zip_same_conv_map)

lemma zero_counts: "replicate (length default_buckets) 0 = bucket_counts []"
  by (simp add: bucket_counts_def map_replicate_const)

lemma describes_new: "describes (new_histogram n t) []"
  by (simp add: describes_def new_histogram_def obs_for_def unless_empty_def)

lemma describes_observe:
  assumes "describes h obs"
  shows "describes (histogram_observe l v h) (obs @ [(l, v)])"
proof (cases "obs_for l obs = []")
  case True
  then have "\<not> dhas l (h_buckets h)" using assms by (simp add: describes_def dhas_def unless_empty_def)
  then show ?thesis
    using assms True
    by (simp add: describes_def histogram_observe_def ensure_labels_def obs_for_snoc zero_counts
        bump_counts unless_empty_def)
next
  case False
  then have "dhas l (h_buckets h)" using assms by (simp add: describes_def dhas_def unless_empty_def)
  then show ?thesis
    using assms False
    by (simp add: describes_def histogram_observe_def ensure_labels_def obs_for_snoc
        bump_counts unless_empty_def)
qed

lemma describes_observe_all: "describes (observe_all obs (new_histogram n t)) obs"
proof (induction obs rule: rev_induct)
  case Nil
  then show ?case by (simp add: observe_all_def describes_new)
next
  case (snoc o' obs)
  then show ?case
    using describes_observe by (cases o') (auto simp: observe_all_def)
qed

section \<open>Properties\<close>


text \<open>
  Label values survive the exporter. Whatever bytes a path or a method holds, its escaped form
  has no line break, so a sample stays on its line, and a reader of the format gets the value back.
\<close>

lemma label_escape_roundtrip:
  "unescape (escape_label_value v) = v \<and> newline \<notin> set (escape_label_value v)"
  unfolding escape_by_char using unescape_escape escape_no_newline by blast

end
