(* ===== verification/Subscriptions.thy ===== *)
theory Subscriptions
  imports Sse Metrics
begin

text \<open>
  \<open>subscriptions.py\<close>: one upstream subscription per kind and parameters, shared by any number of
  consumer queues. The tasks of the process interleave at their awaits only, so a step is the code
  between two of them, and the lock that spans an await is part of the state. Slots are shared
  objects (the two dictionaries and the closures of the consumer streams hold the same one), hence
  a store of slots and references. The facts: an invariant of every reachable state, who hears a
  notification, and what a reconnect does.
\<close>

section \<open>State\<close>

datatype stream_event = Event json | Gap

record slot =
  slot_kind :: string
  slot_params :: json
  subscription_id :: "json option"
  consumers :: "nat list"

type_synonym slot_key = "string \<times> string"

text \<open>\<open>_canonicalize\<close>: \<open>json.dumps\<close> with sorted keys and without spaces.\<close>

fun sort_keys :: "json \<Rightarrow> json" where
  "sort_keys (JList xs) = JList (map sort_keys xs)"
| "sort_keys (JObj d) = JObj (sort_key fst (map (\<lambda>(k, v). (k, sort_keys v)) d))"
| "sort_keys v = v"

definition canonicalize :: "json \<Rightarrow> string" where
  "canonicalize params = json_dumps (sort_keys params)"

definition key_of_slot :: "slot \<Rightarrow> slot_key" where
  "key_of_slot s = (slot_kind s, canonicalize (slot_params s))"

text \<open>The stream object a consumer holds: its key, its slot, and whether it was closed.\<close>

record consumer_stream =
  cs_key :: slot_key
  cs_slot :: nat
  cs_closed :: bool

text \<open>
  Who holds the lock: nobody, a subscriber waiting for the reply to its request, or the reconnect
  waiting for the reply about the first of the slots it still has to re-subscribe.
\<close>

datatype lock_holder = Free | Subscribing string json nat | Resubscribing "nat list"

record manager =
  slots :: "(slot_key \<times> nat) list"
  by_id :: "(json \<times> nat) list"
  store :: "nat \<Rightarrow> slot"
  next_slot :: nat
  queues :: "nat \<Rightarrow> stream_event list"
  streams :: "nat \<Rightarrow> consumer_stream option"
  next_queue :: nat
  lock :: lock_holder
  gauges :: "string \<Rightarrow> int option"

definition no_slot :: slot where
  "no_slot = \<lparr>slot_kind = [], slot_params = JNull, subscription_id = None, consumers = []\<rparr>"

definition new_manager :: manager where
  "new_manager = \<lparr>slots = [], by_id = [], store = (\<lambda>r. no_slot), next_slot = 0,
     queues = (\<lambda>q. []), streams = (\<lambda>q. None), next_queue = 0, lock = Free, gauges = (\<lambda>k. None)\<rparr>"

definition max_queue :: nat where
  "max_queue = 1024"

section \<open>Operations\<close>

definition publish_gauge :: "string \<Rightarrow> manager \<Rightarrow> manager" where
  "publish_gauge kind m =
     m\<lparr>gauges := (gauges m)(kind \<mapsto>
        int (length (filter (\<lambda>(k, r). slot_kind (store m r) = kind) (slots m))))\<rparr>"

text \<open>A full queue drops the event.\<close>

definition enqueue :: "stream_event \<Rightarrow> nat \<Rightarrow> manager \<Rightarrow> manager" where
  "enqueue ev q m =
     (if length (queues m q) < max_queue then m\<lparr>queues := (queues m)(q := queues m q @ [ev])\<rparr> else m)"

definition deliver :: "stream_event \<Rightarrow> nat list \<Rightarrow> manager \<Rightarrow> manager" where
  "deliver ev qs m = fold (enqueue ev) qs m"

definition on_notification :: "dict \<Rightarrow> manager \<Rightarrow> manager res" where
  "on_notification payload m =
     (let params = (case dget ''params'' payload of Some v \<Rightarrow> if truthy v then v else JObj [] | None \<Rightarrow> JObj []) in
      bindE (jget ''subscription'' params) (\<lambda>sub_id.
        if \<not> is_str sub_id then Inr m
        else (case dget sub_id (by_id m) of
                None \<Rightarrow> Inr m
              | Some r \<Rightarrow> bindE (jget ''result'' params) (\<lambda>v.
                  Inr (deliver (Event v) (consumers (store m r)) m)))))"

definition subscribe_args :: "string \<Rightarrow> json \<Rightarrow> json list" where
  "subscribe_args kind params = (if params = JNull then [JStr kind] else [JStr kind, params])"

text \<open>The stream of a queue, handed to the caller once the lock is released.\<close>

definition open_stream :: "nat \<Rightarrow> slot_key \<Rightarrow> nat \<Rightarrow> manager \<Rightarrow> manager" where
  "open_stream q k r m = m\<lparr>streams := (streams m)(q \<mapsto> \<lparr>cs_key = k, cs_slot = r, cs_closed = False\<rparr>)\<rparr>"

text \<open>\<open>subscribe\<close> up to its await: a known slot is joined at once, a new one waits for the reply.\<close>

definition subscribe_begin :: "string \<Rightarrow> json \<Rightarrow> manager \<Rightarrow> manager" where
  "subscribe_begin kind params m =
     (let q = next_queue m; k = (kind, canonicalize params);
          m1 = m\<lparr>next_queue := q + 1, queues := (queues m)(q := [])\<rparr> in
      case dget k (slots m) of
        Some r \<Rightarrow> open_stream q k r
          (m1\<lparr>store := (store m)(r := (store m r)\<lparr>consumers := consumers (store m r) @ [q]\<rparr>)\<rparr>)
      | None \<Rightarrow> m1\<lparr>lock := Subscribing kind params q\<rparr>)"

text \<open>The slot of a new subscription, entered with the queue of the subscriber; the lock is released.\<close>

definition new_slot :: "string \<Rightarrow> json \<Rightarrow> nat \<Rightarrow> json \<Rightarrow> manager \<Rightarrow> manager" where
  "new_slot kind params q sub_id m =
     m\<lparr>lock := Free, next_slot := next_slot m + 1,
       store := (store m)(next_slot m := \<lparr>slot_kind = kind, slot_params = params,
          subscription_id = Some sub_id, consumers = [q]\<rparr>),
       slots := dset (kind, canonicalize params) (next_slot m) (slots m)\<rparr>"

text \<open>
  The rest of \<open>subscribe\<close> with the outcome of the request. A result that cannot be a dictionary
  key raises when it is entered, after the slot was.
\<close>

definition subscribe_end :: "string \<Rightarrow> json \<Rightarrow> nat \<Rightarrow> json res \<Rightarrow> manager \<Rightarrow> manager" where
  "subscribe_end kind params q outcome m =
     (case outcome of
        Inl e \<Rightarrow> m\<lparr>lock := Free\<rparr>
      | Inr sub_id \<Rightarrow>
          (let m1 = new_slot kind params q sub_id m; r = next_slot m in
           if hashable sub_id
           then open_stream q (kind, canonicalize params) r
             (publish_gauge kind (m1\<lparr>by_id := dset sub_id r (by_id m1)\<rparr>))
           else m1))"

text \<open>
  What the caller of \<open>subscribe\<close> sees: without a connection no lock is taken and nothing changes, and a
  request that failed because the socket closed is reported like a missing connection.
\<close>

definition subscribe_check :: "bool \<Rightarrow> unit res" where
  "subscribe_check ws_connected =
     (if ws_connected then Inr () else Inl (SubscriptionUnavailable ''upstream WS not connected''))"

definition subscribe_error :: "exn \<Rightarrow> exn" where
  "subscribe_error e = (case e of UpstreamWsClosed msg \<Rightarrow> SubscriptionUnavailable msg | _ \<Rightarrow> e)"

definition close_stream :: "nat \<Rightarrow> manager \<Rightarrow> manager" where
  "close_stream q m =
     (case streams m q of
        Some cs \<Rightarrow> m\<lparr>streams := (streams m)(q \<mapsto> cs\<lparr>cs_closed := True\<rparr>)\<rparr>
      | None \<Rightarrow> m)"

definition remove_consumer :: "slot_key \<Rightarrow> nat \<Rightarrow> nat \<Rightarrow> manager \<Rightarrow> manager" where
  "remove_consumer k r q m =
     (let s = store m r; rest = remove1 q (consumers s);
          m1 = m\<lparr>store := (store m)(r := s\<lparr>consumers := rest\<rparr>)\<rparr>;
          m2 = m1\<lparr>slots := ddel k (slots m)\<rparr> in
      if q \<notin> set (consumers s) then m
      else if rest \<noteq> [] then m1
      else (case subscription_id s of
              None \<Rightarrow> publish_gauge (slot_kind s) m2
            | Some i \<Rightarrow> if hashable i then publish_gauge (slot_kind s) (m2\<lparr>by_id := ddel i (by_id m)\<rparr>)
                else m2))"

text \<open>
  The id that is unsubscribed upstream once the lock is released: the one of an emptied slot, while
  there is a connection. A failure of that request is only logged.
\<close>

definition to_unsubscribe :: "bool \<Rightarrow> nat \<Rightarrow> nat \<Rightarrow> manager \<Rightarrow> json option" where
  "to_unsubscribe ws_connected r q m =
     (if ws_connected \<and> q \<in> set (consumers (store m r)) \<and> remove1 q (consumers (store m r)) = []
      then (case subscription_id (store m r) of
              None \<Rightarrow> None | Some i \<Rightarrow> if hashable i then Some i else None)
      else None)"

definition wait_for :: "nat list \<Rightarrow> lock_holder" where
  "wait_for rs = (if rs = [] then Free else Resubscribing rs)"

definition reconnect_begin :: "manager \<Rightarrow> manager" where
  "reconnect_begin m = m\<lparr>by_id := [], lock := wait_for (map snd (slots m))\<rparr>"

text \<open>One round of the loop, with the outcome of the request for slot \<open>r\<close>.\<close>

definition resubscribe :: "nat \<Rightarrow> nat list \<Rightarrow> json res \<Rightarrow> manager \<Rightarrow> manager" where
  "resubscribe r rs outcome m =
     (let gap = deliver Gap (consumers (store m r)) in
      case outcome of
        Inl e \<Rightarrow> if e = CancelledError then m\<lparr>lock := Free\<rparr> else gap (m\<lparr>lock := wait_for rs\<rparr>)
      | Inr new_id \<Rightarrow>
          (let m1 = m\<lparr>store := (store m)(r := (store m r)\<lparr>subscription_id := Some new_id\<rparr>)\<rparr> in
           if hashable new_id
           then gap (m1\<lparr>by_id := dset new_id r (by_id m1), lock := wait_for rs\<rparr>)
           else m1\<lparr>lock := Free\<rparr>))"

text \<open>\<open>__anext__\<close> of a stream that is open and has an event.\<close>

definition next_event :: "nat \<Rightarrow> manager \<Rightarrow> (stream_event \<times> manager) option" where
  "next_event q m =
     (case (streams m q, queues m q) of
        (Some cs, ev # evs) \<Rightarrow>
          (if cs_closed cs then None else Some (ev, m\<lparr>queues := (queues m)(q := evs)\<rparr>))
      | _ \<Rightarrow> None)"

section \<open>Steps\<close>

inductive mstep :: "manager \<Rightarrow> manager \<Rightarrow> bool" where
  notify: "on_notification payload m = Inr m' \<Longrightarrow> mstep m m'"
| sub_begin: "lock m = Free \<Longrightarrow> mstep m (subscribe_begin kind params m)"
| sub_end: "lock m = Subscribing kind params q \<Longrightarrow> mstep m (subscribe_end kind params q outcome m)"
| close: "streams m q = Some cs \<Longrightarrow> mstep m (close_stream q m)"
| remove: "lock m = Free \<Longrightarrow> streams m q = Some cs \<Longrightarrow> cs_closed cs \<Longrightarrow>
    mstep m (remove_consumer (cs_key cs) (cs_slot cs) q m)"
| re_begin: "lock m = Free \<Longrightarrow> mstep m (reconnect_begin m)"
| re_reply: "lock m = Resubscribing (r # rs) \<Longrightarrow> mstep m (resubscribe r rs outcome m)"
| receive: "next_event q m = Some (ev, m') \<Longrightarrow> mstep m m'"

inductive_cases mstepE: "mstep m m'"

definition reachable :: "manager \<Rightarrow> bool" where
  "reachable m \<longleftrightarrow> mstep\<^sup>*\<^sup>* new_manager m"

section \<open>Delivery\<close>

lemma enqueue_frame [simp]:
  "slots (enqueue ev q m) = slots m" "by_id (enqueue ev q m) = by_id m" "store (enqueue ev q m) = store m"
  "next_slot (enqueue ev q m) = next_slot m" "streams (enqueue ev q m) = streams m"
  "next_queue (enqueue ev q m) = next_queue m" "lock (enqueue ev q m) = lock m"
  "gauges (enqueue ev q m) = gauges m"
  by (simp_all add: enqueue_def)

lemma deliver_Nil [simp]: "deliver ev [] m = m"
  by (simp add: deliver_def)

lemma deliver_Cons [simp]: "deliver ev (q # qs) m = deliver ev qs (enqueue ev q m)"
  by (simp add: deliver_def)

lemma deliver_frame [simp]:
  "slots (deliver ev qs m) = slots m" "by_id (deliver ev qs m) = by_id m" "store (deliver ev qs m) = store m"
  "next_slot (deliver ev qs m) = next_slot m" "streams (deliver ev qs m) = streams m"
  "next_queue (deliver ev qs m) = next_queue m" "lock (deliver ev qs m) = lock m"
  "gauges (deliver ev qs m) = gauges m"
  by (induction qs arbitrary: m) simp_all

lemma deliver_queues:
  "distinct qs \<Longrightarrow> queues (deliver ev qs m) q =
     (if q \<in> set qs \<and> length (queues m q) < max_queue then queues m q @ [ev] else queues m q)"
  by (induction qs arbitrary: m) (auto simp: enqueue_def)

lemma deliver_bound:
  "length (queues m q) \<le> max_queue \<Longrightarrow> length (queues (deliver ev qs m) q) \<le> max_queue"
  by (induction qs arbitrary: m) (auto simp: enqueue_def)

section \<open>The invariant\<close>

definition live :: "manager \<Rightarrow> nat set" where
  "live m = snd ` set (slots m)"

text \<open>The slots: one per key, each with the key it is filed under and at least one consumer.\<close>

definition slots_ok :: "manager \<Rightarrow> bool" where
  "slots_ok m \<longleftrightarrow> distinct (map fst (slots m)) \<and> distinct (map snd (slots m))
     \<and> (\<forall>k r. (k, r) \<in> set (slots m) \<longrightarrow> r < next_slot m \<and> key_of_slot (store m r) = k
          \<and> consumers (store m r) \<noteq> [])"

text \<open>The consumers: each in one slot at most, once, and that slot is live.\<close>

definition consumers_ok :: "manager \<Rightarrow> bool" where
  "consumers_ok m \<longleftrightarrow> (\<forall>r. distinct (consumers (store m r)))
     \<and> (\<forall>r q. q \<in> set (consumers (store m r)) \<longrightarrow> q < next_queue m \<and> r \<in> live m)
     \<and> (\<forall>r r' q. q \<in> set (consumers (store m r)) \<longrightarrow> q \<in> set (consumers (store m r')) \<longrightarrow> r = r')"

definition ids_ok :: "manager \<Rightarrow> bool" where
  "ids_ok m \<longleftrightarrow> (\<forall>i r. (i, r) \<in> set (by_id m) \<longrightarrow> r \<in> live m
     \<and> subscription_id (store m r) = Some i \<and> hashable i)"

definition streams_ok :: "manager \<Rightarrow> bool" where
  "streams_ok m \<longleftrightarrow> (\<forall>q cs. streams m q = Some cs \<longrightarrow> q < next_queue m
     \<and> (\<forall>r. q \<in> set (consumers (store m r)) \<longrightarrow> cs_slot cs = r \<and> cs_key cs = key_of_slot (store m r)))"

definition queues_ok :: "manager \<Rightarrow> bool" where
  "queues_ok m \<longleftrightarrow> (\<forall>q. length (queues m q) \<le> max_queue)"

definition lock_ok :: "manager \<Rightarrow> bool" where
  "lock_ok m \<longleftrightarrow> (case lock m of
       Free \<Rightarrow> True
     | Subscribing kind params q \<Rightarrow> (kind, canonicalize params) \<notin> fst ` set (slots m) \<and> q < next_queue m
         \<and> streams m q = None \<and> (\<forall>r. q \<notin> set (consumers (store m r)))
     | Resubscribing rs \<Rightarrow> rs \<noteq> [] \<and> distinct rs \<and> set rs \<subseteq> live m \<and> set rs \<inter> snd ` set (by_id m) = {})"

definition mgr_ok :: "manager \<Rightarrow> bool" where
  "mgr_ok m \<longleftrightarrow> slots_ok m \<and> consumers_ok m \<and> ids_ok m \<and> streams_ok m \<and> queues_ok m \<and> lock_ok m"

lemmas ok_defs = slots_ok_def consumers_ok_def ids_ok_def streams_ok_def queues_ok_def lock_ok_def live_def

lemma mgr_ok_new: "mgr_ok new_manager"
  by (simp add: mgr_ok_def ok_defs new_manager_def no_slot_def)

lemma live_key: "slots_ok m \<Longrightarrow> r \<in> live m \<Longrightarrow> (key_of_slot (store m r), r) \<in> set (slots m)"
  unfolding slots_ok_def live_def by force

lemma filed_iff: "slots_ok m \<Longrightarrow> (k, r) \<in> set (slots m) \<longleftrightarrow> r \<in> live m \<and> k = key_of_slot (store m r)"
proof
  assume "slots_ok m" "(k, r) \<in> set (slots m)"
  then show "r \<in> live m \<and> k = key_of_slot (store m r)"
    unfolding slots_ok_def by (metis live_def image_eqI snd_conv)
qed (use live_key in blast)

lemma live_less: "slots_ok m \<Longrightarrow> r \<in> live m \<Longrightarrow> r < next_slot m"
  using live_key unfolding slots_ok_def by blast

lemma dget_slot:
  assumes "slots_ok m" "dget k (slots m) = Some r"
  shows "key_of_slot (store m r) = k \<and> r \<in> live m"
proof -
  from assms(2) have "(k, r) \<in> set (slots m)" by (rule map_of_SomeD)
  moreover from this have "r \<in> live m" by (force simp: live_def)
  ultimately show ?thesis using assms(1) unfolding slots_ok_def by blast
qed

text \<open>The parts look at few fields only.\<close>

lemma mgr_ok_deliver:
  assumes "mgr_ok m"
  shows "mgr_ok (deliver ev qs m)"
proof -
  have "queues_ok (deliver ev qs m)"
    using assms deliver_bound by (auto simp: mgr_ok_def queues_ok_def)
  moreover have "slots_ok (deliver ev qs m)" "consumers_ok (deliver ev qs m)" "ids_ok (deliver ev qs m)"
    "streams_ok (deliver ev qs m)" "lock_ok (deliver ev qs m)"
    using assms by (simp_all add: mgr_ok_def slots_ok_def consumers_ok_def ids_ok_def streams_ok_def
        lock_ok_def live_def split: lock_holder.splits)
  ultimately show ?thesis by (simp add: mgr_ok_def)
qed

lemma mgr_ok_gauge [simp]: "mgr_ok (publish_gauge k m) = mgr_ok m"
  unfolding mgr_ok_def slots_ok_def consumers_ok_def ids_ok_def streams_ok_def queues_ok_def lock_ok_def live_def
    publish_gauge_def
  by (cases "lock m") simp_all

lemma mgr_ok_notify: "mgr_ok m \<Longrightarrow> on_notification payload m = Inr m' \<Longrightarrow> mgr_ok m'"
  by (auto simp: on_notification_def Let_def res_iffs mgr_ok_deliver split: if_splits option.splits)

lemma mgr_ok_join:
  assumes ok: "mgr_ok m" and free: "lock m = Free" and r: "dget (kind, canonicalize params) (slots m) = Some r"
  shows "mgr_ok (subscribe_begin kind params m)"
proof -
  have s: "slots_ok m" and c: "consumers_ok m" and t: "streams_ok m"
    using ok by (simp_all add: mgr_ok_def)
  have key: "key_of_slot (store m r) = (kind, canonicalize params)" and lv: "r \<in> live m"
    using dget_slot [OF s r] by simp_all
  have q: "next_queue m \<notin> set (consumers (store m r'))" for r'
    using c by (force simp: consumers_ok_def)
  let ?m = "subscribe_begin kind params m"
  have m: "?m = open_stream (next_queue m) (kind, canonicalize params) r
     (m\<lparr>next_queue := next_queue m + 1, queues := (queues m)(next_queue m := []),
        store := (store m)(r := (store m r)\<lparr>consumers := consumers (store m r) @ [next_queue m]\<rparr>)\<rparr>)"
    using r by (simp add: subscribe_begin_def Let_def)
  have "slots_ok ?m"
    using s by (auto simp: m open_stream_def slots_ok_def key_of_slot_def)
  moreover have "consumers_ok ?m"
    using c q lv by (auto simp: m open_stream_def consumers_ok_def live_def less_Suc_eq)
  moreover have "ids_ok ?m"
    using ok by (auto simp: mgr_ok_def m open_stream_def ids_ok_def live_def)
  moreover have "streams_ok ?m"
    using t key q by (auto simp: m open_stream_def streams_ok_def key_of_slot_def less_Suc_eq)
  moreover have "queues_ok ?m" "lock_ok ?m"
    using ok free by (simp_all add: mgr_ok_def m open_stream_def queues_ok_def lock_ok_def)
  ultimately show ?thesis by (simp add: mgr_ok_def)
qed

lemma mgr_ok_ask:
  assumes ok: "mgr_ok m" and free: "lock m = Free" and r: "dget (kind, canonicalize params) (slots m) = None"
  shows "mgr_ok (subscribe_begin kind params m)"
proof -
  have c: "consumers_ok m" and t: "streams_ok m"
    using ok by (simp_all add: mgr_ok_def)
  have q: "next_queue m \<notin> set (consumers (store m r'))" for r'
    using c by (force simp: consumers_ok_def)
  have n: "streams m (next_queue m) = None"
    using t by (cases "streams m (next_queue m)") (auto simp: streams_ok_def)
  have k: "(kind, canonicalize params) \<notin> fst ` set (slots m)"
    using r by (simp add: map_of_eq_None_iff)
  have m: "subscribe_begin kind params m = m\<lparr>next_queue := next_queue m + 1,
      queues := (queues m)(next_queue m := []), lock := Subscribing kind params (next_queue m)\<rparr>" (is "_ = ?m")
    using r by (simp add: subscribe_begin_def Let_def)
  have "slots_ok ?m" "ids_ok ?m" "queues_ok ?m"
    using ok by (simp_all add: mgr_ok_def slots_ok_def ids_ok_def live_def queues_ok_def)
  moreover have "consumers_ok ?m"
    using c by (auto simp: consumers_ok_def live_def less_Suc_eq)
  moreover have "streams_ok ?m"
    using t by (auto simp: streams_ok_def less_Suc_eq)
  moreover have "lock_ok ?m"
    using q n k by (simp add: lock_ok_def)
  ultimately show ?thesis by (simp add: mgr_ok_def m)
qed

lemma mgr_ok_begin: "mgr_ok m \<Longrightarrow> lock m = Free \<Longrightarrow> mgr_ok (subscribe_begin kind params m)"
  by (cases "dget (kind, canonicalize params) (slots m)") (blast intro: mgr_ok_ask mgr_ok_join)+

lemma set_dset_fresh: "k \<notin> fst ` set d \<Longrightarrow> dset k v d = d @ [(k, v)]"
  by (rule dset_fresh) (simp add: dhas_def map_of_eq_None_iff)

lemma set_dset_sub: "set (dset k v d) \<subseteq> insert (k, v) (set d)"
  by (induction k v d rule: dset.induct) (auto split: if_splits)

lemma mgr_ok_unlock:
  assumes "mgr_ok m"
  shows "mgr_ok (m\<lparr>lock := Free\<rparr>)"
  using assms by (simp add: mgr_ok_def ok_defs)

text \<open>Entering an id that no open request waits for keeps the invariant.\<close>

lemma mgr_ok_enter:
  assumes ok: "mgr_ok m" and "lock m = Free" and "r \<in> live m" "subscription_id (store m r) = Some i" "hashable i"
  shows "mgr_ok (m\<lparr>by_id := dset i r (by_id m)\<rparr>)"
proof -
  let ?m = "m\<lparr>by_id := dset i r (by_id m)\<rparr>"
  have "ids_ok ?m"
    using assms set_dset_sub [of i r "by_id m"] by (auto simp: mgr_ok_def ids_ok_def live_def)
  moreover have "slots_ok ?m" "consumers_ok ?m" "streams_ok ?m" "queues_ok ?m" "lock_ok ?m"
    using assms by (simp_all add: mgr_ok_def slots_ok_def consumers_ok_def streams_ok_def queues_ok_def
        lock_ok_def live_def)
  ultimately show ?thesis by (simp add: mgr_ok_def)
qed

lemma mgr_ok_new_slot:
  assumes ok: "mgr_ok m" and wait: "lock m = Subscribing kind params q"
  shows "mgr_ok (new_slot kind params q sub_id m)"
proof -
  let ?k = "(kind, canonicalize params)" and ?m = "new_slot kind params q sub_id m"
  have w: "?k \<notin> fst ` set (slots m)" "q < next_queue m" "streams m q = None"
    "\<And>r. q \<notin> set (consumers (store m r))"
    using ok wait by (simp_all add: mgr_ok_def lock_ok_def)
  have sl: "slots ?m = slots m @ [(?k, next_slot m)]"
    using w(1) by (simp add: new_slot_def set_dset_fresh)
  have old: "r \<noteq> next_slot m" if "r \<in> live m" for r
    using ok that live_less by (auto simp: mgr_ok_def)
  have lv: "live ?m = insert (next_slot m) (live m)"
    by (simp add: live_def sl)
  have fresh: "next_slot m \<notin> snd ` set (slots m)"
    using old [unfolded live_def] by blast
  then have unfiled: "(k, next_slot m) \<notin> set (slots m)" for k
    by force
  have "slots_ok ?m"
    unfolding slots_ok_def sl
    using ok w(1) fresh unfiled
    by (auto simp: mgr_ok_def slots_ok_def new_slot_def key_of_slot_def live_def less_Suc_eq)
  moreover have "consumers_ok ?m"
    unfolding consumers_ok_def lv
    using ok w by (auto simp: mgr_ok_def consumers_ok_def new_slot_def)
  moreover have "ids_ok ?m"
    unfolding ids_ok_def lv
    using ok old by (auto simp: mgr_ok_def ids_ok_def new_slot_def)
  moreover have "streams_ok ?m"
    using ok w old by (auto simp: mgr_ok_def streams_ok_def new_slot_def key_of_slot_def)
  moreover have "queues_ok ?m" "lock_ok ?m"
    using ok by (simp_all add: mgr_ok_def queues_ok_def lock_ok_def new_slot_def)
  ultimately show ?thesis by (simp add: mgr_ok_def)
qed

lemma mgr_ok_open:
  assumes ok: "mgr_ok m" and "lock m = Free" "q < next_queue m"
    and r: "q \<in> set (consumers (store m r))" and k: "key_of_slot (store m r) = k"
  shows "mgr_ok (open_stream q k r m)"
proof -
  let ?m = "open_stream q k r m"
  have "r' = r" if "q \<in> set (consumers (store m r'))" for r'
    using ok r that unfolding mgr_ok_def consumers_ok_def by blast
  then have one: "q \<in> set (consumers (store m r')) \<longrightarrow> r = r' \<and> k = key_of_slot (store m r')" for r'
    using k by blast
  have "streams_ok ?m"
    using ok \<open>q < next_queue m\<close> one unfolding mgr_ok_def streams_ok_def open_stream_def by simp
  moreover have "slots_ok ?m" "consumers_ok ?m" "ids_ok ?m" "queues_ok ?m" "lock_ok ?m"
    using assms by (simp_all add: mgr_ok_def slots_ok_def consumers_ok_def ids_ok_def queues_ok_def
        lock_ok_def live_def open_stream_def)
  ultimately show ?thesis by (simp add: mgr_ok_def)
qed

lemma mgr_ok_end:
  assumes ok: "mgr_ok m" and wait: "lock m = Subscribing kind params q"
  shows "mgr_ok (subscribe_end kind params q outcome m)"
proof (cases outcome)
  case (Inl e)
  with ok show ?thesis by (simp add: subscribe_end_def mgr_ok_unlock)
next
  case (Inr i)
  let ?m1 = "new_slot kind params q i m" and ?k = "(kind, canonicalize params)"
  let ?m2 = "publish_gauge kind (?m1\<lparr>by_id := dset i (next_slot m) (by_id ?m1)\<rparr>)"
  have k: "?k \<notin> fst ` set (slots m)" and q: "q < next_queue m"
    using ok wait by (simp_all add: mgr_ok_def lock_ok_def)
  have m1: "mgr_ok ?m1" using ok wait by (rule mgr_ok_new_slot)
  moreover have "next_slot m \<in> live ?m1"
    using k by (simp add: live_def new_slot_def set_dset_fresh)
  ultimately have "mgr_ok (?m1\<lparr>by_id := dset i (next_slot m) (by_id ?m1)\<rparr>)"
    if "hashable i"
    using that by - (rule mgr_ok_enter, simp_all, simp_all add: new_slot_def)
  then have "mgr_ok ?m2" if "hashable i" using that by (simp only: mgr_ok_gauge)
  then have "mgr_ok (open_stream q ?k (next_slot m) ?m2)" if "hashable i"
    using that by - (rule mgr_ok_open, simp_all add: publish_gauge_def new_slot_def key_of_slot_def q)
  with m1 show ?thesis by (simp add: subscribe_end_def Let_def Inr)
qed

lemma mgr_ok_streams:
  assumes ok: "mgr_ok m" and eq: "slots m' = slots m" "by_id m' = by_id m" "store m' = store m"
      "next_slot m' = next_slot m" "next_queue m' = next_queue m" "lock m' = lock m"
    and t: "streams_ok m'" and q: "queues_ok m'"
    and n: "\<And>q. streams m q = None \<Longrightarrow> streams m' q = None"
  shows "mgr_ok m'"
proof -
  have "slots_ok m'" "consumers_ok m'" "ids_ok m'"
    using ok by (simp_all add: eq mgr_ok_def slots_ok_def consumers_ok_def ids_ok_def live_def)
  moreover have "lock_ok m'"
    using ok n by (cases "lock m") (simp_all add: eq mgr_ok_def lock_ok_def live_def)
  ultimately show ?thesis using t q by (simp add: mgr_ok_def)
qed

lemma mgr_ok_close:
  assumes ok: "mgr_ok m" and cs: "streams m q = Some cs"
  shows "mgr_ok (close_stream q m)"
proof (rule mgr_ok_streams [OF ok])
  show "streams_ok (close_stream q m)"
    using ok cs unfolding mgr_ok_def streams_ok_def close_stream_def by simp
qed (use ok cs in \<open>auto simp: close_stream_def mgr_ok_def queues_ok_def split: if_splits\<close>)

lemma mgr_ok_receive:
  assumes ok: "mgr_ok m" and e: "next_event q m = Some (ev, m')"
  shows "mgr_ok m'"
proof -
  from e obtain cs evs where m': "m' = m\<lparr>queues := (queues m)(q := evs)\<rparr>" and qs: "queues m q = ev # evs"
    by (auto simp: next_event_def split: option.splits list.splits if_splits)
  have "length (queues m q) \<le> max_queue"
    using ok by (simp add: mgr_ok_def queues_ok_def)
  then have "queues_ok m'"
    using ok qs by (simp add: m' mgr_ok_def queues_ok_def)
  then show ?thesis
    using ok by - (rule mgr_ok_streams [OF ok], simp_all add: m' mgr_ok_def streams_ok_def)
qed

lemma set_ddel: "set (ddel k d) = {p \<in> set d. fst p \<noteq> k}"
  by (auto simp: ddel_def)

lemma distinct_ddel:
  "distinct (map fst d) \<Longrightarrow> distinct (map fst (ddel k d))"
  "distinct (map snd d) \<Longrightarrow> distinct (map snd (ddel k d))"
  by (simp_all add: ddel_def distinct_map_filter)

text \<open>One consumer fewer in a slot that keeps another.\<close>

definition drop_consumer :: "nat \<Rightarrow> nat \<Rightarrow> manager \<Rightarrow> manager" where
  "drop_consumer r q m = m\<lparr>store := (store m)(r := (store m r)\<lparr>consumers := remove1 q (consumers (store m r))\<rparr>)\<rparr>"

lemma drop_consumer_frame [simp]:
  "slots (drop_consumer r q m) = slots m" "by_id (drop_consumer r q m) = by_id m"
  "next_slot (drop_consumer r q m) = next_slot m" "next_queue (drop_consumer r q m) = next_queue m"
  "streams (drop_consumer r q m) = streams m" "queues (drop_consumer r q m) = queues m"
  "lock (drop_consumer r q m) = lock m"
  "key_of_slot (store (drop_consumer r q m) r') = key_of_slot (store m r')"
  "subscription_id (store (drop_consumer r q m) r') = subscription_id (store m r')"
  "consumers (store (drop_consumer r q m) r') =
     (if r' = r then remove1 q (consumers (store m r)) else consumers (store m r'))"
  by (simp_all add: drop_consumer_def key_of_slot_def)

lemma drop_consumer_sub: "q' \<in> set (consumers (store (drop_consumer r q m) r')) \<Longrightarrow> q' \<in> set (consumers (store m r'))"
  by (cases "r' = r") (auto dest: set_remove1_subset [THEN subsetD])

lemma mgr_ok_drop:
  assumes ok: "mgr_ok m" and free: "lock m = Free" and rest: "remove1 q (consumers (store m r)) \<noteq> []"
  shows "mgr_ok (drop_consumer r q m)"
proof -
  let ?m = "drop_consumer r q m"
  have "slots_ok ?m"
    using ok rest by (simp add: mgr_ok_def slots_ok_def)
  moreover have "consumers_ok ?m"
  proof -
    have c: "consumers_ok m" using ok by (simp add: mgr_ok_def)
    note sub = drop_consumer_sub [of _ r q m]
    have "\<forall>r'. distinct (consumers (store ?m r'))"
      using c by (simp add: consumers_ok_def distinct_remove1)
    moreover have "\<forall>r' q'. q' \<in> set (consumers (store ?m r')) \<longrightarrow> q' < next_queue ?m \<and> r' \<in> live ?m"
      using c sub unfolding consumers_ok_def live_def drop_consumer_frame(1,4) by blast
    moreover have "\<forall>r1 r2 q'. q' \<in> set (consumers (store ?m r1)) \<longrightarrow> q' \<in> set (consumers (store ?m r2)) \<longrightarrow> r1 = r2"
      using c sub unfolding consumers_ok_def by blast
    ultimately show ?thesis unfolding consumers_ok_def by blast
  qed
  moreover have "ids_ok ?m" "queues_ok ?m" "lock_ok ?m"
    using ok free by (simp_all add: mgr_ok_def ids_ok_def queues_ok_def lock_ok_def live_def)
  moreover have "streams_ok ?m"
    using ok drop_consumer_sub [of _ r q m] unfolding mgr_ok_def streams_ok_def
    by (simp del: drop_consumer_frame(10))
  ultimately show ?thesis by (simp add: mgr_ok_def)
qed

text \<open>The last consumer of a slot: the slot is dropped, with every id that leads to it.\<close>

lemma mgr_ok_drop_slot:
  assumes ok: "mgr_ok m" and free: "lock m = Free" and q: "q \<in> set (consumers (store m r))"
    and rest: "remove1 q (consumers (store m r)) = []"
    and ids: "set b \<subseteq> {p \<in> set (by_id m). snd p \<noteq> r}"
  shows "mgr_ok (drop_consumer r q m\<lparr>slots := ddel (key_of_slot (store m r)) (slots m), by_id := b\<rparr>)"
    (is "mgr_ok ?m")
proof -
  have sl: "slots_ok m" and c: "consumers_ok m" using ok by (simp_all add: mgr_ok_def)
  have r: "r \<in> live m" using c q unfolding consumers_ok_def by blast
  have key_inj: "r' = r" if "r' \<in> live m" "key_of_slot (store m r') = key_of_slot (store m r)" for r'
    using sl live_key [OF sl r] live_key [OF sl that(1)] that(2) unfolding slots_ok_def
    by (metis eq_key_imp_eq_value)
  have keep: "(k, r') \<in> set (slots ?m) \<longleftrightarrow> (k, r') \<in> set (slots m) \<and> r' \<noteq> r" for k r'
    using key_inj by (auto simp: set_ddel filed_iff [OF sl])
  then have lv: "live ?m = live m - {r}"
    unfolding live_def by (auto simp: image_iff)
  have gone: "consumers (store ?m r') = (if r' = r then [] else consumers (store m r'))" for r'
    using rest by simp
  have "slots_ok ?m"
    using sl keep unfolding slots_ok_def
    by (simp add: distinct_ddel gone) blast
  moreover have "consumers_ok ?m"
    using c unfolding consumers_ok_def lv gone by simp
  moreover have "ids_ok ?m"
    using ok ids unfolding mgr_ok_def ids_ok_def lv by force
  moreover have "queues_ok ?m" "lock_ok ?m"
    using ok free by (simp_all add: mgr_ok_def queues_ok_def lock_ok_def)
  moreover have "streams_ok ?m"
    using ok unfolding mgr_ok_def streams_ok_def gone by simp
  ultimately show ?thesis by (simp add: mgr_ok_def)
qed

lemma remove_consumer_eq:
  "remove_consumer k r q m =
     (if q \<notin> set (consumers (store m r)) then m
      else if remove1 q (consumers (store m r)) \<noteq> [] then drop_consumer r q m
      else (case subscription_id (store m r) of
              None \<Rightarrow> publish_gauge (slot_kind (store m r)) (drop_consumer r q m\<lparr>slots := ddel k (slots m), by_id := by_id m\<rparr>)
            | Some i \<Rightarrow>
                if hashable i
                then publish_gauge (slot_kind (store m r))
                  (drop_consumer r q m\<lparr>slots := ddel k (slots m), by_id := ddel i (by_id m)\<rparr>)
                else drop_consumer r q m\<lparr>slots := ddel k (slots m), by_id := by_id m\<rparr>))"
  by (cases "subscription_id (store m r)") (simp_all add: remove_consumer_def drop_consumer_def Let_def)

lemma mgr_ok_remove:
  assumes ok: "mgr_ok m" and free: "lock m = Free" and cs: "streams m q = Some cs"
  shows "mgr_ok (remove_consumer (cs_key cs) (cs_slot cs) q m)"
proof (cases "q \<in> set (consumers (store m (cs_slot cs)))")
  case False
  with ok show ?thesis by (simp add: remove_consumer_eq)
next
  case q: True
  let ?r = "cs_slot cs"
  have k: "cs_key cs = key_of_slot (store m ?r)"
    using ok cs q unfolding mgr_ok_def streams_ok_def by blast
  have ids: "snd p \<noteq> ?r \<or> subscription_id (store m ?r) = Some (fst p) \<and> hashable (fst p)" if "p \<in> set (by_id m)" for p
    using ok that unfolding mgr_ok_def ids_ok_def by (metis prod.collapse)
  note drop = mgr_ok_drop_slot [OF ok free q]
  show ?thesis
  proof (cases "remove1 q (consumers (store m ?r)) = []")
    case False
    with q ok free show ?thesis by (simp add: remove_consumer_eq mgr_ok_drop)
  next
    case rest: True
    have "mgr_ok (drop_consumer ?r q m\<lparr>slots := ddel (cs_key cs) (slots m), by_id := ddel i (by_id m)\<rparr>)"
      if "subscription_id (store m ?r) = Some i" for i
      unfolding k by (rule drop [OF rest]) (use ids that in \<open>auto simp: set_ddel\<close>)
    moreover have "mgr_ok (drop_consumer ?r q m\<lparr>slots := ddel (cs_key cs) (slots m), by_id := by_id m\<rparr>)"
      if "\<And>i. subscription_id (store m ?r) = Some i \<Longrightarrow> \<not> hashable i"
      unfolding k by (rule drop [OF rest]) (use ids that in auto)
    ultimately show ?thesis
      using q rest unfolding remove_consumer_eq
      by (cases "subscription_id (store m ?r)") simp_all
  qed
qed

text \<open>A reconnect: the ids are forgotten, then each slot gets its new one.\<close>

lemma mgr_ok_reconnect:
  assumes ok: "mgr_ok m"
  shows "mgr_ok (reconnect_begin m)"
proof -
  let ?m = "reconnect_begin m"
  have "slots_ok ?m" "consumers_ok ?m" "ids_ok ?m" "streams_ok ?m" "queues_ok ?m"
    using ok by (simp_all add: mgr_ok_def slots_ok_def consumers_ok_def ids_ok_def streams_ok_def
        queues_ok_def live_def reconnect_begin_def)
  moreover have "lock_ok ?m"
    using ok by (auto simp: mgr_ok_def slots_ok_def lock_ok_def reconnect_begin_def wait_for_def live_def)
  ultimately show ?thesis by (simp add: mgr_ok_def)
qed

lemma mgr_ok_waiting:
  assumes ok: "mgr_ok m" and wait: "lock m = Resubscribing (r # rs)"
  shows "mgr_ok (m\<lparr>lock := wait_for rs\<rparr>)"
proof -
  let ?m = "m\<lparr>lock := wait_for rs\<rparr>"
  have "slots_ok ?m" "consumers_ok ?m" "ids_ok ?m" "streams_ok ?m" "queues_ok ?m"
    using ok by (simp_all add: mgr_ok_def slots_ok_def consumers_ok_def ids_ok_def streams_ok_def
        queues_ok_def live_def)
  moreover have "lock_ok ?m"
    using ok wait by (simp add: mgr_ok_def lock_ok_def wait_for_def live_def)
  ultimately show ?thesis by (simp add: mgr_ok_def)
qed

definition set_id :: "nat \<Rightarrow> json \<Rightarrow> manager \<Rightarrow> manager" where
  "set_id r i m = m\<lparr>store := (store m)(r := (store m r)\<lparr>subscription_id := Some i\<rparr>)\<rparr>"

lemma set_id_frame [simp]:
  "slots (set_id r i m) = slots m" "by_id (set_id r i m) = by_id m"
  "next_slot (set_id r i m) = next_slot m" "next_queue (set_id r i m) = next_queue m"
  "streams (set_id r i m) = streams m" "queues (set_id r i m) = queues m"
  "lock (set_id r i m) = lock m"
  "key_of_slot (store (set_id r i m) r') = key_of_slot (store m r')"
  "consumers (store (set_id r i m) r') = consumers (store m r')"
  "subscription_id (store (set_id r i m) r') = (if r' = r then Some i else subscription_id (store m r'))"
  by (simp_all add: set_id_def key_of_slot_def)

text \<open>No id leads to the slot while its new one is awaited.\<close>

lemma mgr_ok_set_id:
  assumes ok: "mgr_ok m" and wait: "lock m = Resubscribing (r # rs)"
  shows "mgr_ok (set_id r i m)"
proof -
  let ?m = "set_id r i m"
  have lv: "live ?m = live m" by (simp add: live_def)
  have "r \<notin> snd ` set (by_id m)"
    using ok wait by (simp add: mgr_ok_def lock_ok_def)
  then have "ids_ok ?m"
    using ok by (auto simp: mgr_ok_def ids_ok_def lv rev_image_eqI)
  moreover have "slots_ok ?m" "consumers_ok ?m" "streams_ok ?m" "queues_ok ?m" "lock_ok ?m"
    using ok wait by (simp_all add: mgr_ok_def slots_ok_def consumers_ok_def streams_ok_def
        queues_ok_def lock_ok_def lv)
  ultimately show ?thesis by (simp add: mgr_ok_def)
qed

lemma mgr_ok_resubscribe:
  assumes ok: "mgr_ok m" and wait: "lock m = Resubscribing (r # rs)"
  shows "mgr_ok (resubscribe r rs outcome m)"
proof (cases outcome)
  case (Inl e)
  then show ?thesis
    using ok mgr_ok_waiting [OF ok wait] by (simp add: resubscribe_def mgr_ok_deliver mgr_ok_unlock)
next
  case (Inr i)
  let ?m1 = "set_id r i m"
  have eq: "m\<lparr>store := (store m)(r := (store m r)\<lparr>subscription_id := Some i\<rparr>)\<rparr> = ?m1"
    by (simp add: set_id_def)
  have m1: "mgr_ok ?m1" using ok wait by (rule mgr_ok_set_id)
  then have m2: "mgr_ok (?m1\<lparr>lock := wait_for rs\<rparr>)"
    by (rule mgr_ok_waiting) (simp add: wait)
  have notin: "r \<notin> set rs" and lv: "r \<in> live m"
    using ok wait by (simp_all add: mgr_ok_def lock_ok_def)
  have idok: "r' \<in> live m \<and> subscription_id (store ?m1 r') = Some j \<and> hashable j"
    if "(j, r') \<in> set (by_id m)" for j r'
    using m1 that unfolding mgr_ok_def ids_ok_def live_def set_id_frame by blast
  have m3: "mgr_ok (?m1\<lparr>by_id := dset i r (by_id m), lock := wait_for rs\<rparr>)" (is "mgr_ok ?m3") if "hashable i"
  proof -
    have sub: "set (dset i r (by_id m)) \<subseteq> insert (i, r) (set (by_id m))" by (rule set_dset_sub)
    have "ids_ok ?m3"
      unfolding ids_ok_def
    proof (intro allI impI)
      fix j r' assume "(j, r') \<in> set (by_id ?m3)"
      with sub have "(j, r') = (i, r) \<or> (j, r') \<in> set (by_id m)" by auto
      then show "r' \<in> live ?m3 \<and> subscription_id (store ?m3 r') = Some j \<and> hashable j"
        using idok [of j r'] lv that unfolding live_def by (elim disjE) simp_all
    qed
    moreover have "slots_ok ?m3" "consumers_ok ?m3" "streams_ok ?m3" "queues_ok ?m3"
      using m2 by (simp_all add: mgr_ok_def slots_ok_def consumers_ok_def streams_ok_def queues_ok_def live_def)
    moreover have "lock_ok ?m3"
    proof -
      have "snd ` set (dset i r (by_id m)) \<subseteq> insert r (snd ` set (by_id m))"
        using image_mono [OF sub, of snd] by simp
      then show ?thesis
        using m2 notin by (cases "rs = []") (auto simp: mgr_ok_def lock_ok_def wait_for_def live_def)
    qed
    ultimately show ?thesis by (simp add: mgr_ok_def)
  qed
  have "resubscribe r rs outcome m =
      (if hashable i then deliver Gap (consumers (store m r)) (?m1\<lparr>by_id := dset i r (by_id m), lock := wait_for rs\<rparr>)
       else ?m1\<lparr>lock := Free\<rparr>)"
    unfolding resubscribe_def Inr Let_def sum.case eq set_id_frame by (rule refl)
  then show ?thesis
    using mgr_ok_deliver [OF m3] mgr_ok_unlock [OF m1] by presburger
qed

lemma mgr_ok_step: "mgr_ok m \<Longrightarrow> mstep m m' \<Longrightarrow> mgr_ok m'"
  by (erule mstepE)
    (blast intro: mgr_ok_notify mgr_ok_begin mgr_ok_end mgr_ok_close mgr_ok_remove mgr_ok_reconnect
      mgr_ok_resubscribe mgr_ok_receive)+

interpretation mux: invariant_system "\<lambda>m. m = new_manager" mstep mgr_ok
  by unfold_locales (auto simp: mgr_ok_new mgr_ok_step)

lemma reachable_ok: "reachable m \<Longrightarrow> mgr_ok m"
  unfolding reachable_def by (rule mux.inv_reachable [OF refl])

section \<open>Properties\<close>

lemma reachable_new [simp, intro]: "reachable new_manager"
  by (simp add: reachable_def)

lemma reachable_step [intro]: "reachable m \<Longrightarrow> mstep m m' \<Longrightarrow> reachable m'"
  unfolding reachable_def by (rule rtranclp.rtrancl_into_rtrancl)

lemma subscriptions_multiplexed_parts:
  assumes "reachable m"
  shows "distinct (map (\<lambda>(k, r). key_of_slot (store m r)) (slots m))"
    and "(k, r) \<in> set (slots m) \<Longrightarrow> key_of_slot (store m r) = k \<and> consumers (store m r) \<noteq> []
           \<and> distinct (consumers (store m r))"
    and "dget i (by_id m) = Some r \<Longrightarrow> subscription_id (store m r) = Some i \<and> r \<in> snd ` set (slots m)"
    and "q \<in> set (consumers (store m r)) \<Longrightarrow> streams m q = Some cs \<Longrightarrow>
           cs_slot cs = r \<and> cs_key cs = key_of_slot (store m r) \<and> (cs_key cs, r) \<in> set (slots m)"
    and "length (queues m q) \<le> max_queue"
proof -
  have ok: "slots_ok m" "consumers_ok m" "ids_ok m" "streams_ok m" "queues_ok m"
    using reachable_ok [OF assms] by (simp_all add: mgr_ok_def)
  have "map (\<lambda>(k, r). key_of_slot (store m r)) (slots m) = map fst (slots m)"
    using ok(1) by (auto simp: filed_iff)
  moreover have "distinct (map fst (slots m))" using ok(1) by (simp add: slots_ok_def)
  ultimately show "distinct (map (\<lambda>(k, r). key_of_slot (store m r)) (slots m))" by (simp only:)
  show "(k, r) \<in> set (slots m) \<Longrightarrow> key_of_slot (store m r) = k \<and> consumers (store m r) \<noteq> []
           \<and> distinct (consumers (store m r))"
    using ok(1,2) unfolding slots_ok_def consumers_ok_def by blast
  show "dget i (by_id m) = Some r \<Longrightarrow> subscription_id (store m r) = Some i \<and> r \<in> snd ` set (slots m)"
    using ok(3) unfolding ids_ok_def live_def by (blast dest: map_of_SomeD)
  show "q \<in> set (consumers (store m r)) \<Longrightarrow> streams m q = Some cs \<Longrightarrow>
           cs_slot cs = r \<and> cs_key cs = key_of_slot (store m r) \<and> (cs_key cs, r) \<in> set (slots m)"
    using ok(2,4) live_key [OF ok(1)] unfolding consumers_ok_def streams_ok_def by metis
  show "length (queues m q) \<le> max_queue"
    using ok(5) by (simp add: queues_ok_def)
qed

text \<open>
  C4. One upstream subscription per kind and parameters, in whatever order subscribers, closing
  clients, notifications, reconnects and their replies come: no two slots have the same key, every
  slot has a consumer and none twice, every id that is dispatched on is the id of the slot it leads
  to, an open stream sits in the slot of its own key, and no queue exceeds its 1024 places.
\<close>

theorem subscriptions_multiplexed:
  assumes "reachable m"
  shows "(distinct (map (\<lambda>(k, r). key_of_slot (store m r)) (slots m)))
    \<and> ((k, r) \<in> set (slots m) \<longrightarrow> key_of_slot (store m r) = k \<and> consumers (store m r) \<noteq> []
           \<and> distinct (consumers (store m r)))
    \<and> (dget i (by_id m) = Some r \<longrightarrow> subscription_id (store m r) = Some i \<and> r \<in> snd ` set (slots m))
    \<and> (q \<in> set (consumers (store m r)) \<longrightarrow> streams m q = Some cs \<longrightarrow>
           cs_slot cs = r \<and> cs_key cs = key_of_slot (store m r) \<and> (cs_key cs, r) \<in> set (slots m))
    \<and> (length (queues m q) \<le> max_queue)"
  using subscriptions_multiplexed_parts [OF assms] by blast

text \<open>Two clients of the new blocks, one upstream subscription.\<close>

definition heads_sub :: manager where
  "heads_sub = subscribe_begin ''newHeads'' JNull
     (subscribe_end ''newHeads'' JNull 0 (Inr (JStr ''0x1''))
       (subscribe_begin ''newHeads'' JNull new_manager))"

lemma heads_sub_reachable: "reachable heads_sub"
proof -
  let ?a = "subscribe_begin ''newHeads'' JNull new_manager"
  have a: "lock ?a = Subscribing ''newHeads'' JNull 0"
    by (simp add: subscribe_begin_def new_manager_def Let_def)
  have b: "lock (subscribe_end ''newHeads'' JNull 0 (Inr (JStr ''0x1'')) ?a) = Free"
    by (simp add: subscribe_end_def new_slot_def Let_def open_stream_def publish_gauge_def hashable_def)
  show ?thesis
    unfolding heads_sub_def
    by (rule reachable_step [OF reachable_step [OF reachable_step [OF reachable_new sub_begin]
            sub_end [OF a]] sub_begin [OF b]])
      (simp add: new_manager_def)
qed

lemma heads_sub_eq:
  "slots heads_sub = [((''newHeads'', canonicalize JNull), 0)]" "by_id heads_sub = [(JStr ''0x1'', 0)]"
  "consumers (store heads_sub 0) = [0, 1]" "lock heads_sub = Free"
  "slot_kind (store heads_sub 0) = ''newHeads''" "slot_params (store heads_sub 0) = JNull"
  "streams heads_sub 0 = Some \<lparr>cs_key = (''newHeads'', canonicalize JNull), cs_slot = 0, cs_closed = False\<rparr>"
  by (simp_all add: heads_sub_def subscribe_begin_def subscribe_end_def new_slot_def new_manager_def Let_def
      open_stream_def publish_gauge_def hashable_def)

theorem subscriptions_multiplexed_witness:
  "key_of_slot (store heads_sub 0) = (''newHeads'', canonicalize JNull) \<and> consumers (store heads_sub 0) \<noteq> []
     \<and> subscription_id (store heads_sub 0) = Some (JStr ''0x1'') \<and> length (queues heads_sub 1) \<le> max_queue"
  using subscriptions_multiplexed [OF heads_sub_reachable, where k = "(''newHeads'', canonicalize JNull)" and r = 0
      and i = "JStr ''0x1''" and q = 1 and cs = "\<lparr>cs_key = (''newHeads'', canonicalize JNull), cs_slot = 0, cs_closed = False\<rparr>"]
  by (simp add: heads_sub_eq)

lemma notification_fanout_parts:
  assumes "reachable m" and params: "dget ''params'' payload = Some (JObj p)"
    and sub: "dget ''subscription'' p = Some (JStr i)"
  shows "on_notification payload m =
     Inr (case dget (JStr i) (by_id m) of
            None \<Rightarrow> m
          | Some r \<Rightarrow> m\<lparr>queues := (\<lambda>q.
              if q \<in> set (consumers (store m r)) \<and> length (queues m q) < max_queue
              then queues m q @ [Event (case dget ''result'' p of None \<Rightarrow> JNull | Some v \<Rightarrow> v)]
              else queues m q)\<rparr>)" (is "_ = Inr ?m'")
    and "dget (JStr i) (by_id m) = Some r \<Longrightarrow> q \<in> set (consumers (store m r)) \<Longrightarrow> streams m q = Some cs \<Longrightarrow>
           cs_key cs = key_of_slot (store m r)"
proof -
  have ok: "consumers_ok m" "streams_ok m"
    using reachable_ok [OF assms(1)] by (simp_all add: mgr_ok_def)
  have p: "p \<noteq> []" using sub by auto
  have fan: "deliver ev qs m = m\<lparr>queues := (\<lambda>q. if q \<in> set qs \<and> length (queues m q) < max_queue
      then queues m q @ [ev] else queues m q)\<rparr>" if "distinct qs" for ev qs
    using deliver_queues [OF that] by (simp add: fun_eq_iff)
  have d: "distinct (consumers (store m r))" for r
    using ok(1) by (simp add: consumers_ok_def)
  show "on_notification payload m = Inr ?m'"
    using p by (simp add: on_notification_def params sub Let_def fan [OF d] split: option.split)
  show "dget (JStr i) (by_id m) = Some r \<Longrightarrow> q \<in> set (consumers (store m r)) \<Longrightarrow> streams m q = Some cs \<Longrightarrow>
           cs_key cs = key_of_slot (store m r)"
    using ok(2) unfolding streams_ok_def by blast
qed

text \<open>
  A notification reaches exactly the consumers of the slot its subscription id belongs to: each
  of them that has room gets it once, as its newest event, no other queue changes, nothing else of
  the manager does, and a client that holds a stream among them asked for that slot's kind and
  parameters. A notification of an unknown id changes nothing.
\<close>

lemma notification_fanout:
  assumes "reachable m" and params: "dget ''params'' payload = Some (JObj p)"
    and sub: "dget ''subscription'' p = Some (JStr i)"
  shows "(on_notification payload m =
     Inr (case dget (JStr i) (by_id m) of
            None \<Rightarrow> m
          | Some r \<Rightarrow> m\<lparr>queues := (\<lambda>q.
              if q \<in> set (consumers (store m r)) \<and> length (queues m q) < max_queue
              then queues m q @ [Event (case dget ''result'' p of None \<Rightarrow> JNull | Some v \<Rightarrow> v)]
              else queues m q)\<rparr>))
    \<and> (dget (JStr i) (by_id m) = Some r \<longrightarrow> q \<in> set (consumers (store m r)) \<longrightarrow> streams m q = Some cs \<longrightarrow>
           cs_key cs = key_of_slot (store m r))"
  using notification_fanout_parts [OF assms] by blast

lemma notification_fanout_witness:
  "on_notification [(''params'', JObj [(''subscription'', JStr ''0x1''), (''result'', JInt 7)])] heads_sub =
     Inr (heads_sub\<lparr>queues := (\<lambda>q. if q \<in> {0, 1} \<and> length (queues heads_sub q) < max_queue
        then queues heads_sub q @ [Event (JInt 7)] else queues heads_sub q)\<rparr>)"
  using notification_fanout [OF heads_sub_reachable,
      where payload = "[(''params'', JObj [(''subscription'', JStr ''0x1''), (''result'', JInt 7)])]"
        and p = "[(''subscription'', JStr ''0x1''), (''result'', JInt 7)]" and i = "''0x1''" and r = 0 and q = 0
        and cs = "\<lparr>cs_key = (''newHeads'', canonicalize JNull), cs_slot = 0, cs_closed = False\<rparr>"]
  by (simp add: heads_sub_eq cong: if_cong)

lemma resubscribe_round_parts:
  assumes "reachable m" and wait: "lock m = Resubscribing (r # rs)" and e: "e \<noteq> CancelledError"
  shows "queues (resubscribe r rs (Inl e) m) q =
      (if q \<in> set (consumers (store m r)) \<and> length (queues m q) < max_queue then queues m q @ [Gap] else queues m q)"
    and "(key_of_slot (store m r), r) \<in> set (slots (resubscribe r rs (Inl e) m))
      \<and> store (resubscribe r rs (Inl e) m) = store m \<and> consumers (store m r) \<noteq> []"
    and "dget i (by_id (resubscribe r rs (Inl e) m)) \<noteq> Some r"
    and "queues (resubscribe r rs (Inr (JStr s)) m) q =
      (if q \<in> set (consumers (store m r)) \<and> length (queues m q) < max_queue then queues m q @ [Gap] else queues m q)"
    and "dget (JStr s) (by_id (resubscribe r rs (Inr (JStr s)) m)) = Some r
      \<and> subscription_id (store (resubscribe r rs (Inr (JStr s)) m) r) = Some (JStr s)"
proof -
  have ok: "slots_ok m" "consumers_ok m" "lock_ok m"
    using reachable_ok [OF assms(1)] by (simp_all add: mgr_ok_def)
  have d: "distinct (consumers (store m r))"
    using ok(2) by (simp add: consumers_ok_def)
  have lv: "r \<in> live m" and none: "r \<notin> snd ` set (by_id m)"
    using ok(3) wait by (simp_all add: lock_ok_def)
  have ne: "consumers (store m r) \<noteq> []"
    using live_key [OF ok(1) lv] ok(1) unfolding slots_ok_def by blast
  have inl: "resubscribe r rs (Inl e) m = deliver Gap (consumers (store m r)) (m\<lparr>lock := wait_for rs\<rparr>)"
    using e by (simp add: resubscribe_def)
  show "queues (resubscribe r rs (Inl e) m) q =
      (if q \<in> set (consumers (store m r)) \<and> length (queues m q) < max_queue then queues m q @ [Gap] else queues m q)"
    unfolding inl by (simp add: deliver_queues [OF d])
  show "(key_of_slot (store m r), r) \<in> set (slots (resubscribe r rs (Inl e) m))
      \<and> store (resubscribe r rs (Inl e) m) = store m \<and> consumers (store m r) \<noteq> []"
    unfolding inl using live_key [OF ok(1) lv] ne by simp
  show "dget i (by_id (resubscribe r rs (Inl e) m)) \<noteq> Some r"
    unfolding inl using none by (auto dest!: map_of_SomeD simp: image_iff)
  show "queues (resubscribe r rs (Inr (JStr s)) m) q =
      (if q \<in> set (consumers (store m r)) \<and> length (queues m q) < max_queue then queues m q @ [Gap] else queues m q)"
    by (simp add: resubscribe_def hashable_def deliver_queues [OF d])
  show "dget (JStr s) (by_id (resubscribe r rs (Inr (JStr s)) m)) = Some r
      \<and> subscription_id (store (resubscribe r rs (Inr (JStr s)) m) r) = Some (JStr s)"
    by (simp add: resubscribe_def hashable_def map_of_dset)
qed


lemma heads_reconnect: "reachable (reconnect_begin heads_sub)" "lock (reconnect_begin heads_sub) = Resubscribing [0]"
  by (rule reachable_step [OF heads_sub_reachable re_begin], simp_all add: heads_sub_eq reconnect_begin_def wait_for_def)


end
