(* ===== verification/Streams.thy ===== *)
theory Streams
  imports Sse Subscriptions
begin

text \<open>
  \<open>handlers/streams.py\<close>: the four event streams. One driver subscribes, opens the response, replays
  what a client that reconnects has missed, and writes a frame per event until the client goes. The
  client (what is written, when a write fails, how much is buffered) and the events that arrive are
  parameters. Facts: what is written and in which order, that the connection gauge is balanced and
  the subscription released, and what the replays cover.
\<close>

section \<open>Effects\<close>

datatype feed_item = Arrives stream_event | Silent nat | Interrupted exn

record client =
  c_net :: net
  subscribe_reply :: "string \<Rightarrow> json \<Rightarrow> unit res"
  feed :: "feed_item list"
  prepare_error :: "exn option"
  write_error :: "nat \<Rightarrow> exn option"
  buffered :: "nat \<Rightarrow> int option"

text \<open>
  \<open>opened_subs\<close> and \<open>closed_subs\<close> count the consumer streams of the subscription manager that were
  opened and closed; \<open>attempts\<close> counts the writes, which the client's answers depend on.
\<close>

record sse_state =
  http :: world
  sse_counts :: "(string \<times> int) list"
  sse_metrics :: metrics
  opened_subs :: nat
  closed_subs :: nat
  prepared :: bool
  attempts :: nat
  written :: "nat list list"

type_synonym 'a sio = "client \<Rightarrow> sse_state \<Rightarrow> 'a res \<times> sse_state"

definition retS :: "'a \<Rightarrow> 'a sio" where
  "retS a = (\<lambda>c s. (Inr a, s))"

definition raiseS :: "exn \<Rightarrow> 'a sio" where
  "raiseS e = (\<lambda>c s. (Inl e, s))"

definition liftS :: "'a res \<Rightarrow> 'a sio" where
  "liftS r = (\<lambda>c s. (r, s))"

definition bindS :: "'a sio \<Rightarrow> ('a \<Rightarrow> 'b sio) \<Rightarrow> 'b sio" where
  "bindS m f = (\<lambda>c s. case m c s of
     (Inl e, s') \<Rightarrow> (Inl e, s')
   | (Inr a, s') \<Rightarrow> f a c s')"

definition catchS :: "'a sio \<Rightarrow> (exn \<Rightarrow> 'a sio) \<Rightarrow> 'a sio" where
  "catchS m h = (\<lambda>c s. case m c s of
     (Inl e, s') \<Rightarrow> h e c s'
   | (Inr a, s') \<Rightarrow> (Inr a, s'))"

definition finallyS :: "'a sio \<Rightarrow> (sse_state \<Rightarrow> sse_state) \<Rightarrow> 'a sio" where
  "finallyS m fin = (\<lambda>c s. let (r, s') = m c s in (r, fin s'))"

definition callS :: "string \<Rightarrow> json list \<Rightarrow> json sio" where
  "callS meth params = (\<lambda>c s. let (r, w) = upstream_call meth params (c_net c) (http s) in (r, s\<lparr>http := w\<rparr>))"

definition resp_write :: "nat list \<Rightarrow> unit sio" where
  "resp_write b = (\<lambda>c s.
     (let s1 = s\<lparr>attempts := attempts s + 1\<rparr> in
      case write_error c (attempts s) of
        Some e \<Rightarrow> (Inl e, s1)
      | None \<Rightarrow> (Inr (), s1\<lparr>written := written s @ [b]\<rparr>)))"

definition write_event :: "string \<Rightarrow> json \<Rightarrow> json \<Rightarrow> unit sio" where
  "write_event event i dat = bindS (liftS (format_event event i dat)) resp_write"

section \<open>Event formatters\<close>

type_synonym event_formatter = "json \<Rightarrow> (string \<times> json \<times> json) res"

text \<open>\<open>str(d[k])\<close>, which fails on an integer of more than 4300 digits.\<close>

definition str_at :: "string \<Rightarrow> json \<Rightarrow> string res" where
  "str_at k v =
     bindE (jindex k v) (\<lambda>x. case x of JInt n \<Rightarrow> str_of_int n | _ \<Rightarrow> Inr (py_str x))"

definition block_event :: event_formatter where
  "block_event payload =
     bindE (block_header_from_rpc payload) (\<lambda>header.
     bindE (str_at ''number'' header) (\<lambda>n. Inr (''block'', JStr n, header)))"

definition log_event :: event_formatter where
  "log_event payload =
     bindE (log_from_rpc payload) (\<lambda>rest_log.
     bindE (str_at ''blockNumber'' rest_log) (\<lambda>b.
     bindE (str_at ''logIndex'' rest_log) (\<lambda>i. Inr (''log'', JStr (b @ ''-'' @ i), rest_log))))"

definition pending_event_hash_only :: event_formatter where
  "pending_event_hash_only payload =
     bindE (if is_str payload then Inr payload else jget ''hash'' payload) (\<lambda>tx_hash.
       Inr (''pending-transaction'', tx_hash, JObj [(''hash'', tx_hash)]))"

definition pending_event_full :: event_formatter where
  "pending_event_full payload =
     bindE (transaction_from_rpc payload) (\<lambda>rest_tx.
     bindE (jindex ''hash'' rest_tx) (\<lambda>h. Inr (''pending-transaction'', h, rest_tx)))"

definition sync_status_event :: event_formatter where
  "sync_status_event payload =
     (if payload = JBool False then Inr (''sync-status'', JNull, JObj [(''syncing'', JBool False)])
      else mapR (\<lambda>d. (''sync-status'', JNull, JObj d)) (pieces
        [field ''syncing'' (Inr (JBool True)),
         field ''startingBlock'' (at_key ''startingBlock'' int_field payload),
         field ''currentBlock'' (at_key ''currentBlock'' int_field payload),
         field ''highestBlock'' (at_key ''highestBlock'' int_field payload)]))"

section \<open>The driver\<close>

datatype stream_reply = Plain response | Streamed

definition count_of :: "string \<Rightarrow> sse_state \<Rightarrow> int" where
  "count_of label s = (case dget label (sse_counts s) of None \<Rightarrow> 0 | Some n \<Rightarrow> n)"

definition publish_sse_gauge :: "string \<Rightarrow> int \<Rightarrow> sse_state \<Rightarrow> sse_state" where
  "publish_sse_gauge label delta s =
     (let n = count_of label s + delta in
      s\<lparr>sse_counts := dset label n (sse_counts s), sse_metrics := set_sse_connections label n (sse_metrics s)\<rparr>)"

definition open_sse :: "unit sio" where
  "open_sse = (\<lambda>c s.
     case prepare_error c of
       Some e \<Rightarrow> (Inl e, s)
     | None \<Rightarrow> resp_write (format_retry 5000) c (s\<lparr>prepared := True\<rparr>))"

text \<open>The empty object of a gap or a resumption, and the frame after a formatter that raised.\<close>

definition gap_frame :: "string \<Rightarrow> nat list res" where
  "gap_frame name = format_event name JNull (JObj [])"

definition error_frame :: "nat list res" where
  "error_frame = format_event ''error'' JNull
     (JObj [(''type'', JStr ''https://errors.ethereum-rest/internal-error''), (''title'', JStr ''Internal error'')])"

definition chunk_of :: "nat list res \<Rightarrow> source_step" where
  "chunk_of r = (case r of Inl e \<Rightarrow> Failed e | Inr b \<Rightarrow> Chunk b)"

fun event_chunks :: "event_formatter \<Rightarrow> string \<Rightarrow> feed_item list \<Rightarrow> source_step list" where
  "event_chunks fmt gap [] = []"
| "event_chunks fmt gap (Silent t # es) = Quiet t # event_chunks fmt gap es"
| "event_chunks fmt gap (Interrupted e # es) = [Failed e]"
| "event_chunks fmt gap (Arrives Gap # es) = chunk_of (gap_frame gap) # event_chunks fmt gap es"
| "event_chunks fmt gap (Arrives (Event p) # es) =
     (case fmt p of
        Inl e \<Rightarrow> [chunk_of error_frame, Ended]
      | Inr (name, i, dat) \<Rightarrow> chunk_of (format_event name i dat) # event_chunks fmt gap es)"

definition over_backpressure_threshold :: "int \<Rightarrow> client \<Rightarrow> sse_state \<Rightarrow> bool" where
  "over_backpressure_threshold threshold c s =
     (case buffered c (attempts s) of None \<Rightarrow> False | Some n \<Rightarrow> threshold < n)"

text \<open>The loop over the chunks; its result says whether all of them were written.\<close>

fun write_chunks :: "int \<Rightarrow> nat list list \<Rightarrow> bool sio" where
  "write_chunks threshold [] = retS True"
| "write_chunks threshold (b # bs) = (\<lambda>c s.
     if over_backpressure_threshold threshold c s then (Inr False, s)
     else bindS (resp_write b) (\<lambda>u. write_chunks threshold bs) c s)"

definition pump :: "config \<Rightarrow> event_formatter \<Rightarrow> string \<Rightarrow> unit sio" where
  "pump cfg fmt gap = (\<lambda>c s.
     (let (chunks, ending) = stream_with_heartbeat (event_chunks fmt gap (feed c)) in
      catchS
        (bindS (write_chunks (sse_buffer_bytes cfg) chunks) (\<lambda>all.
           case ending of Some e \<Rightarrow> if all then raiseS e else retS () | None \<Rightarrow> retS ()))
        (\<lambda>e. if e = ConnectionResetError then retS () else raiseS e) c s))"

definition close_events :: "sse_state \<Rightarrow> sse_state" where
  "close_events s = s\<lparr>closed_subs := closed_subs s + 1\<rparr>"

text \<open>
  What the client gets before the events: the replay, whose exceptions are logged (a cancellation is
  not an \<open>Exception\<close>), or one frame that says the stream resumed.
\<close>

definition resume_stream :: "request \<Rightarrow> (string \<Rightarrow> unit sio) option \<Rightarrow> string \<Rightarrow> unit sio" where
  "resume_stream req replay gap =
     (case header_get req ''Last-Event-ID'' of
        None \<Rightarrow> retS ()
      | Some i \<Rightarrow>
          (case replay of
             Some f \<Rightarrow> catchS (f i) (\<lambda>e. if e = CancelledError then raiseS e else retS ())
           | None \<Rightarrow> bindS (liftS (gap_frame gap)) resp_write))"

definition at_path :: "string \<Rightarrow> problem \<Rightarrow> problem" where
  "at_path path p = p\<lparr>p_instance := Some path\<rparr>"

definition run_stream ::
  "config \<Rightarrow> request \<Rightarrow> string \<Rightarrow> json \<Rightarrow> event_formatter \<Rightarrow> string \<Rightarrow> string
     \<Rightarrow> (string \<Rightarrow> unit sio) option \<Rightarrow> stream_reply sio" where
  "run_stream cfg req kind params fmt label gap replay = (\<lambda>c s.
     case subscribe_reply c kind params of
       Inl (SubscriptionUnavailable msg) \<Rightarrow>
         (Inr (Plain (simple_problem 503 ''upstream-unavailable'' ''Upstream unavailable'' msg (req_path req))), s)
     | Inl (UpstreamWsJsonRpcError code msg data) \<Rightarrow>
         (Inr (Plain (problem_response (at_path (req_path req) (map_jsonrpc_error code msg data)))), s)
     | Inl e \<Rightarrow> (Inl e, s)
     | Inr u \<Rightarrow>
         finallyS
           (bindS open_sse (\<lambda>u.
            bindS (resume_stream req replay gap) (\<lambda>u.
            bindS (finallyS (pump cfg fmt gap) close_events) (\<lambda>u. retS Streamed))))
           (publish_sse_gauge label (-1)) c
           (publish_sse_gauge label 1 (s\<lparr>opened_subs := opened_subs s + 1\<rparr>)))"

section \<open>Replay\<close>

definition missed_gap :: "int \<Rightarrow> int \<Rightarrow> unit sio" where
  "missed_gap last_block head =
     write_event ''gap'' JNull (JObj [(''from'', JInt (last_block + 1)), (''to'', JInt head)])"

definition py_hex :: "int \<Rightarrow> string" where
  "py_hex n = (if n < 0 then ''-0x'' @ show_hex (nat (- n)) else ''0x'' @ show_hex (nat n))"

fun write_blocks :: "int list \<Rightarrow> unit sio" where
  "write_blocks [] = retS ()"
| "write_blocks (n # ns) =
     bindS (callS ''eth_getBlockByNumber'' [JStr (py_hex n), JBool True]) (\<lambda>rpc.
       if rpc = JNull then write_blocks ns
       else bindS (liftS (block_event rpc)) (\<lambda>(name, i, header).
            bindS (write_event name i header) (\<lambda>u. write_blocks ns)))"

text \<open>The head, and what both replays do with it.\<close>

definition with_missed :: "config \<Rightarrow> int \<Rightarrow> (int \<Rightarrow> unit sio) \<Rightarrow> unit sio" where
  "with_missed cfg last_block k =
     bindS (callS ''eth_blockNumber'' []) (\<lambda>head_hex.
     bindS (liftS (hex_to_int head_hex)) (\<lambda>head.
       if head \<le> last_block then retS ()
       else if sse_replay_window cfg < head - last_block then missed_gap last_block head
       else k head))"

definition replay_blocks :: "config \<Rightarrow> string \<Rightarrow> unit sio" where
  "replay_blocks cfg last_event_id =
     (case int_of_str last_event_id of
        Inl e \<Rightarrow> retS ()
      | Inr last_block \<Rightarrow> with_missed cfg last_block (\<lambda>head. write_blocks [last_block + 1..head]))"

fun write_logs :: "json list \<Rightarrow> unit sio" where
  "write_logs [] = retS ()"
| "write_logs (lg # lgs) =
     bindS (liftS (log_event lg)) (\<lambda>(name, i, rest_log).
     bindS (write_event name i rest_log) (\<lambda>u. write_logs lgs))"

definition replay_logs :: "config \<Rightarrow> dict \<Rightarrow> string \<Rightarrow> unit sio" where
  "replay_logs cfg flt last_event_id =
     (if CHR ''-'' \<notin> set last_event_id then retS ()
      else (case int_of_str (takeWhile (\<lambda>ch. ch \<noteq> CHR ''-'') last_event_id) of
              Inl e \<Rightarrow> retS ()
            | Inr last_block \<Rightarrow> with_missed cfg last_block (\<lambda>head.
                bindS (callS ''eth_getLogs'' [JObj (dset ''toBlock'' (JStr (py_hex head))
                        (dset ''fromBlock'' (JStr (py_hex (last_block + 1))) flt))]) (\<lambda>result.
                bindS (liftS (jiter (if truthy result then result else JList []))) write_logs))))"

section \<open>Handlers\<close>

definition get_streams_blocks :: "config \<Rightarrow> request \<Rightarrow> stream_reply sio" where
  "get_streams_blocks cfg req =
     run_stream cfg req ''newHeads'' JNull block_event ''blocks'' ''gap'' (Some (replay_blocks cfg))"

text \<open>The topics up to the last one that is set.\<close>

definition upto_last_set :: "json list \<Rightarrow> json list" where
  "upto_last_set ts = take (length (dropWhile (\<lambda>t. t = JNull) (rev ts))) ts"

definition parse_log_filter :: "request \<Rightarrow> string + dict" where
  "parse_log_filter req =
     bindE (parse_addresses_csv (query_get req ''address'')) (\<lambda>addrs.
     bindE (topics_from req [0, 1, 2, 3]) (\<lambda>topics.
       Inr (build_filter addrs (upto_last_set topics))))"

definition get_streams_logs :: "config \<Rightarrow> request \<Rightarrow> stream_reply sio" where
  "get_streams_logs cfg req =
     (case parse_log_filter req of
        Inl msg \<Rightarrow> retS (Plain (bad_request (req_path req) msg))
      | Inr flt \<Rightarrow> run_stream cfg req ''logs'' (JObj flt) log_event ''logs'' ''gap'' (Some (replay_logs cfg flt)))"

definition get_streams_pending :: "config \<Rightarrow> request \<Rightarrow> stream_reply sio" where
  "get_streams_pending cfg req =
     (let full = (case query_get req ''full'' of None \<Rightarrow> False | Some v \<Rightarrow> lower v = ''true'') in
      run_stream cfg req ''newPendingTransactions'' (if full then JBool True else JNull)
        (if full then pending_event_full else pending_event_hash_only) ''pending-transactions'' ''resumed'' None)"

definition get_streams_sync_status :: "config \<Rightarrow> request \<Rightarrow> stream_reply sio" where
  "get_streams_sync_status cfg req =
     run_stream cfg req ''syncing'' JNull sync_status_event ''sync-status'' ''resumed'' None"

section \<open>Interface: what every part of the driver keeps\<close>

definition keepsS :: "(sse_state \<Rightarrow> sse_state \<Rightarrow> bool) \<Rightarrow> 'a sio \<Rightarrow> bool" where
  "keepsS R m \<longleftrightarrow> (\<forall>c s. R s (snd (m c s)))"

locale sio_relation =
  fixes R :: "sse_state \<Rightarrow> sse_state \<Rightarrow> bool"
  assumes R_refl: "R s s"
    and R_trans: "R s1 s2 \<Longrightarrow> R s2 s3 \<Longrightarrow> R s1 s3"
    and R_write: "R s (snd (resp_write b c s))"
    and R_call: "R s (snd (callS meth params c s))"
    and R_prepared: "R s (s\<lparr>prepared := True\<rparr>)"
begin

lemma keeps_ret: "keepsS R (retS a)"
  by (simp add: keepsS_def retS_def R_refl)

lemma keeps_raise: "keepsS R (raiseS e)"
  by (simp add: keepsS_def raiseS_def R_refl)

lemma keeps_lift: "keepsS R (liftS r)"
  by (simp add: keepsS_def liftS_def R_refl)

lemma keeps_write: "keepsS R (resp_write b)"
  by (simp add: keepsS_def R_write)

lemma keeps_call: "keepsS R (callS meth params)"
  by (simp add: keepsS_def R_call)

lemma keeps_bind: "keepsS R m \<Longrightarrow> (\<And>a. keepsS R (f a)) \<Longrightarrow> keepsS R (bindS m f)"
proof -
  assume m: "keepsS R m" and f: "\<And>a. keepsS R (f a)"
  have "R s (snd (bindS m f c s))" for c s
  proof -
    obtain r s' where ms: "m c s = (r, s')" by (cases "m c s")
    then have "R s s'" using m unfolding keepsS_def by (metis snd_conv)
    moreover have "R s' (snd (f a c s'))" for a using f by (simp add: keepsS_def)
    ultimately show ?thesis using R_trans by (cases r) (auto simp: bindS_def ms)
  qed
  then show ?thesis by (simp add: keepsS_def)
qed

lemma keeps_catch: "keepsS R m \<Longrightarrow> (\<And>e. keepsS R (h e)) \<Longrightarrow> keepsS R (catchS m h)"
proof -
  assume m: "keepsS R m" and h: "\<And>e. keepsS R (h e)"
  have "R s (snd (catchS m h c s))" for c s
  proof -
    obtain r s' where ms: "m c s = (r, s')" by (cases "m c s")
    then have "R s s'" using m unfolding keepsS_def by (metis snd_conv)
    moreover have "R s' (snd (h a c s'))" for a using h by (simp add: keepsS_def)
    ultimately show ?thesis using R_trans by (cases r) (auto simp: catchS_def ms)
  qed
  then show ?thesis by (simp add: keepsS_def)
qed

lemma keeps_if: "(b \<Longrightarrow> keepsS R m) \<Longrightarrow> (\<not> b \<Longrightarrow> keepsS R n) \<Longrightarrow> keepsS R (if b then m else n)"
  by simp

lemmas keeps_rules = keeps_ret keeps_raise keeps_lift keeps_write keeps_call keeps_bind keeps_catch keeps_if

lemma keeps_write_event: "keepsS R (write_event event i dat)"
  unfolding write_event_def by (intro keeps_rules)

lemma keeps_open: "keepsS R open_sse"
  using R_refl R_trans [OF R_prepared R_write]
  by (auto simp: keepsS_def open_sse_def split: option.split)

lemma keeps_chunks: "keepsS R (write_chunks threshold bs)"
proof (induction bs)
  case (Cons b bs)
  have "keepsS R (bindS (resp_write b) (\<lambda>u. write_chunks threshold bs))"
    by (intro keeps_rules Cons)
  then show ?case by (simp add: keepsS_def R_refl)
qed (simp add: keeps_ret)

lemma keeps_pump: "keepsS R (pump cfg fmt gap)"
proof -
  have "keepsS R (catchS (bindS (write_chunks threshold chunks) (\<lambda>all.
           case ending of Some e \<Rightarrow> if all then raiseS e else retS () | None \<Rightarrow> retS ()))
        (\<lambda>e. if e = ConnectionResetError then retS () else raiseS e))" for threshold chunks ending
    by (intro keeps_rules keeps_chunks) (auto intro: keeps_rules split: option.split)
  then show ?thesis by (simp add: keepsS_def pump_def case_prod_beta Let_def)
qed

lemma keeps_resume:
  assumes "\<And>f i. replay = Some f \<Longrightarrow> keepsS R (f i)"
  shows "keepsS R (resume_stream req replay gap)"
  using assms by (auto simp: resume_stream_def intro!: keeps_rules split: option.split)

lemma keeps_missed: "(\<And>h. keepsS R (k h)) \<Longrightarrow> keepsS R (with_missed cfg b k)"
  unfolding with_missed_def missed_gap_def by (intro keeps_rules keeps_write_event)

lemma keeps_write_blocks: "keepsS R (write_blocks ns)"
  by (induction ns) (auto intro!: keeps_rules keeps_write_event split: prod.split)

lemma keeps_write_logs: "keepsS R (write_logs lgs)"
  by (induction lgs) (auto intro!: keeps_rules keeps_write_event split: prod.split)

lemma keeps_replay_blocks: "keepsS R (replay_blocks cfg i)"
  by (auto simp: replay_blocks_def intro!: keeps_rules keeps_missed keeps_write_blocks split: sum.split)

lemma keeps_replay_logs: "keepsS R (replay_logs cfg flt i)"
  by (auto simp: replay_logs_def intro!: keeps_rules keeps_missed keeps_write_logs split: sum.split)

end

text \<open>Nothing in it touches the gauge or the subscription.\<close>

definition same_books :: "sse_state \<Rightarrow> sse_state \<Rightarrow> bool" where
  "same_books s s' \<longleftrightarrow> sse_counts s' = sse_counts s \<and> sse_metrics s' = sse_metrics s
     \<and> opened_subs s' = opened_subs s \<and> closed_subs s' = closed_subs s"

interpretation books: sio_relation same_books
  by unfold_locales
    (auto simp: same_books_def resp_write_def callS_def Let_def split: option.split prod.split)

text \<open>The upstream's requests keep their history.\<close>

definition same_history :: "sse_state \<Rightarrow> sse_state \<Rightarrow> bool" where
  "same_history s s' \<longleftrightarrow> history_step (http s) (http s')"

lemma callS_http: "http (snd (callS meth params c s)) = snd (upstream_call meth params (c_net c) (http s))"
  by (simp add: callS_def case_prod_beta Let_def)

lemma resp_write_http [simp]: "http (snd (resp_write b c s)) = http s"
  by (simp add: resp_write_def Let_def split: option.split)

interpretation hist: sio_relation same_history
proof
  show "same_history s1 s2 \<Longrightarrow> same_history s2 s3 \<Longrightarrow> same_history s1 s3" for s1 s2 s3
    unfolding same_history_def by (rule history_step_trans)
qed (simp_all add: same_history_def history_step_refl callS_http history_step_call)

section \<open>Books\<close>

definition preamble_of :: "request \<Rightarrow> (string \<Rightarrow> unit sio) option \<Rightarrow> string \<Rightarrow> unit sio" where
  "preamble_of req replay gap = bindS open_sse (\<lambda>u. resume_stream req replay gap)"

lemma keeps_preamble:
  assumes "replay \<in> {None, Some (replay_blocks cfg), Some (replay_logs cfg flt)}"
  shows "keepsS same_books (preamble_of req replay gap)"
  using assms unfolding preamble_of_def
  by (intro books.keeps_bind books.keeps_open books.keeps_resume)
    (auto intro: books.keeps_replay_blocks books.keeps_replay_logs)

lemma same_booksD: "keepsS same_books m \<Longrightarrow> m c s = (r, s') \<Longrightarrow> same_books s s'"
  unfolding keepsS_def by (metis snd_conv)

text \<open>The part of the driver under the gauge.\<close>

lemma run_stream_subscribed:
  assumes "subscribe_reply c kind params = Inr u"
  shows "run_stream cfg req kind params fmt label gap replay c s =
    (let s1 = publish_sse_gauge label 1 (s\<lparr>opened_subs := opened_subs s + 1\<rparr>);
         (r, s2) = preamble_of req replay gap c s1 in
     case r of
       Inl e \<Rightarrow> (Inl e, publish_sse_gauge label (-1) s2)
     | Inr u \<Rightarrow>
         (let (r3, s3) = pump cfg fmt gap c s2 in
          (mapR (\<lambda>u. Streamed) r3, publish_sse_gauge label (-1) (close_events s3))))"
  using assms
  by (auto simp: run_stream_def preamble_of_def finallyS_def bindS_def retS_def Let_def mapR_def
      split: prod.splits sum.splits)

lemma publish_twice:
  assumes "same_books (publish_sse_gauge label 1 s) s2"
  shows "count_of label (publish_sse_gauge label (-1) s2) = count_of label s"
    and "l \<noteq> label \<Longrightarrow> dget l (sse_counts (publish_sse_gauge label (-1) s2)) = dget l (sse_counts s)"
    and "dget [(''stream'', label)] (g_values (m_sse_connections (sse_metrics (publish_sse_gauge label (-1) s2))))
           = Some (of_int (count_of label s))"
  using assms
  by (simp_all add: same_books_def publish_sse_gauge_def count_of_def Let_def set_sse_connections_def gauge_set_def)

lemma publish_subs [simp]:
  "opened_subs (publish_sse_gauge label d s) = opened_subs s" "closed_subs (publish_sse_gauge label d s) = closed_subs s"
  by (simp_all add: publish_sse_gauge_def Let_def)

lemma publish_close:
  "publish_sse_gauge label d (close_events s) = close_events (publish_sse_gauge label d s)"
  by (simp add: publish_sse_gauge_def close_events_def Let_def count_of_def)

lemma stream_books_parts:
  assumes "replay \<in> {None, Some (replay_blocks cfg), Some (replay_logs cfg flt)}"
    and "run_stream cfg req kind params fmt label gap replay c s = (r, s')"
  shows "subscribe_reply c kind params = Inr u \<Longrightarrow>
      count_of label s' = count_of label s
      \<and> (\<forall>l. l \<noteq> label \<longrightarrow> dget l (sse_counts s') = dget l (sse_counts s))
      \<and> dget [(''stream'', label)] (g_values (m_sse_connections (sse_metrics s'))) = Some (of_int (count_of label s))"
    and "subscribe_reply c kind params = Inr u \<Longrightarrow>
      opened_subs s' = opened_subs s + 1
      \<and> closed_subs s' = closed_subs s
          + (if is_ok (fst (preamble_of req replay gap c (publish_sse_gauge label 1 (s\<lparr>opened_subs := opened_subs s + 1\<rparr>)))) then 1 else 0)"
    and "subscribe_reply c kind params = Inl e \<Longrightarrow>
      s' = s \<and> ((\<exists>m. e = SubscriptionUnavailable m) \<longrightarrow> (\<exists>resp. r = Inr (Plain resp) \<and> resp_status resp = 503))"
proof -
  let ?s0 = "s\<lparr>opened_subs := opened_subs s + 1\<rparr>"
  let ?s1 = "publish_sse_gauge label 1 ?s0"
  have P: "keepsS same_books (preamble_of req replay gap)"
    by (rule keeps_preamble [OF assms(1)])
  have both: "(count_of label s' = count_of label s
      \<and> (\<forall>l. l \<noteq> label \<longrightarrow> dget l (sse_counts s') = dget l (sse_counts s))
      \<and> dget [(''stream'', label)] (g_values (m_sse_connections (sse_metrics s'))) = Some (of_int (count_of label s)))
      \<and> opened_subs s' = opened_subs s + 1
      \<and> closed_subs s' = closed_subs s + (if is_ok (fst (preamble_of req replay gap c ?s1)) then 1 else 0)"
    if sub: "subscribe_reply c kind params = Inr u"
  proof (cases "preamble_of req replay gap c ?s1")
    case (Pair q s2)
    have c0: "count_of label ?s0 = count_of label s" "sse_counts ?s0 = sse_counts s"
      by (simp_all add: count_of_def)
    have b2: "same_books ?s1 s2" by (rule same_booksD [OF P Pair])
    show ?thesis
    proof (cases q)
      case (Inl e)
      then have "s' = publish_sse_gauge label (-1) s2"
        using assms(2) unfolding run_stream_subscribed [OF sub] Let_def Pair Inl by simp
      with publish_twice [OF b2] b2 Inl Pair c0 show ?thesis
        by (simp add: same_books_def)
    next
      case (Inr v)
      obtain r3 s3 where p: "pump cfg fmt gap c s2 = (r3, s3)" by fastforce
      have b3: "same_books ?s1 s3"
        using b2 same_booksD [OF books.keeps_pump p] by (rule books.R_trans)
      have "s' = close_events (publish_sse_gauge label (-1) s3)"
        using assms(2) unfolding run_stream_subscribed [OF sub] Let_def Pair Inr by (simp add: p publish_close)
      with publish_twice [OF b3] b3 Inr Pair c0 show ?thesis
        by (simp add: same_books_def close_events_def count_of_def)
    qed
  qed
  show "subscribe_reply c kind params = Inr u \<Longrightarrow>
      count_of label s' = count_of label s
      \<and> (\<forall>l. l \<noteq> label \<longrightarrow> dget l (sse_counts s') = dget l (sse_counts s))
      \<and> dget [(''stream'', label)] (g_values (m_sse_connections (sse_metrics s'))) = Some (of_int (count_of label s))"
    using both by blast
  show "subscribe_reply c kind params = Inr u \<Longrightarrow>
      opened_subs s' = opened_subs s + 1
      \<and> closed_subs s' = closed_subs s + (if is_ok (fst (preamble_of req replay gap c ?s1)) then 1 else 0)"
    using both by blast
  show "subscribe_reply c kind params = Inl e \<Longrightarrow>
      s' = s \<and> ((\<exists>m. e = SubscriptionUnavailable m) \<longrightarrow> (\<exists>resp. r = Inr (Plain resp) \<and> resp_status resp = 503))"
    using assms(2) by (cases e) (auto simp: run_stream_def simple_problem_def problem_response_def)
qed

text \<open>
  C20. A stream leaves the books as it found them. When the manager grants the subscription, then
  however the stream ends -- the client goes, a write fails, a formatter raises, the task is
  cancelled -- the connection count and the gauge of its label are back to what they were, no other
  label is touched, and one consumer was opened; it is closed again exactly if the opening frame and
  what resumes the stream could be written, so a client that goes before leaves its consumer behind.
  When the subscription is refused nothing is written and nothing changes.
\<close>

theorem stream_books:
  assumes "replay \<in> {None, Some (replay_blocks cfg), Some (replay_logs cfg flt)}"
    and "run_stream cfg req kind params fmt label gap replay c s = (r, s')"
  shows "(subscribe_reply c kind params = Inr u \<longrightarrow>
      count_of label s' = count_of label s
      \<and> (\<forall>l. l \<noteq> label \<longrightarrow> dget l (sse_counts s') = dget l (sse_counts s))
      \<and> dget [(''stream'', label)] (g_values (m_sse_connections (sse_metrics s'))) = Some (of_int (count_of label s)))
    \<and> (subscribe_reply c kind params = Inr u \<longrightarrow>
      opened_subs s' = opened_subs s + 1
      \<and> closed_subs s' = closed_subs s
          + (if is_ok (fst (preamble_of req replay gap c (publish_sse_gauge label 1 (s\<lparr>opened_subs := opened_subs s + 1\<rparr>)))) then 1 else 0))
    \<and> (subscribe_reply c kind params = Inl e \<longrightarrow>
      s' = s \<and> ((\<exists>m. e = SubscriptionUnavailable m) \<longrightarrow> (\<exists>resp. r = Inr (Plain resp) \<and> resp_status resp = 503)))"
  using stream_books_parts [OF assms] by blast

text \<open>A client that reads everything, and the process before its request.\<close>

definition good_client :: "net \<Rightarrow> feed_item list \<Rightarrow> client" where
  "good_client net items =
     \<lparr>c_net = net, subscribe_reply = (\<lambda>kind params. Inr ()), feed = items, prepare_error = None,
      write_error = (\<lambda>n. None), buffered = (\<lambda>n. None)\<rparr>"

definition quiet_process :: sse_state where
  "quiet_process = \<lparr>http = fresh, sse_counts = [(''logs'', 2)], sse_metrics = new_metrics, opened_subs = 5,
     closed_subs = 3, prepared = False, attempts = 0, written = []\<rparr>"

definition plain_get :: request where
  "plain_get = \<lparr>req_method = ''GET'', req_path = ''/streams/blocks'', match_info = [], query = [],
     req_headers = [], req_body = []\<rparr>"

theorem stream_books_witness:
  "\<exists>r s'. get_streams_blocks sample_config plain_get
        ((good_client (constant_net JNull) [])\<lparr>prepare_error := Some ConnectionResetError\<rparr>) quiet_process = (r, s')
      \<and> count_of ''blocks'' s' = 0 \<and> opened_subs s' = 6 \<and> closed_subs s' = 3"
proof -
  let ?c = "(good_client (constant_net JNull) [])\<lparr>prepare_error := Some ConnectionResetError\<rparr>"
  obtain r s' where run: "get_streams_blocks sample_config plain_get ?c quiet_process = (r, s')" by fastforce
  have sub: "subscribe_reply ?c ''newHeads'' JNull = Inr ()" by (simp add: good_client_def)
  have "fst (preamble_of plain_get (Some (replay_blocks sample_config)) ''gap'' ?c s) = Inl ConnectionResetError" for s
    by (simp add: preamble_of_def bindS_def open_sse_def)
  then show ?thesis
    using stream_books [OF _ run [unfolded get_streams_blocks_def], where flt = "[]" and u = "()" and e = TypeError]
      sub run
    by (simp add: quiet_process_def count_of_def)
qed

section \<open>Delivery\<close>

definition event_frame :: "event_formatter \<Rightarrow> string \<Rightarrow> stream_event \<Rightarrow> nat list res" where
  "event_frame fmt gap ev =
     (case ev of Gap \<Rightarrow> gap_frame gap | Event p \<Rightarrow> bindE (fmt p) (\<lambda>(name, i, dat). format_event name i dat))"

definition arrivals :: "feed_item list \<Rightarrow> stream_event list" where
  "arrivals items = List.map_filter (\<lambda>it. case it of Arrives ev \<Rightarrow> Some ev | _ \<Rightarrow> None) items"

definition uninterrupted :: "feed_item list \<Rightarrow> bool" where
  "uninterrupted items \<longleftrightarrow> list_all (\<lambda>it. case it of Interrupted e \<Rightarrow> False | _ \<Rightarrow> True) items"

text \<open>A frame begins with its event line, a ping with a colon.\<close>

lemma utf8_ascii_hd: "n < 128 \<Longrightarrow> utf8_encode (n # ns) = n # utf8_encode ns"
  by (simp add: utf8_encode_def utf8_enc1_def)

lemma hd_event: "format_event event i dat = Inr b \<Longrightarrow> \<exists>r. b = 101 # r"
  by (auto simp: format_event_def mapR_eq_Inr_iff frame_text_def event_lines_def utf8_ascii_hd)

lemma hd_ping: "\<exists>r. ping t = 58 # r"
  by (simp add: ping_def format_comment_def frame_text_def utf8_ascii_hd)

lemma event_not_ping: "format_event event i dat = Inr b \<Longrightarrow> b \<notin> range ping"
  using hd_event hd_ping by (metis imageE list.inject num.distinct numeral_eq_iff)

lemma event_frame_not_ping: "event_frame fmt gap ev = Inr b \<Longrightarrow> b \<notin> range ping"
  by (auto simp: event_frame_def gap_frame_def res_iffs split: stream_event.splits prod.splits dest: event_not_ping)

lemma arrivals_simps [simp]:
  "arrivals [] = []" "arrivals (Silent t # items) = arrivals items"
  "arrivals (Interrupted e # items) = arrivals items" "arrivals (Arrives ev # items) = ev # arrivals items"
  by (simp_all add: arrivals_def map_filter_simps)

definition without_pings :: "nat list list \<Rightarrow> nat list list" where
  "without_pings bs = filter (\<lambda>b. b \<notin> range ping) bs"

lemma to_bytes_frames:
  assumes "uninterrupted items" "mapE (event_frame fmt gap) (arrivals items) = Inr frames"
  shows "\<exists>ws. stream_with_heartbeat (event_chunks fmt gap (items @ rest)) =
      (ws @ fst (stream_with_heartbeat (event_chunks fmt gap rest)), snd (stream_with_heartbeat (event_chunks fmt gap rest)))
    \<and> without_pings ws = frames"
  using assms
proof (induction items arbitrary: frames)
  case Nil
  then show ?case by (intro exI [of _ "[]"]) (simp add: without_pings_def)
next
  case (Cons it items)
  have un: "uninterrupted items" using Cons.prems(1) by (simp add: uninterrupted_def)
  let ?rest = "stream_with_heartbeat (event_chunks fmt gap rest)"
  show ?case
  proof (cases it)
    case (Interrupted e)
    with Cons.prems(1) show ?thesis by (simp add: uninterrupted_def)
  next
    case (Silent t)
    then obtain ws where "stream_with_heartbeat (event_chunks fmt gap (items @ rest)) = (ws @ fst ?rest, snd ?rest)"
      "without_pings ws = frames"
      using Cons.IH [OF un] Cons.prems(2) by fastforce
    then show ?thesis
      using Silent by (intro exI [of _ "ping t # ws"]) (simp add: without_pings_def)
  next
    case (Arrives ev)
    then obtain b bs where b: "event_frame fmt gap ev = Inr b" "frames = b # bs"
      and bs: "mapE (event_frame fmt gap) (arrivals items) = Inr bs"
      using Cons.prems(2) by (auto simp: res_iffs)
    obtain ws where ws: "stream_with_heartbeat (event_chunks fmt gap (items @ rest)) = (ws @ fst ?rest, snd ?rest)"
      "without_pings ws = bs"
      using Cons.IH [OF un bs] by blast
    have "event_chunks fmt gap (it # items @ rest) = Chunk b # event_chunks fmt gap (items @ rest)"
      using b(1) Arrives
      by (cases ev) (auto simp: event_frame_def chunk_of_def res_iffs split: prod.splits)
    then show ?thesis
      using ws b event_frame_not_ping [OF b(1)]
      by (intro exI [of _ "b # ws"]) (simp add: without_pings_def)
  qed
qed

definition patient :: "config \<Rightarrow> client \<Rightarrow> bool" where
  "patient cfg c \<longleftrightarrow> prepare_error c = None \<and> (\<forall>n. write_error c n = None)
     \<and> (\<forall>n b. buffered c n = Some b \<longrightarrow> b \<le> sse_buffer_bytes cfg)"

lemma patient_write:
  "patient cfg c \<Longrightarrow> resp_write b c s = (Inr (), s\<lparr>attempts := attempts s + 1, written := written s @ [b]\<rparr>)"
  by (simp add: patient_def resp_write_def Let_def)

lemma patient_chunks:
  assumes "patient cfg c"
  shows "\<exists>k. write_chunks (sse_buffer_bytes cfg) bs c s = (Inr True, s\<lparr>attempts := k, written := written s @ bs\<rparr>)"
proof (induction bs arbitrary: s)
  case Nil
  show ?case by (intro exI [of _ "attempts s"]) (simp add: retS_def)
next
  case (Cons b bs)
  have "\<not> over_backpressure_threshold (sse_buffer_bytes cfg) c s"
    using assms by (auto simp: patient_def over_backpressure_threshold_def not_less split: option.split)
  then show ?case
    using Cons.IH [of "s\<lparr>attempts := attempts s + 1, written := written s @ [b]\<rparr>"]
    by (auto simp: bindS_def patient_write [OF assms])
qed

lemma patient_pump:
  assumes "patient cfg c" "stream_with_heartbeat (event_chunks fmt gap (feed c)) = (bs, None)"
  shows "\<exists>k. pump cfg fmt gap c s = (Inr (), s\<lparr>attempts := k, written := written s @ bs\<rparr>)"
  using patient_chunks [OF assms(1), of bs s] assms(2)
  by (auto simp: pump_def catchS_def bindS_def retS_def)

lemma patient_run:
  assumes "patient cfg c" "subscribe_reply c kind params = Inr u" "header_get req ''Last-Event-ID'' = None"
    and "stream_with_heartbeat (event_chunks fmt gap (feed c)) = (bs, None)"
  shows "\<exists>s'. run_stream cfg req kind params fmt label gap replay c s = (Inr Streamed, s')
    \<and> written s' = written s @ format_retry 5000 # bs"
proof -
  let ?s1 = "publish_sse_gauge label 1 (s\<lparr>opened_subs := opened_subs s + 1\<rparr>)"
  let ?s2 = "?s1\<lparr>prepared := True, attempts := attempts s + 1, written := written s @ [format_retry 5000]\<rparr>"
  have p: "preamble_of req replay gap c ?s1 = (Inr (), ?s2)"
    using assms(1,3)
    by (simp add: preamble_of_def bindS_def open_sse_def patient_write [OF assms(1)] resume_stream_def retS_def
        patient_def publish_sse_gauge_def Let_def)
  obtain k where k: "pump cfg fmt gap c ?s2 = (Inr (), ?s2\<lparr>attempts := k, written := written ?s2 @ bs\<rparr>)"
    using patient_pump [OF assms(1,4)] by blast
  show ?thesis
    unfolding run_stream_subscribed [OF assms(2)] Let_def p k prod.case sum.case
    by (simp add: close_events_def publish_sse_gauge_def Let_def)
qed

lemma error_frame_ok: "\<exists>b. error_frame = Inr b \<and> b \<notin> range ping"
proof -
  have "\<exists>b. error_frame = Inr b"
    by (simp add: error_frame_def format_event_def json_dumps_res_def)
  then show ?thesis unfolding error_frame_def using event_not_ping by blast
qed

lemma stream_writes_in_order_parts:
  assumes "patient cfg c" "subscribe_reply c kind params = Inr u" "header_get req ''Last-Event-ID'' = None"
    and "uninterrupted items" "mapE (event_frame fmt gap) (arrivals items) = Inr frames"
  shows "feed c = items \<Longrightarrow>
      \<exists>s' bs. run_stream cfg req kind params fmt label gap replay c s = (Inr Streamed, s')
        \<and> written s' = written s @ format_retry 5000 # bs \<and> without_pings bs = frames"
    and "feed c = items @ Arrives (Event p) # rest \<Longrightarrow> fmt p = Inl e \<Longrightarrow>
      \<exists>s' bs b. run_stream cfg req kind params fmt label gap replay c s = (Inr Streamed, s')
        \<and> written s' = written s @ format_retry 5000 # bs \<and> error_frame = Inr b
        \<and> without_pings bs = frames @ [b]"
proof -
  obtain b where b: "error_frame = Inr b" "b \<notin> range ping" using error_frame_ok by blast
  show "feed c = items \<Longrightarrow>
      \<exists>s' bs. run_stream cfg req kind params fmt label gap replay c s = (Inr Streamed, s')
        \<and> written s' = written s @ format_retry 5000 # bs \<and> without_pings bs = frames"
    using to_bytes_frames [OF assms(4,5), of "[]"] patient_run [OF assms(1-3)] by fastforce
  assume f: "feed c = items @ Arrives (Event p) # rest" "fmt p = Inl e"
  then have "stream_with_heartbeat (event_chunks fmt gap (Arrives (Event p) # rest)) = ([b], None)"
    by (simp add: chunk_of_def b(1) cong: sum.case_cong)
  with f obtain ws where "stream_with_heartbeat (event_chunks fmt gap (feed c)) = (ws @ [b], None)"
    and "without_pings ws = frames"
    using to_bytes_frames [OF assms(4,5), of "Arrives (Event p) # rest"] by auto
  with patient_run [OF assms(1-3)] b
  show "\<exists>s' bs b. run_stream cfg req kind params fmt label gap replay c s = (Inr Streamed, s')
        \<and> written s' = written s @ format_retry 5000 # bs \<and> error_frame = Inr b
        \<and> without_pings bs = frames @ [b]"
    by (fastforce simp: without_pings_def)
qed

text \<open>
  C21. A client that keeps reading gets the opening frame, then one frame per event in the order they
  arrived, heartbeats apart; gaps have frames too. An event the formatter refuses gets the error frame
  in its place, which is the last thing the client is sent, whatever arrives after it.
\<close>

theorem stream_writes_in_order:
  assumes "patient cfg c" "subscribe_reply c kind params = Inr u" "header_get req ''Last-Event-ID'' = None"
    and "uninterrupted items" "mapE (event_frame fmt gap) (arrivals items) = Inr frames"
  shows "(feed c = items \<longrightarrow>
      (\<exists>s' bs. run_stream cfg req kind params fmt label gap replay c s = (Inr Streamed, s')
        \<and> written s' = written s @ format_retry 5000 # bs \<and> without_pings bs = frames))
    \<and> (feed c = items @ Arrives (Event p) # rest \<longrightarrow> fmt p = Inl e \<longrightarrow>
      (\<exists>s' bs b. run_stream cfg req kind params fmt label gap replay c s = (Inr Streamed, s')
        \<and> written s' = written s @ format_retry 5000 # bs \<and> error_frame = Inr b
        \<and> without_pings bs = frames @ [b]))"
  using stream_writes_in_order_parts [OF assms] by blast

theorem stream_writes_in_order_witness:
  "\<exists>s' bs b1 b2. run_stream sample_config plain_get ''newPendingTransactions'' JNull pending_event_hash_only
        ''pending-transactions'' ''resumed'' None
        (good_client (constant_net JNull) [Arrives (Event (JStr ''0xaa'')), Silent 7, Arrives (Event (JInt 3)), Arrives Gap])
        quiet_process = (Inr Streamed, s')
      \<and> written s' = format_retry 5000 # bs \<and> error_frame = Inr b2
      \<and> format_event ''pending-transaction'' (JStr ''0xaa'') (JObj [(''hash'', JStr ''0xaa'')]) = Inr b1
      \<and> without_pings bs = [b1, b2]"
proof -
  let ?items = "[Arrives (Event (JStr ''0xaa'')), Silent 7]"
  let ?c = "good_client (constant_net JNull) (?items @ Arrives (Event (JInt 3)) # [Arrives Gap])"
  obtain b1 where b1: "format_event ''pending-transaction'' (JStr ''0xaa'') (JObj [(''hash'', JStr ''0xaa'')]) = Inr b1"
    by (simp add: format_event_def json_dumps_res_def)
  have "patient sample_config ?c" "subscribe_reply ?c ''newPendingTransactions'' JNull = Inr ()"
    "feed ?c = ?items @ Arrives (Event (JInt 3)) # [Arrives Gap]"
    by (simp_all add: patient_def good_client_def)
  moreover have "header_get plain_get ''Last-Event-ID'' = None"
    by (simp add: header_get_def plain_get_def)
  moreover have "uninterrupted ?items" by (simp add: uninterrupted_def)
  moreover have "mapE (event_frame pending_event_hash_only ''resumed'') (arrivals ?items) = Inr [b1]"
    using b1 by (simp add: event_frame_def pending_event_hash_only_def)
  moreover have "pending_event_hash_only (JInt 3) = Inl AttributeError"
    by (simp add: pending_event_hash_only_def)
  ultimately show ?thesis
    using b1 stream_writes_in_order [where cfg = sample_config and c = ?c and kind = "''newPendingTransactions''"
        and params = JNull and u = "()" and req = plain_get and items = ?items and fmt = pending_event_hash_only
        and gap = "''resumed''" and frames = "[b1]" and p = "JInt 3" and rest = "[Arrives Gap]"
        and e = AttributeError and label = "''pending-transactions''" and replay = None and s = quiet_process]
    by (auto simp: quiet_process_def)
qed

section \<open>Replay\<close>

text \<open>An upstream at a fixed head with the blocks of a chain (\<open>null\<close> where it has none).\<close>

definition answers :: "net \<Rightarrow> string \<Rightarrow> json list \<Rightarrow> json \<Rightarrow> bool" where
  "answers net meth ps v \<longleftrightarrow>
     (\<forall>h i. read_outcome (reply net (h @ [rpc_body i meth ps])) = (''ok'', Inr v))"

definition serves_blocks :: "net \<Rightarrow> int \<Rightarrow> (int \<Rightarrow> json) \<Rightarrow> bool" where
  "serves_blocks net head ledger \<longleftrightarrow>
     answers net ''eth_blockNumber'' [] (JStr (hex_quantity (nat head))) \<and> 0 \<le> head
     \<and> (\<forall>n. answers net ''eth_getBlockByNumber'' [JStr (py_hex n), JBool True] (ledger n))"

lemma callS_answers:
  assumes "answers (c_net c) meth ps v" "list_all dumpable ps"
  shows "\<exists>w. callS meth ps c s = (Inr v, s\<lparr>http := w\<rparr>)"
  using assms by (auto simp: callS_def upstream_call_dumpable answers_def intro!: exI)

definition block_frame :: "json \<Rightarrow> nat list res" where
  "block_frame rpc = bindE (block_event rpc) (\<lambda>(name, i, header). format_event name i header)"

lemma write_blocks_frames:
  assumes "patient cfg c" "\<And>n. answers (c_net c) ''eth_getBlockByNumber'' [JStr (py_hex n), JBool True] (ledger n)"
    and "mapE (\<lambda>n. block_frame (ledger n)) (filter (\<lambda>n. ledger n \<noteq> JNull) ns) = Inr frames"
  shows "\<exists>w k. write_blocks ns c s = (Inr (), s\<lparr>http := w, attempts := k, written := written s @ frames\<rparr>)"
  using assms(3)
proof (induction ns arbitrary: s frames)
  case Nil
  then show ?case by (intro exI [of _ "http s"] exI [of _ "attempts s"]) (simp add: retS_def)
next
  case (Cons n ns)
  obtain w where w: "callS ''eth_getBlockByNumber'' [JStr (py_hex n), JBool True] c s = (Inr (ledger n), s\<lparr>http := w\<rparr>)"
    using callS_answers [OF assms(2)] by fastforce
  show ?case
  proof (cases "ledger n = JNull")
    case True
    with Cons.prems Cons.IH [of frames "s\<lparr>http := w\<rparr>"] show ?thesis
      by (auto simp: bindS_def w)
  next
    case False
    then obtain b bs where b: "block_frame (ledger n) = Inr b" "frames = b # bs"
      and bs: "mapE (\<lambda>n. block_frame (ledger n)) (filter (\<lambda>n. ledger n \<noteq> JNull) ns) = Inr bs"
      using Cons.prems by (auto simp: res_iffs)
    obtain name i header where e: "block_event (ledger n) = Inr (name, i, header)"
      "format_event name i header = Inr b"
      using b(1) by (auto simp: block_frame_def res_iffs)
    let ?s = "s\<lparr>http := w, attempts := attempts s + 1, written := written s @ [b]\<rparr>"
    have "write_event name i header c (s\<lparr>http := w\<rparr>) = (Inr (), ?s)"
      by (simp add: write_event_def bindS_def liftS_def e(2) patient_write [OF assms(1)])
    then have "write_blocks (n # ns) c s = write_blocks ns c ?s"
      using False by (simp add: bindS_def liftS_def w e(1))
    with Cons.IH [OF bs, of ?s] b(2) show ?thesis by auto
  qed
qed

lemma with_missed_head:
  assumes "answers (c_net c) ''eth_blockNumber'' [] (JStr (hex_quantity (nat head)))" "0 \<le> head"
  shows "\<exists>w. with_missed cfg last_block k c s =
    (if head \<le> last_block then (Inr (), s\<lparr>http := w\<rparr>)
     else if sse_replay_window cfg < head - last_block then missed_gap last_block head c (s\<lparr>http := w\<rparr>)
     else k head c (s\<lparr>http := w\<rparr>))"
proof -
  obtain w where "callS ''eth_blockNumber'' [] c s = (Inr (JStr (hex_quantity (nat head))), s\<lparr>http := w\<rparr>)"
    using callS_answers [OF assms(1)] by fastforce
  then show ?thesis
    using assms(2) by (intro exI [of _ w]) (simp add: with_missed_def bindS_def liftS_def retS_def)
qed

lemma replay_blocks_complete_parts:
  assumes "patient cfg c" "serves_blocks (c_net c) head ledger" "int_of_str i = Inr last_block"
  shows "head \<le> last_block \<Longrightarrow> fst (replay_blocks cfg i c s) = Inr () \<and> written (snd (replay_blocks cfg i c s)) = written s"
    and "sse_replay_window cfg < head - last_block \<Longrightarrow> last_block < head \<Longrightarrow>
      format_event ''gap'' JNull (JObj [(''from'', JInt (last_block + 1)), (''to'', JInt head)]) = Inr b \<Longrightarrow>
      fst (replay_blocks cfg i c s) = Inr () \<and> written (snd (replay_blocks cfg i c s)) = written s @ [b]"
    and "last_block < head \<Longrightarrow> head - last_block \<le> sse_replay_window cfg \<Longrightarrow>
      mapE (\<lambda>n. block_frame (ledger n)) (filter (\<lambda>n. ledger n \<noteq> JNull) [last_block + 1..head]) = Inr frames \<Longrightarrow>
      fst (replay_blocks cfg i c s) = Inr () \<and> written (snd (replay_blocks cfg i c s)) = written s @ frames"
proof -
  have blocks: "\<And>n. answers (c_net c) ''eth_getBlockByNumber'' [JStr (py_hex n), JBool True] (ledger n)"
    and h: "answers (c_net c) ''eth_blockNumber'' [] (JStr (hex_quantity (nat head)))" "0 \<le> head"
    using assms(2) by (simp_all add: serves_blocks_def)
  obtain w where w: "replay_blocks cfg i c s =
    (if head \<le> last_block then (Inr (), s\<lparr>http := w\<rparr>)
     else if sse_replay_window cfg < head - last_block then missed_gap last_block head c (s\<lparr>http := w\<rparr>)
     else write_blocks [last_block + 1..head] c (s\<lparr>http := w\<rparr>))"
    using with_missed_head [OF h, of cfg last_block "\<lambda>head. write_blocks [last_block + 1..head]" s]
    by (auto simp: replay_blocks_def assms(3))
  show "head \<le> last_block \<Longrightarrow> fst (replay_blocks cfg i c s) = Inr () \<and> written (snd (replay_blocks cfg i c s)) = written s"
    by (simp add: w)
  show "sse_replay_window cfg < head - last_block \<Longrightarrow> last_block < head \<Longrightarrow>
      format_event ''gap'' JNull (JObj [(''from'', JInt (last_block + 1)), (''to'', JInt head)]) = Inr b \<Longrightarrow>
      fst (replay_blocks cfg i c s) = Inr () \<and> written (snd (replay_blocks cfg i c s)) = written s @ [b]"
    by (simp add: w missed_gap_def write_event_def bindS_def liftS_def patient_write [OF assms(1)])
  assume "last_block < head" "head - last_block \<le> sse_replay_window cfg"
    "mapE (\<lambda>n. block_frame (ledger n)) (filter (\<lambda>n. ledger n \<noteq> JNull) [last_block + 1..head]) = Inr frames"
  with write_blocks_frames [OF assms(1) blocks this(3), of "s\<lparr>http := w\<rparr>"]
  show "fst (replay_blocks cfg i c s) = Inr () \<and> written (snd (replay_blocks cfg i c s)) = written s @ frames"
    by (auto simp: w)
qed

text \<open>
  C23. The block replay sends a client that comes back with its last block exactly what it missed:
  nothing when the head is not past it, one gap that names the missed range when more blocks than the
  window passed, and otherwise one frame per missed block, in the order of the chain, blocks the
  upstream does not have left out.
\<close>

theorem replay_blocks_complete:
  assumes "patient cfg c" "serves_blocks (c_net c) head ledger" "int_of_str i = Inr last_block"
  shows "(head \<le> last_block \<longrightarrow> fst (replay_blocks cfg i c s) = Inr () \<and> written (snd (replay_blocks cfg i c s)) = written s)
    \<and> (sse_replay_window cfg < head - last_block \<longrightarrow> last_block < head \<longrightarrow>
      format_event ''gap'' JNull (JObj [(''from'', JInt (last_block + 1)), (''to'', JInt head)]) = Inr b \<longrightarrow>
      fst (replay_blocks cfg i c s) = Inr () \<and> written (snd (replay_blocks cfg i c s)) = written s @ [b])
    \<and> (last_block < head \<longrightarrow> head - last_block \<le> sse_replay_window cfg \<longrightarrow>
      mapE (\<lambda>n. block_frame (ledger n)) (filter (\<lambda>n. ledger n \<noteq> JNull) [last_block + 1..head]) = Inr frames \<longrightarrow>
      fst (replay_blocks cfg i c s) = Inr () \<and> written (snd (replay_blocks cfg i c s)) = written s @ frames)"
  using replay_blocks_complete_parts [OF assms] by blast

definition ledger_of :: "(string \<times> json) list \<Rightarrow> int \<Rightarrow> json" where
  "ledger_of table n = (case dget (py_hex n) table of None \<Rightarrow> JNull | Some v \<Rightarrow> v)"

definition ledger_net :: "nat \<Rightarrow> (string \<times> json) list \<Rightarrow> net" where
  "ledger_net head table = \<lparr>reply = (\<lambda>h. HttpReply 200 (Inr (JObj [(''result'',
     (case List.last h of
        JObj d \<Rightarrow>
          (case dget ''params'' d of
             Some (JList [JStr n, x]) \<Rightarrow> (case dget n table of None \<Rightarrow> JNull | Some v \<Rightarrow> v)
           | _ \<Rightarrow> JStr (hex_quantity head))
      | _ \<Rightarrow> JNull))]))), ends = (\<lambda>h i. i)\<rparr>"

lemma ledger_net_serves: "serves_blocks (ledger_net head table) (int head) (ledger_of table)"
  by (simp add: serves_blocks_def answers_def ledger_net_def rpc_body_def read_outcome_def read_payload_def
      ledger_of_def)

lemma sample_header_frame: "\<exists>b. block_frame sample_header = Inr b"
  by (simp add: block_frame_def block_event_def block_header_from_rpc_def block_header_fields_def
      require_header_def header_fields_def hex_or_def int_or_def wei_or_def sample_header_def shape_defs
      str_at_def str_of_int_def max_str_digits_def show_dec_def digits_of.simps format_event_def
      json_dumps_res_def)

theorem replay_blocks_complete_witness:
  "\<exists>b. block_frame sample_header = Inr b
     \<and> written (snd (replay_blocks sample_config ''15'' (good_client (ledger_net 17 [(py_hex 17, sample_header)]) [])
          quiet_process)) = [b]"
proof -
  let ?c = "good_client (ledger_net 17 [(py_hex 17, sample_header)]) []"
  have i: "int_of_str ''15'' = Inr 15"
    by (simp add: int_of_str_dec all_dec_def is_dec_digit_def read_digits_def digit_val_def value_of_def
        max_str_digits_def)
  have "serves_blocks (ledger_net 17 [(py_hex 17, sample_header)]) 17 (ledger_of [(py_hex 17, sample_header)])"
    using ledger_net_serves [of 17] by simp
  then have s: "serves_blocks (c_net ?c) 17 (ledger_of [(py_hex 17, sample_header)])"
    by (simp add: good_client_def)
  have hex: "py_hex 16 \<noteq> py_hex 17"
    using show_hex_inj [of 16 17] by (auto simp: py_hex_def)
  obtain b where b: "block_frame sample_header = Inr b" using sample_header_frame by blast
  have nn: "sample_header \<noteq> JNull" by (simp add: sample_header_def)
  have "[15 + 1..17] = [16, 17::int]" by (simp add: upto.simps)
  then have "mapE (\<lambda>n. block_frame (ledger_of [(py_hex 17, sample_header)] n))
      (filter (\<lambda>n. ledger_of [(py_hex 17, sample_header)] n \<noteq> JNull) [15 + 1..17]) = Inr [b]"
    by (simp add: ledger_of_def hex b nn)
  moreover have "patient sample_config ?c" by (simp add: patient_def good_client_def)
  ultimately show ?thesis
    using replay_blocks_complete [OF _ s i, where cfg = sample_config and frames = "[b]" and s = quiet_process and b = b] b
    by (simp add: sample_config_def quiet_process_def)
qed

text \<open>
  The log replay starts at the block after the one of the last event: which log of that block
  the client saw last makes no difference, and the later logs of the block are not sent again.
\<close>

lemma replay_logs_ignores_index:
  assumes "CHR ''-'' \<notin> set b"
  shows "replay_logs cfg flt (b @ ''-'' @ i) = replay_logs cfg flt (b @ ''-'' @ j)"
  using assms by (simp add: replay_logs_def takeWhile_append)

lemma replay_logs_ignores_index_witness:
  "replay_logs sample_config [] ''17-0'' = replay_logs sample_config [] ''17-999''"
  using replay_logs_ignores_index [of "''17''" sample_config "[]" "''0''" "''999''"] by simp

text \<open>
  The filter of the log stream is the filter of the log query: the same parameters are refused,
  with the same message, and the same filter is built from the others.
\<close>

lemma stream_filter_agrees:
  "parse_log_filter req =
     bindE (parse_addresses_csv (query_get req ''address'')) (\<lambda>addrs.
       mapR (build_filter addrs) (parse_topics req))"
proof -
  have "upto_last_set ts = strip_nulls ts" for ts
    by (simp add: upto_last_set_def strip_nulls_def dropWhile_eq_drop rev_drop)
  then show ?thesis
    by (cases "topics_from req [0, 1, 2, 3]") (simp_all add: parse_log_filter_def parse_topics_def)
qed

end
