(* ===== verification/UpstreamWs.thy ===== *)
theory UpstreamWs
  imports Upstream Subscriptions
begin

text \<open>
  \<open>upstream_ws.py\<close>: JSON-RPC over one WebSocket. Requests are matched to replies by their id, a
  notification goes to the listener, and a background task connects, reads and reconnects with
  growing delays. The task, the requests and the peer interleave at the awaits, so each step is the
  code between two of them. A future is written under the id of its request: empty, or settled with
  the outcome its request returns.
\<close>

section \<open>State\<close>

text \<open>Where the background task waits.\<close>

datatype ws_phase = Idle | Connecting | Reconnecting | Reading | Sleeping nat | Finished

record ws_client =
  rid_counter :: nat
  waiting :: "nat list"
  settled :: "nat \<Rightarrow> json res option"
  wire :: "bool option"
  connected_event :: bool
  stopping :: bool
  first_connect_error :: "exn option"
  attempt :: nat
  phase :: ws_phase
  frames :: "(nat \<times> string \<times> json list) list"

text \<open>\<open>wire\<close> is the socket, if there is one, and whether it was found closed.\<close>

record ws_config =
  reconnects :: bool
  has_listener :: bool
  backoff :: "nat list"

definition new_ws :: ws_client where
  "new_ws = \<lparr>rid_counter = 1, waiting = [], settled = (\<lambda>i. None), wire = None, connected_event = False,
     stopping = False, first_connect_error = None, attempt = 0, phase = Idle, frames = []\<rparr>"

definition default_backoff :: "nat list" where
  "default_backoff = [1, 2, 5, 30]"

definition connected :: "ws_client \<Rightarrow> bool" where
  "connected s = (wire s = Some False)"

section \<open>Requests\<close>

definition ws_frame :: "nat \<Rightarrow> string \<Rightarrow> json list \<Rightarrow> json" where
  "ws_frame rid meth params = rpc_body (int rid) meth params"

text \<open>\<open>request\<close> up to its await: the id it waits for.\<close>

definition request_begin :: "string \<Rightarrow> json list \<Rightarrow> ws_client \<Rightarrow> nat res \<times> ws_client" where
  "request_begin meth params s =
     (if \<not> connected s then (Inl (UpstreamWsClosed ''ws not connected''), s)
      else
        (let rid = rid_counter s; s1 = s\<lparr>rid_counter := rid + 1\<rparr> in
         case json_dumps_res (ws_frame rid meth params) of
           Inl e \<Rightarrow> (Inl e, s1)
         | Inr txt \<Rightarrow> (Inr rid, s1\<lparr>waiting := waiting s @ [rid], frames := frames s @ [(rid, meth, params)]\<rparr>)))"

text \<open>
  The end of the await: the outcome in the future, or the timeout, cancellation or failed write \<open>e\<close>
  that came before one; the id is forgotten in any case.
\<close>

definition request_end :: "nat \<Rightarrow> exn \<Rightarrow> ws_client \<Rightarrow> json res \<times> ws_client" where
  "request_end rid e s =
     (case settled s rid of
        Some r \<Rightarrow> (r, s\<lparr>waiting := remove1 rid (waiting s)\<rparr>)
      | None \<Rightarrow> (Inl e, s\<lparr>waiting := remove1 rid (waiting s), settled := (settled s)(rid \<mapsto> Inl e)\<rparr>))"

section \<open>Reading\<close>

text \<open>An id of a reply: an integer, and a Boolean is one.\<close>

definition reply_id :: "json \<Rightarrow> nat option" where
  "reply_id v =
     (case v of
        JInt i \<Rightarrow> if 0 \<le> i then Some (nat i) else None
      | JBool b \<Rightarrow> Some (if b then 1 else 0)
      | _ \<Rightarrow> None)"

definition open_reply :: "dict \<Rightarrow> ws_client \<Rightarrow> nat option" where
  "open_reply d s =
     (case reply_id (dget_or ''id'' JNull d) of
        None \<Rightarrow> None
      | Some rid \<Rightarrow> if rid \<in> set (waiting s) \<and> settled s rid = None then Some rid else None)"

definition ws_answer :: "dict \<Rightarrow> json res res" where
  "ws_answer d =
     (case dget ''error'' d of
        None \<Rightarrow> Inr (Inr (dget_or ''result'' JNull d))
      | Some (JObj err) \<Rightarrow>
          bindE (int_of_json (dget_or ''code'' (JInt (-32603)) err)) (\<lambda>code.
            Inr (Inl (UpstreamWsJsonRpcError code (py_str (dget_or ''message'' (JStr []) err))
              (dget_or ''data'' JNull err))))
      | Some _ \<Rightarrow> Inl AttributeError)"

definition is_notification :: "dict \<Rightarrow> bool" where
  "is_notification d = (dhas ''method'' d \<and> \<not> dhas ''id'' d)"

text \<open>The listener's exceptions are logged; it changes nothing when it raises.\<close>

definition dispatch :: "(dict \<Rightarrow> 'm \<Rightarrow> 'm res) \<Rightarrow> nat list \<Rightarrow> ws_client \<times> 'm \<Rightarrow> (ws_client \<times> 'm) res" where
  "dispatch listener raw sm =
     (case json_loads raw of
        Inr (JObj d) \<Rightarrow>
          (if is_notification d
           then Inr (fst sm, case listener d (snd sm) of Inl e \<Rightarrow> snd sm | Inr m' \<Rightarrow> m')
           else (case open_reply d (fst sm) of
                   None \<Rightarrow> Inr sm
                 | Some rid \<Rightarrow> bindE (ws_answer d) (\<lambda>r.
                     Inr (fst sm\<lparr>settled := (settled (fst sm))(rid \<mapsto> r)\<rparr>, snd sm))))
      | _ \<Rightarrow> Inr sm)"

definition fail_pending :: "exn \<Rightarrow> ws_client \<Rightarrow> ws_client" where
  "fail_pending e s =
     s\<lparr>settled := (\<lambda>i. if i \<in> set (waiting s) \<and> settled s i = None then Some (Inl e) else settled s i),
       waiting := []\<rparr>"

section \<open>The background task\<close>

definition start :: "ws_client \<Rightarrow> ws_client" where
  "start s = s\<lparr>phase := Connecting\<rparr>"

text \<open>What \<open>start\<close> returns or raises once the event is set.\<close>

definition start_result :: "ws_client \<Rightarrow> unit res" where
  "start_result s =
     (case first_connect_error s of
        None \<Rightarrow> Inr ()
      | Some e \<Rightarrow> Inl (UpstreamWsClosed ''initial connect failed''))"

definition opened :: "ws_config \<Rightarrow> ws_client \<Rightarrow> ws_client" where
  "opened cfg s =
     s\<lparr>wire := Some False, attempt := 0, connected_event := True,
       phase := if connected_event s \<and> has_listener cfg then Reconnecting else Reading\<rparr>"

text \<open>The end of a round, by an exception or by the end of the messages, up to the next await.\<close>

definition round_over :: "ws_config \<Rightarrow> exn option \<Rightarrow> ws_client \<Rightarrow> ws_client" where
  "round_over cfg err s =
     (let s1 = (if err \<noteq> None \<and> \<not> connected_event s then s\<lparr>first_connect_error := err\<rparr> else s);
          s2 = fail_pending (UpstreamWsClosed ''ws disconnected'') (s1\<lparr>wire := None\<rparr>) in
      if \<not> reconnects cfg \<or> stopping s2 then s2\<lparr>connected_event := True, phase := Finished\<rparr>
      else if backoff cfg = [] then s2\<lparr>phase := Finished\<rparr>
      else s2\<lparr>attempt := attempt s2 + 1,
              phase := Sleeping (backoff cfg ! min (attempt s2) (length (backoff cfg) - 1))\<rparr>)"

definition wake :: "ws_client \<Rightarrow> ws_client" where
  "wake s = s\<lparr>phase := if stopping s then Finished else Connecting\<rparr>"

datatype ws_msg = TextMsg "nat list" | CloseMsg | OtherMsg

definition read_msg ::
  "ws_config \<Rightarrow> (dict \<Rightarrow> 'm \<Rightarrow> 'm res) \<Rightarrow> ws_msg \<Rightarrow> ws_client \<times> 'm \<Rightarrow> ws_client \<times> 'm" where
  "read_msg cfg listener msg sm =
     (case msg of
        TextMsg raw \<Rightarrow>
          (case dispatch listener raw sm of
             Inl e \<Rightarrow> (round_over cfg (Some e) (fst sm), snd sm)
           | Inr sm' \<Rightarrow> sm')
      | CloseMsg \<Rightarrow> (round_over cfg None (fst sm), snd sm)
      | OtherMsg \<Rightarrow> sm)"

definition in_round :: "ws_client \<Rightarrow> bool" where
  "in_round s = (phase s \<in> {Connecting, Reconnecting, Reading})"

definition stop_begin :: "ws_client \<Rightarrow> ws_client" where
  "stop_begin s = s\<lparr>stopping := True, wire := (case wire s of None \<Rightarrow> None | Some c \<Rightarrow> Some True)\<rparr>"

definition stop_end :: "ws_client \<Rightarrow> ws_client" where
  "stop_end s =
     fail_pending (UpstreamWsClosed ''ws stopped'')
       ((if in_round s then fail_pending (UpstreamWsClosed ''ws disconnected'') (s\<lparr>wire := None\<rparr>) else s)
          \<lparr>phase := Finished\<rparr>)"

text \<open>
  The steps. \<open>elsewhere\<close> is whatever the rest of the process does to the listener's state; a socket
  can be found closed at any time.
\<close>

inductive wstep ::
  "ws_config \<Rightarrow> (dict \<Rightarrow> 'm \<Rightarrow> 'm res) \<Rightarrow> ws_client \<times> 'm \<Rightarrow> ws_client \<times> 'm \<Rightarrow> bool"
  for cfg :: ws_config and listener :: "dict \<Rightarrow> 'm \<Rightarrow> 'm res" where
  started: "phase s = Idle \<Longrightarrow> wstep cfg listener (s, m) (start s, m)"
| asked: "wstep cfg listener (s, m) (snd (request_begin meth params s), m)"
| ended: "rid \<in> set (waiting s) \<or> settled s rid \<noteq> None \<Longrightarrow>
    wstep cfg listener (s, m) (snd (request_end rid e s), m)"
| connects: "phase s = Connecting \<Longrightarrow> wstep cfg listener (s, m) (opened cfg s, m)"
| fails: "in_round s \<Longrightarrow> wstep cfg listener (s, m) (round_over cfg (Some e) s, m)"
| resubscribed: "phase s = Reconnecting \<Longrightarrow> wstep cfg listener (s, m) (s\<lparr>phase := Reading\<rparr>, m)"
| reads: "phase s = Reading \<Longrightarrow> wstep cfg listener (s, m) (read_msg cfg listener msg (s, m))"
| wakes: "phase s = Sleeping d \<Longrightarrow> wstep cfg listener (s, m) (wake s, m)"
| closed: "wire s = Some c \<Longrightarrow> wstep cfg listener (s, m) (s\<lparr>wire := Some True\<rparr>, m)"
| stops: "wstep cfg listener (s, m) (stop_begin s, m)"
| stopped: "stopping s \<Longrightarrow> wstep cfg listener (s, m) (stop_end s, m)"
| elsewhere: "wstep cfg listener (s, m) (s, m')"

inductive_cases wstepE: "wstep cfg listener sm sm'"

section \<open>The invariant\<close>

text \<open>
  Ids are handed out once; a request that was written is waiting or has its outcome, and one that
  waits without a socket does not exist.
\<close>

definition sent_ids :: "ws_client \<Rightarrow> nat list" where
  "sent_ids s = map fst (frames s)"

definition ids_once :: "ws_client \<Rightarrow> bool" where
  "ids_once s \<longleftrightarrow> distinct (sent_ids s) \<and> (\<forall>i. i \<in> set (sent_ids s) \<longrightarrow> 1 \<le> i \<and> i < rid_counter s)
     \<and> 1 \<le> rid_counter s"

definition none_lost :: "ws_client \<Rightarrow> bool" where
  "none_lost s \<longleftrightarrow> distinct (waiting s) \<and> set (waiting s) \<subseteq> set (sent_ids s)
     \<and> (\<forall>i. i \<in> set (sent_ids s) \<longrightarrow> i \<in> set (waiting s) \<or> settled s i \<noteq> None)
     \<and> (\<forall>i. rid_counter s \<le> i \<longrightarrow> settled s i = None)"

definition wire_ok :: "ws_client \<Rightarrow> bool" where
  "wire_ok s \<longleftrightarrow> (wire s = None \<longrightarrow> waiting s = []) \<and> (wire s = None \<longleftrightarrow> phase s \<notin> {Reconnecting, Reading})
     \<and> (wire s \<noteq> None \<longrightarrow> connected_event s)"

definition ws_ok :: "ws_client \<Rightarrow> bool" where
  "ws_ok s \<longleftrightarrow> ids_once s \<and> none_lost s \<and> wire_ok s"

lemmas ws_ok_defs = ws_ok_def ids_once_def none_lost_def wire_ok_def

lemma sent_ids_frames: "frames s' = frames s \<Longrightarrow> sent_ids s' = sent_ids s"
  by (simp add: sent_ids_def)

lemma waiting_bound: "ids_once s \<Longrightarrow> none_lost s \<Longrightarrow> i \<in> set (waiting s) \<Longrightarrow> i < rid_counter s"
  unfolding ids_once_def none_lost_def by blast

lemma settled_bound: "none_lost s \<Longrightarrow> settled s i \<noteq> None \<Longrightarrow> i < rid_counter s"
  unfolding none_lost_def by (meson not_le)

lemma ws_ok_new: "ws_ok new_ws"
  by (simp add: ws_ok_defs new_ws_def sent_ids_def)

lemma ws_ok_request:
  assumes ok: "ws_ok s"
  shows "ws_ok (snd (request_begin meth params s))"
proof (cases "connected s")
  case False
  with ok show ?thesis by (simp add: request_begin_def)
next
  case True
  let ?r = "rid_counter s"
  have w: "wire s \<noteq> None" using True by (simp add: connected_def)
  have fresh: "?r \<notin> set (sent_ids s)" "?r \<notin> set (waiting s)"
    using ok waiting_bound [of s ?r] unfolding ws_ok_def ids_once_def by blast+
  show ?thesis
  proof (cases "json_dumps_res (ws_frame ?r meth params)")
    case (Inl e)
    then have "snd (request_begin meth params s) = s\<lparr>rid_counter := ?r + 1\<rparr>"
      using True by (simp add: request_begin_def Let_def)
    then show ?thesis using ok by (auto simp: ws_ok_defs sent_ids_def less_Suc_eq)
  next
    case (Inr t)
    then have s': "snd (request_begin meth params s) = s\<lparr>rid_counter := ?r + 1, waiting := waiting s @ [?r],
        frames := frames s @ [(?r, meth, params)]\<rparr>" (is "_ = ?s")
      using True by (simp add: request_begin_def Let_def)
    have "sent_ids ?s = sent_ids s @ [?r]" by (simp add: sent_ids_def)
    then show ?thesis
      using ok w fresh unfolding s' ws_ok_defs by (auto simp: less_Suc_eq)
  qed
qed

lemma ws_ok_end:
  assumes ok: "ws_ok s" and rid: "rid \<in> set (waiting s) \<or> settled s rid \<noteq> None"
  shows "ws_ok (snd (request_end rid e s))"
proof -
  have b: "rid < rid_counter s"
    using ok rid waiting_bound settled_bound by (auto simp: ws_ok_def)
  have r: "set (remove1 rid (waiting s)) = set (waiting s) - {rid}"
    using ok by (simp add: ws_ok_defs)
  let ?st = "if settled s rid = None then (settled s)(rid \<mapsto> Inl e) else settled s"
  have s': "snd (request_end rid e s) = s\<lparr>waiting := remove1 rid (waiting s), settled := ?st\<rparr>" (is "_ = ?s")
    by (cases "settled s rid") (simp_all add: request_end_def)
  have "sent_ids ?s = sent_ids s" by (simp add: sent_ids_def)
  then show ?thesis
    using ok b r unfolding s' ws_ok_defs by (auto simp: distinct_remove1)
qed

lemma ws_ok_settle:
  assumes ok: "ws_ok s" and i: "i \<in> set (waiting s)"
  shows "ws_ok (s\<lparr>settled := (settled s)(i \<mapsto> r)\<rparr>)" (is "ws_ok ?s")
proof -
  have "i < rid_counter s" using ok i waiting_bound by (simp add: ws_ok_def)
  moreover have "sent_ids ?s = sent_ids s" by (simp add: sent_ids_def)
  ultimately show ?thesis using ok unfolding ws_ok_defs by auto
qed

lemma open_reply_waiting: "open_reply d s = Some i \<Longrightarrow> i \<in> set (waiting s) \<and> settled s i = None"
  by (auto simp: open_reply_def split: option.splits if_splits)

lemma dispatch_ws:
  assumes "dispatch listener raw (s, m) = Inr (s', m')"
  shows "s' = s \<or> (\<exists>d i r. json_loads raw = Inr (JObj d) \<and> \<not> is_notification d \<and> open_reply d s = Some i
           \<and> ws_answer d = Inr r \<and> s' = s\<lparr>settled := (settled s)(i \<mapsto> r)\<rparr> \<and> m' = m)"
  using assms unfolding dispatch_def
  by (auto simp: res_iffs split: sum.splits json.splits if_splits option.splits)

lemma ws_ok_dispatch:
  assumes "ws_ok s" "dispatch listener raw (s, m) = Inr (s', m')"
  shows "ws_ok s'"
  using dispatch_ws [OF assms(2)] assms(1) by (auto dest: open_reply_waiting simp: ws_ok_settle)

lemma waiting_settled: "ws_ok s \<Longrightarrow> i \<in> set (sent_ids s) \<Longrightarrow> i \<in> set (waiting s) \<or> settled s i \<noteq> None"
  by (simp add: ws_ok_defs)

text \<open>Failing what is pending: every request sent so far has its outcome.\<close>

lemma fail_pending_frame [simp]:
  "rid_counter (fail_pending e s) = rid_counter s" "waiting (fail_pending e s) = []"
  "wire (fail_pending e s) = wire s" "connected_event (fail_pending e s) = connected_event s"
  "stopping (fail_pending e s) = stopping s" "attempt (fail_pending e s) = attempt s"
  "phase (fail_pending e s) = phase s" "frames (fail_pending e s) = frames s"
  "first_connect_error (fail_pending e s) = first_connect_error s"
  by (simp_all add: fail_pending_def)

lemma settled_fail:
  "settled (fail_pending e s) i = (if i \<in> set (waiting s) \<and> settled s i = None then Some (Inl e) else settled s i)"
  by (simp add: fail_pending_def)

lemma ids_fail: "ids_once s \<Longrightarrow> none_lost s \<Longrightarrow> ids_once (fail_pending e s) \<and> none_lost (fail_pending e s)"
  using waiting_bound [of s] unfolding ids_once_def none_lost_def
  by (auto simp: settled_fail sent_ids_def dest: leD)

text \<open>What the rest of a step writes does not matter to ids and outcomes.\<close>

lemma ids_same:
  assumes "rid_counter s' = rid_counter s" "waiting s' = waiting s" "settled s' = settled s" "frames s' = frames s"
  shows "ids_once s' = ids_once s" "none_lost s' = none_lost s"
  using assms by (simp_all add: ids_once_def none_lost_def sent_ids_def)

definition same_requests :: "ws_client \<Rightarrow> ws_client \<Rightarrow> bool" where
  "same_requests s s' \<longleftrightarrow> rid_counter s' = rid_counter s \<and> waiting s' = waiting s \<and> settled s' = settled s
     \<and> frames s' = frames s"

lemma ids_none_same: "same_requests s s' \<Longrightarrow> ids_once s \<and> none_lost s \<Longrightarrow> ids_once s' \<and> none_lost s'"
  using ids_same [of s' s] by (simp add: same_requests_def)

lemma round_over_ids:
  assumes "ids_once s \<and> none_lost s"
  shows "ids_once (round_over cfg err s) \<and> none_lost (round_over cfg err s)"
proof -
  let ?s1 = "(if err \<noteq> None \<and> \<not> connected_event s then s\<lparr>first_connect_error := err\<rparr> else s)\<lparr>wire := None\<rparr>"
  have "ids_once ?s1 \<and> none_lost ?s1"
    using assms by - (rule ids_none_same [of s], simp_all add: same_requests_def)
  then have "ids_once (fail_pending (UpstreamWsClosed ''ws disconnected'') ?s1)
      \<and> none_lost (fail_pending (UpstreamWsClosed ''ws disconnected'') ?s1)"
    by (simp add: ids_fail)
  then show ?thesis
    by (rule ids_none_same [rotated]) (simp add: same_requests_def round_over_def Let_def)
qed

lemma ws_ok_round_over: "ws_ok s \<Longrightarrow> ws_ok (round_over cfg err s)"
  using round_over_ids [of s cfg err] by (simp add: ws_ok_def wire_ok_def) (simp add: round_over_def Let_def)

lemma ws_ok_stop_end:
  assumes "ws_ok s"
  shows "ws_ok (stop_end s)"
proof -
  let ?s1 = "if in_round s then fail_pending (UpstreamWsClosed ''ws disconnected'') (s\<lparr>wire := None\<rparr>) else s"
  have "ids_once (s\<lparr>wire := None\<rparr>) \<and> none_lost (s\<lparr>wire := None\<rparr>)"
    using assms by - (rule ids_none_same [of s], simp_all add: same_requests_def ws_ok_def)
  then have "ids_once ?s1 \<and> none_lost ?s1"
    using assms by (simp add: ids_fail ws_ok_def)
  then have "ids_once (?s1\<lparr>phase := Finished\<rparr>) \<and> none_lost (?s1\<lparr>phase := Finished\<rparr>)"
    by (rule ids_none_same [rotated]) (simp add: same_requests_def)
  then have "ids_once (stop_end s) \<and> none_lost (stop_end s)"
    unfolding stop_end_def by (blast intro: ids_fail [THEN conjunct1] ids_fail [THEN conjunct2])
  moreover have "wire_ok (stop_end s)"
    using assms by (auto simp: ws_ok_def wire_ok_def stop_end_def in_round_def)
  ultimately show ?thesis by (simp add: ws_ok_def)
qed

lemma ws_ok_phase:
  assumes "ws_ok s" "same_requests s s'" "wire_ok s'"
  shows "ws_ok s'"
  using assms ids_none_same [of s s'] by (simp add: ws_ok_def)

lemma ws_ok_simple:
  assumes "ws_ok s"
  shows "phase s = Idle \<Longrightarrow> ws_ok (start s)" "phase s = Connecting \<Longrightarrow> ws_ok (opened cfg s)"
    "phase s = Reconnecting \<Longrightarrow> ws_ok (s\<lparr>phase := Reading\<rparr>)" "phase s = Sleeping d \<Longrightarrow> ws_ok (wake s)"
    "wire s = Some c \<Longrightarrow> ws_ok (s\<lparr>wire := Some True\<rparr>)" "ws_ok (stop_begin s)"
  by (rule ws_ok_phase [OF assms]; use assms in
      \<open>auto simp: same_requests_def ws_ok_def wire_ok_def start_def opened_def wake_def stop_begin_def split: option.split\<close>)+

lemma ws_ok_read: "ws_ok s \<Longrightarrow> ws_ok (fst (read_msg cfg listener msg (s, m)))"
  by (cases msg) (auto simp: read_msg_def ws_ok_round_over split: sum.split dest: ws_ok_dispatch)

lemma ws_ok_step:
  assumes "ws_ok (fst sm)" "wstep cfg listener sm sm'"
  shows "ws_ok (fst sm')"
  using assms(2,1)
  by (cases rule: wstep.cases)
    (auto simp: ws_ok_simple ws_ok_request ws_ok_end ws_ok_round_over ws_ok_stop_end intro: ws_ok_read)

interpretation wsys: invariant_system "\<lambda>sm. fst sm = new_ws" "wstep cfg listener" "\<lambda>sm. ws_ok (fst sm)"
  for cfg and listener :: "dict \<Rightarrow> 'm \<Rightarrow> 'm res"
  by unfold_locales (auto simp: ws_ok_new intro: ws_ok_step)

section \<open>Outcomes\<close>

text \<open>A step that keeps every outcome there is.\<close>

definition keeps_settled :: "ws_client \<Rightarrow> ws_client \<Rightarrow> bool" where
  "keeps_settled s s' \<longleftrightarrow> (\<forall>i r. settled s i = Some r \<longrightarrow> settled s' i = Some r)"

lemma keeps_settled_same: "settled s' = settled s \<Longrightarrow> keeps_settled s s'"
  by (simp add: keeps_settled_def)

lemma keeps_settled_fail: "keeps_settled s s' \<Longrightarrow> keeps_settled s (fail_pending e s')"
  by (auto simp: keeps_settled_def settled_fail)

lemma settled_round_over:
  "settled (round_over cfg err s) i =
     (if i \<in> set (waiting s) \<and> settled s i = None then Some (Inl (UpstreamWsClosed ''ws disconnected''))
      else settled s i)"
  by (simp add: round_over_def Let_def settled_fail)

lemma keeps_settled_dispatch:
  "dispatch listener raw (s, m) = Inr (s', m') \<Longrightarrow> keeps_settled s s'"
  by (drule dispatch_ws) (auto simp: keeps_settled_def dest!: open_reply_waiting)

lemma keeps_settled_read: "keeps_settled s (fst (read_msg cfg listener msg (s, m)))"
  by (cases msg) (auto simp: read_msg_def keeps_settled_def settled_round_over split: sum.split
      dest: keeps_settled_dispatch [unfolded keeps_settled_def])

lemma keeps_settled_step:
  assumes "wstep cfg listener sm sm'"
  shows "keeps_settled (fst sm) (fst sm')"
  using assms
proof (cases rule: wstep.cases)
  case (ended rid s m e)
  then show ?thesis by (auto simp: keeps_settled_def request_end_def split: option.split)
next
  case (fails s m e)
  then show ?thesis by (simp add: keeps_settled_def settled_round_over)
next
  case (stopped s m)
  then show ?thesis by (simp add: stop_end_def keeps_settled_def settled_fail)
next
  case (reads s m msg)
  then show ?thesis by (simp add: keeps_settled_read)
qed (auto intro!: keeps_settled_same simp: start_def request_begin_def opened_def wake_def stop_begin_def Let_def
    split: sum.split)

text \<open>While the client re-subscribes, nothing reads: no outcome comes but from the request's own end.\<close>

definition unanswered :: "ws_client \<Rightarrow> ws_client \<Rightarrow> bool" where
  "unanswered s s' \<longleftrightarrow> (\<forall>i v. settled s' i = Some (Inr v) \<longrightarrow> settled s i = Some (Inr v))"

lemma unanswered_step:
  assumes "wstep cfg listener (s, m) (s', m')" "phase s = Reconnecting"
  shows "unanswered s s'"
  using assms
proof (cases rule: wstep.cases)
  case (ended rid e)
  then show ?thesis by (auto simp: unanswered_def request_end_def split: option.splits if_splits)
next
  case (fails e)
  then show ?thesis by (auto simp: unanswered_def settled_round_over split: if_splits)
next
  case stopped
  then show ?thesis by (auto simp: unanswered_def stop_end_def settled_fail split: if_splits)
qed (auto simp: unanswered_def start_def request_begin_def opened_def wake_def stop_begin_def Let_def
    split: sum.splits if_splits)

section \<open>Properties\<close>

lemma ws_requests_accounted_parts:
  assumes run: "(wstep cfg listener)\<^sup>*\<^sup>* (new_ws, m) (s, n)"
  shows "distinct (map fst (frames s))"
    and "i \<in> fst ` set (frames s) \<Longrightarrow> i \<in> set (waiting s) \<or> settled s i \<noteq> None"
    and "wire s = None \<Longrightarrow> waiting s = []"
    and "(wstep cfg listener)\<^sup>*\<^sup>* (s, n) (s', n') \<Longrightarrow> settled s i = Some r \<Longrightarrow> settled s' i = Some r"
proof -
  have ok: "ws_ok s"
    using wsys.inv_reachable [OF _ run] by simp
  show "distinct (map fst (frames s))"
    using ok by (simp add: ws_ok_defs sent_ids_def)
  show "i \<in> fst ` set (frames s) \<Longrightarrow> i \<in> set (waiting s) \<or> settled s i \<noteq> None"
    using ok by (simp add: ws_ok_defs sent_ids_def)
  show "wire s = None \<Longrightarrow> waiting s = []"
    using ok by (simp add: ws_ok_defs)
  have "settled (fst y) i = Some r" if "(wstep cfg listener)\<^sup>*\<^sup>* x y" "settled (fst x) i = Some r" for x y
    using that by (induction rule: rtranclp_induct) (auto dest: keeps_settled_step simp: keeps_settled_def)
  then show "(wstep cfg listener)\<^sup>*\<^sup>* (s, n) (s', n') \<Longrightarrow> settled s i = Some r \<Longrightarrow> settled s' i = Some r"
    by fastforce
qed

text \<open>
  C11. No request is lost and no id is used twice, in any interleaving of requests, replies,
  disconnects, reconnects, timeouts and the end of the client: every request written so far has an
  id of its own and is waiting or has its outcome; with no socket none waits, so each of them has its
  outcome. And an outcome, once there, is never replaced.
\<close>

theorem ws_requests_accounted:
  assumes run: "(wstep cfg listener)\<^sup>*\<^sup>* (new_ws, m) (s, n)"
  shows "(distinct (map fst (frames s)))
    \<and> (i \<in> fst ` set (frames s) \<longrightarrow> i \<in> set (waiting s) \<or> settled s i \<noteq> None)
    \<and> (wire s = None \<longrightarrow> waiting s = [])
    \<and> ((wstep cfg listener)\<^sup>*\<^sup>* (s, n) (s', n') \<longrightarrow> settled s i = Some r \<longrightarrow> settled s' i = Some r)"
  using ws_requests_accounted_parts [OF assms] by blast

definition sample_ws :: ws_config where
  "sample_ws = \<lparr>reconnects = True, has_listener = True, backoff = default_backoff\<rparr>"

definition sample_asked :: ws_client where
  "sample_asked = snd (request_begin ''eth_subscribe'' [JStr ''newHeads''] (opened sample_ws (start new_ws)))"

lemma sample_asked_run: "(wstep sample_ws listener)\<^sup>*\<^sup>* (new_ws, m) (sample_asked, m)"
proof -
  have a: "wstep sample_ws listener (new_ws, m) (start new_ws, m)"
    by (rule started) (simp add: new_ws_def)
  have b: "wstep sample_ws listener (start new_ws, m) (opened sample_ws (start new_ws), m)"
    by (rule connects) (simp add: start_def)
  have c: "wstep sample_ws listener (opened sample_ws (start new_ws), m) (sample_asked, m)"
    unfolding sample_asked_def by (rule asked)
  show ?thesis
    using a b c by (meson rtranclp.rtrancl_into_rtrancl rtranclp.rtrancl_refl)
qed

lemma sample_asked_eq:
  "waiting sample_asked = [1]" "frames sample_asked = [(1, ''eth_subscribe'', [JStr ''newHeads''])]"
  "settled sample_asked = (\<lambda>i. None)" "wire sample_asked = Some False" "phase sample_asked = Reading"
  "connected_event sample_asked" "rid_counter sample_asked = 2"
  by (simp_all add: sample_asked_def request_begin_def connected_def opened_def start_def new_ws_def
      Let_def json_dumps_res_def ws_frame_def rpc_body_def small_plain sample_ws_def)

lemma sample_dropped_run:
  "(wstep sample_ws listener)\<^sup>*\<^sup>* (new_ws, m) (round_over sample_ws (Some UnicodeDecodeError) sample_asked, m)"
  using sample_asked_run [of listener m] fails [of sample_asked sample_ws listener m UnicodeDecodeError]
  by (simp add: in_round_def sample_asked_eq rtranclp.rtrancl_into_rtrancl)

theorem ws_requests_accounted_witness:
  "distinct (map fst (frames (round_over sample_ws (Some UnicodeDecodeError) sample_asked)))
     \<and> settled (round_over sample_ws (Some UnicodeDecodeError) sample_asked) 1 \<noteq> None"
  using ws_requests_accounted [OF sample_dropped_run [of on_notification new_manager], where i = 1 and r = "Inr JNull"
      and s' = new_ws and n' = new_manager]
  by (simp add: settled_round_over sample_asked_eq)

lemma dispatch_correlates_parts:
  assumes "json_loads raw = Inr (JObj d)"
  shows "is_notification d \<Longrightarrow> dispatch on_notification raw (s, m) =
           Inr (s, case on_notification d m of Inl e \<Rightarrow> m | Inr m' \<Rightarrow> m')"
    and "\<not> is_notification d \<Longrightarrow> reply_id (dget_or ''id'' JNull d) = Some i \<Longrightarrow>
         i \<in> set (waiting s) \<Longrightarrow> settled s i = None \<Longrightarrow> ws_answer d = Inr r \<Longrightarrow>
         dispatch on_notification raw (s, m) = Inr (s\<lparr>settled := (settled s)(i \<mapsto> r)\<rparr>, m)"
    and "\<not> is_notification d \<Longrightarrow>
         (\<And>i. reply_id (dget_or ''id'' JNull d) = Some i \<Longrightarrow> i \<notin> set (waiting s) \<or> settled s i \<noteq> None) \<Longrightarrow>
         dispatch on_notification raw (s, m) = Inr (s, m)"
proof -
  show "is_notification d \<Longrightarrow> dispatch on_notification raw (s, m) =
           Inr (s, case on_notification d m of Inl e \<Rightarrow> m | Inr m' \<Rightarrow> m')"
    by (simp add: dispatch_def assms split: sum.split)
  show "\<not> is_notification d \<Longrightarrow> reply_id (dget_or ''id'' JNull d) = Some i \<Longrightarrow>
         i \<in> set (waiting s) \<Longrightarrow> settled s i = None \<Longrightarrow> ws_answer d = Inr r \<Longrightarrow>
         dispatch on_notification raw (s, m) = Inr (s\<lparr>settled := (settled s)(i \<mapsto> r)\<rparr>, m)"
    by (simp add: dispatch_def assms open_reply_def)
  assume "\<not> is_notification d"
    and "\<And>i. reply_id (dget_or ''id'' JNull d) = Some i \<Longrightarrow> i \<notin> set (waiting s) \<or> settled s i \<noteq> None"
  then show "dispatch on_notification raw (s, m) = Inr (s, m)"
    by (auto simp: dispatch_def assms open_reply_def split: option.split)
qed


definition sample_reply :: json where
  "sample_reply = JObj [(''jsonrpc'', JStr ''2.0''), (''id'', JInt 1), (''result'', JStr ''0x7'')]"

lemma sample_reply_reads:
  "json_loads (cps (json_dumps sample_reply)) = Inr (JObj [(''jsonrpc'', JStr ''2.0''), (''id'', JInt 1), (''result'', JStr ''0x7'')])"
proof -
  have "json_plain sample_reply" by (simp add: sample_reply_def dwf_def small_plain)
  from json_roundtrip [OF this] show ?thesis by (simp add: sample_reply_def)
qed


text \<open>
  Between the new connection and the end of \<open>on_reconnect\<close> the client does not read: whatever
  happens meanwhile, no request made or pending in that phase gets a result. The requests
  \<open>on_reconnect\<close> itself makes are among them, so each ends by its timeout, or with the connection.
\<close>

lemma reconnect_requests_unanswered:
  assumes "(\<lambda>x y. phase (fst x) = Reconnecting \<and> wstep cfg listener x y)\<^sup>*\<^sup>* (s, m) (s', m')"
    and "settled s i = None"
  shows "settled s' i \<noteq> Some (Inr v)"
proof -
  have "unanswered (fst x) (fst y)"
    if "(\<lambda>x y. phase (fst x) = Reconnecting \<and> wstep cfg listener x y)\<^sup>*\<^sup>* x y" for x y
    using that
  proof (induction rule: rtranclp_induct)
    case (step y z)
    then have "unanswered (fst y) (fst z)"
      by (cases y; cases z) (auto intro: unanswered_step)
    with step.IH show ?case by (simp add: unanswered_def)
  qed (simp add: unanswered_def)
  from this [OF assms(1)] assms(2) show ?thesis by (auto simp: unanswered_def)
qed

definition sample_back :: ws_client where
  "sample_back = opened sample_ws (wake (round_over sample_ws None sample_asked))"

lemma sample_back_eq: "phase sample_back = Reconnecting" "settled sample_back 2 = None" "wire sample_back = Some False"
  "rid_counter sample_back = 2" "waiting sample_back = []"
  by (simp_all add: sample_back_def opened_def wake_def round_over_def Let_def sample_asked_eq settled_fail
      sample_ws_def default_backoff_def)

definition sample_asks_again :: ws_client where
  "sample_asks_again = snd (request_begin ''eth_subscribe'' [JStr ''newHeads''] sample_back)"

lemma reconnect_requests_unanswered_witness:
  "settled (snd (request_end 2 TimeoutError sample_asks_again)) 2 \<noteq> Some (Inr (JStr ''0x7''))
     \<and> fst (request_end 2 TimeoutError sample_asks_again) = Inl TimeoutError"
proof -
  let ?R = "\<lambda>x y. phase (fst x) = Reconnecting \<and> wstep sample_ws on_notification x y"
  have q: "phase sample_asks_again = Reconnecting" "2 \<in> set (waiting sample_asks_again)"
      "settled sample_asks_again 2 = None"
    using sample_back_eq by (simp_all add: sample_asks_again_def request_begin_def connected_def Let_def
        json_dumps_res_def ws_frame_def rpc_body_def small_plain)
  have "?R (sample_back, new_manager) (sample_asks_again, new_manager)"
    unfolding sample_asks_again_def using sample_back_eq by (simp add: asked)
  moreover have "?R (sample_asks_again, new_manager) (snd (request_end 2 TimeoutError sample_asks_again), new_manager)"
    using q by (simp add: ended)
  ultimately have "?R\<^sup>*\<^sup>* (sample_back, new_manager) (snd (request_end 2 TimeoutError sample_asks_again), new_manager)"
    by (rule rtranclp_trans [OF r_into_rtranclp r_into_rtranclp])
  from reconnect_requests_unanswered [OF this] sample_back_eq q(3) show ?thesis
    by (simp add: request_end_def)
qed

text \<open>
  \<open>start\<close> raises although the client is connected: the error of a first attempt that failed is
  not forgotten when a later attempt succeeds.
\<close>

lemma start_raises_when_connected:
  "\<exists>s. (wstep sample_ws listener)\<^sup>*\<^sup>* (new_ws, m) (s, m) \<and> connected s \<and> phase s = Reading
     \<and> start_result s = Inl (UpstreamWsClosed ''initial connect failed'')"
proof -
  let ?W = "wstep sample_ws listener"
  let ?a = "round_over sample_ws (Some (UpstreamError ''refused'')) (start new_ws)"
  have "?W (new_ws, m) (start new_ws, m)"
    by (rule started) (simp add: new_ws_def)
  moreover have "?W (start new_ws, m) (?a, m)"
    by (rule fails) (simp add: in_round_def start_def)
  moreover have "?W (?a, m) (wake ?a, m)"
    by (rule wakes [of _ 1]) (simp add: round_over_def Let_def start_def new_ws_def sample_ws_def default_backoff_def)
  moreover have "?W (wake ?a, m) (opened sample_ws (wake ?a), m)"
    by (rule connects) (simp add: wake_def round_over_def Let_def start_def new_ws_def sample_ws_def default_backoff_def)
  ultimately have "?W\<^sup>*\<^sup>* (new_ws, m) (opened sample_ws (wake ?a), m)"
    by (meson rtranclp.rtrancl_into_rtrancl rtranclp.rtrancl_refl)
  moreover have "connected (opened sample_ws (wake ?a)) \<and> phase (opened sample_ws (wake ?a)) = Reading
     \<and> start_result (opened sample_ws (wake ?a)) = Inl (UpstreamWsClosed ''initial connect failed'')"
    by (simp add: connected_def opened_def wake_def round_over_def Let_def start_def new_ws_def sample_ws_def
        default_backoff_def start_result_def)
  ultimately show ?thesis by blast
qed

end
