(* ===== verification/Hub.thy ===== *)
theory Hub
  imports Subscriptions "HOL-Library.Sublist"
begin

text \<open>
  What the multiplexer of \<open>subscriptions.py\<close> promises: a hub of topics, with members, routes from
  subscription ids to topics, and an inbox per reader, without slots, references, locks or dictionaries.
  The manager of theory Subscriptions refines it, operation by operation, in every reachable state;
  what a reader receives and in which order is proved of the hub and carried over. The lock of the
  manager, which the hub hides, is always given back.
\<close>

section \<open>The multiplexer as a machine of operations\<close>

text \<open>What can happen next, one constructor per kind of step; a reply is for whoever holds the lock.\<close>

datatype mux_op =
    Notify dict | Subscribe string json | Reply "json res" | Close nat | Remove nat | Reconnect | Take nat

fun mux_do :: "mux_op \<Rightarrow> manager \<Rightarrow> manager option" where
  "mux_do (Notify payload) m = (case on_notification payload m of Inl e \<Rightarrow> None | Inr m' \<Rightarrow> Some m')"
| "mux_do (Subscribe kind params) m = (if lock m = Free then Some (subscribe_begin kind params m) else None)"
| "mux_do (Reply outcome) m =
     (case lock m of
        Subscribing kind params q \<Rightarrow> Some (subscribe_end kind params q outcome m)
      | Resubscribing (r # rs) \<Rightarrow> Some (resubscribe r rs outcome m)
      | _ \<Rightarrow> None)"
| "mux_do (Close q) m = (if streams m q = None then None else Some (close_stream q m))"
| "mux_do (Remove q) m =
     (case streams m q of
        Some cs \<Rightarrow> if lock m = Free \<and> cs_closed cs then Some (remove_consumer (cs_key cs) (cs_slot cs) q m) else None
      | None \<Rightarrow> None)"
| "mux_do Reconnect m = (if lock m = Free then Some (reconnect_begin m) else None)"
| "mux_do (Take q) m = map_option snd (next_event q m)"

lemma mstep_iff: "mstep m m' \<longleftrightarrow> (\<exists>act. mux_do act m = Some m')"
proof
  assume "mstep m m'"
  then show "\<exists>act. mux_do act m = Some m'"
  proof (cases rule: mstep.cases)
    case (notify payload)
    then show ?thesis by (intro exI [of _ "Notify payload"]) simp
  next
    case (sub_begin kind params)
    then show ?thesis by (intro exI [of _ "Subscribe kind params"]) simp
  next
    case (sub_end kind params q outcome)
    then show ?thesis by (intro exI [of _ "Reply outcome"]) simp
  next
    case (close q cs)
    then show ?thesis by (intro exI [of _ "Close q"]) simp
  next
    case (remove q cs)
    then show ?thesis by (intro exI [of _ "Remove q"]) simp
  next
    case re_begin
    then show ?thesis by (intro exI [of _ Reconnect]) simp
  next
    case (re_reply r rs outcome)
    then show ?thesis by (intro exI [of _ "Reply outcome"]) simp
  next
    case (receive q ev)
    then show ?thesis by (intro exI [of _ "Take q"]) simp
  qed
next
  assume "\<exists>act. mux_do act m = Some m'"
  then obtain act where "mux_do act m = Some m'" by blast
  then show "mstep m m'"
    by (cases act)
      (auto intro: mstep.intros split: if_splits option.splits sum.splits lock_holder.splits list.splits)
qed

fun mux_run :: "mux_op list \<Rightarrow> manager \<Rightarrow> manager option" where
  "mux_run [] m = Some m"
| "mux_run (act # acts) m = (case mux_do act m of None \<Rightarrow> None | Some m' \<Rightarrow> mux_run acts m')"

lemma mux_run_Cons_iff [simp]:
  "mux_run (act # acts) m = Some m' \<longleftrightarrow> (\<exists>m1. mux_do act m = Some m1 \<and> mux_run acts m1 = Some m')"
  by (simp split: option.split)

declare mux_run.simps(2) [simp del]

lemma reachable_do: "reachable m \<Longrightarrow> mux_do act m = Some m' \<Longrightarrow> reachable m'"
  using mstep_iff by blast

lemma reachable_run: "mux_run acts m = Some m' \<Longrightarrow> reachable m \<Longrightarrow> reachable m'"
  by (induction acts arbitrary: m) (auto intro: reachable_do)

text \<open>A subscriber that waits for its reply has heard nothing yet.\<close>

definition waiting_empty :: "manager \<Rightarrow> bool" where
  "waiting_empty m \<longleftrightarrow> (\<forall>kind params q. lock m = Subscribing kind params q \<longrightarrow> queues m q = [])"

lemma deliver_elsewhere: "q \<notin> set qs \<Longrightarrow> queues (deliver ev qs m) q = queues m q"
  by (induction qs arbitrary: m) (auto simp: enqueue_def)

lemma lock_frame [simp]:
  "lock (publish_gauge kind m) = lock m" "lock (open_stream q k r m) = lock m" "lock (close_stream q m) = lock m"
  by (simp_all add: publish_gauge_def open_stream_def close_stream_def split: option.split)

lemma notify_cases:
  assumes "on_notification payload m = Inr m'"
  shows "m' = m \<or> (\<exists>i v r. dget i (by_id m) = Some r \<and> m' = deliver (Event v) (consumers (store m r)) m)"
  using assms
  by (auto simp: on_notification_def Let_def res_iffs split: if_splits option.splits)

lemma waiting_empty_step:
  assumes ok: "mgr_ok m" and wait: "waiting_empty m" and act: "mux_do act m = Some m'"
  shows "waiting_empty m'"
proof (cases act)
  case (Notify payload)
  with act have n: "on_notification payload m = Inr m'" by (simp split: sum.splits)
  have "queues (deliver (Event v) (consumers (store m r)) m) q = queues m q"
    if "lock m = Subscribing kind params q" for kind params q v r
    using ok that by (intro deliver_elsewhere) (simp add: mgr_ok_def lock_ok_def)
  with notify_cases [OF n] wait show ?thesis by (auto simp: waiting_empty_def)
next
  case (Subscribe kind params)
  with act show ?thesis
    by (auto simp: waiting_empty_def subscribe_begin_def Let_def split: if_splits option.splits)
next
  case (Reply outcome)
  with act show ?thesis
    by (auto simp: waiting_empty_def subscribe_end_def resubscribe_def new_slot_def wait_for_def Let_def
        split: lock_holder.splits list.splits sum.splits if_splits)
next
  case (Close q)
  with act wait show ?thesis
    by (auto simp: waiting_empty_def close_stream_def split: if_splits option.splits)
next
  case (Remove q)
  with act have "lock m' = Free"
    by (auto simp: remove_consumer_eq split: option.splits if_splits)
  then show ?thesis by (simp add: waiting_empty_def)
next
  case Reconnect
  with act show ?thesis by (auto simp: waiting_empty_def reconnect_begin_def wait_for_def split: if_splits)
next
  case (Take q)
  with act wait show ?thesis
    by (auto simp: waiting_empty_def next_event_def split: option.splits list.splits if_splits)
qed

interpretation mux_all: invariant_system "\<lambda>m. m = new_manager" mstep "\<lambda>m. mgr_ok m \<and> waiting_empty m"
  by unfold_locales
    (use mgr_ok_new in \<open>auto simp: waiting_empty_def new_manager_def mstep_iff
      dest: waiting_empty_step mgr_ok_step [unfolded mstep_iff, OF _ exI]\<close>)

section \<open>The hub\<close>

record 'k hub =
  members :: "'k \<Rightarrow> nat list"
  route_to :: "json \<Rightarrow> 'k option"
  inbox :: "nat \<Rightarrow> stream_event list"
  reading :: "nat \<Rightarrow> bool"

text \<open>
  What can happen to a hub: a value is posted under an id; a reader joins a topic or opens one under an
  id; a topic is opened for a subscriber whose id is no id (it stays a member without reading); a reader
  stops reading, a member leaves (with the id that is dropped with the topic), an event is read; all
  routes are forgotten; a topic gets a new id or misses it.
\<close>

datatype 'k hub_op =
    Idle | Posted json json | Joined 'k nat | Opened 'k json nat | Stranded 'k nat
  | Stopped nat | Left 'k nat "json option" | Took nat stream_event | Forgot
  | Renewed 'k json | Missed 'k

definition post :: "stream_event \<Rightarrow> 'k \<Rightarrow> 'k hub \<Rightarrow> 'k hub" where
  "post ev k h = h\<lparr>inbox := (\<lambda>q. if q \<in> set (members h k) \<and> length (inbox h q) < max_queue
     then inbox h q @ [ev] else inbox h q)\<rparr>"

definition enter :: "'k \<Rightarrow> nat \<Rightarrow> 'k hub \<Rightarrow> 'k hub" where
  "enter k q h = h\<lparr>members := (members h)(k := members h k @ [q]), inbox := (inbox h)(q := [])\<rparr>"

definition leave :: "'k \<Rightarrow> nat \<Rightarrow> json option \<Rightarrow> 'k hub \<Rightarrow> 'k hub" where
  "leave k q dropped h =
     (let rest = remove1 q (members h k) in
      h\<lparr>members := (members h)(k := rest), inbox := (inbox h)(q := []),
        route_to := (if rest = [] then (\<lambda>i. if route_to h i = Some k \<or> dropped = Some i then None else route_to h i)
          else route_to h)\<rparr>)"

fun hub_next :: "'k hub_op \<Rightarrow> 'k hub \<Rightarrow> 'k hub" where
  "hub_next Idle h = h"
| "hub_next (Posted i v) h = (case route_to h i of None \<Rightarrow> h | Some k \<Rightarrow> post (Event v) k h)"
| "hub_next (Joined k q) h = (enter k q h)\<lparr>reading := (reading h)(q := True)\<rparr>"
| "hub_next (Opened k i q) h = (enter k q h)\<lparr>reading := (reading h)(q := True), route_to := (route_to h)(i \<mapsto> k)\<rparr>"
| "hub_next (Stranded k q) h = enter k q h"
| "hub_next (Stopped q) h = h\<lparr>reading := (reading h)(q := False)\<rparr>"
| "hub_next (Left k q dropped) h = leave k q dropped h"
| "hub_next (Took q ev) h = h\<lparr>inbox := (inbox h)(q := tl (inbox h q))\<rparr>"
| "hub_next Forgot h = h\<lparr>route_to := (\<lambda>i. None)\<rparr>"
| "hub_next (Renewed k i) h = post Gap k (h\<lparr>route_to := (route_to h)(i \<mapsto> k)\<rparr>)"
| "hub_next (Missed k) h = post Gap k h"

text \<open>When each may happen.\<close>

fun hub_allows :: "'k hub_op \<Rightarrow> 'k hub \<Rightarrow> bool" where
  "hub_allows (Joined k q) h \<longleftrightarrow> members h k \<noteq> [] \<and> (\<forall>k'. q \<notin> set (members h k'))"
| "hub_allows (Opened k i q) h \<longleftrightarrow> members h k = [] \<and> (\<forall>k'. q \<notin> set (members h k'))"
| "hub_allows (Stranded k q) h \<longleftrightarrow> members h k = [] \<and> (\<forall>k'. q \<notin> set (members h k')) \<and> \<not> reading h q"
| "hub_allows (Left k q dropped) h \<longleftrightarrow> q \<in> set (members h k) \<and> \<not> reading h q"
| "hub_allows (Took q ev) h \<longleftrightarrow> reading h q \<and> inbox h q \<noteq> [] \<and> hd (inbox h q) = ev"
| "hub_allows (Renewed k i) h \<longleftrightarrow> members h k \<noteq> []"
| "hub_allows (Missed k) h \<longleftrightarrow> members h k \<noteq> [] \<and> (\<forall>i. route_to h i \<noteq> Some k)"
| "hub_allows _ h \<longleftrightarrow> True"

inductive hub_step :: "'k hub_op \<Rightarrow> 'k hub \<Rightarrow> 'k hub \<Rightarrow> bool" where
  "hub_allows act h \<Longrightarrow> hub_step act h (hub_next act h)"

inductive_simps hub_step_iff: "hub_step act h h'"

definition empty_hub :: "'k hub" where
  "empty_hub = \<lparr>members = (\<lambda>k. []), route_to = (\<lambda>i. None), inbox = (\<lambda>q. []), reading = (\<lambda>q. False)\<rparr>"

text \<open>
  A hub is well formed when nobody is a member twice or of two topics, only topics with members are
  routed to, only members have an inbox, within its bound, and whoever reads is a member of a topic.
\<close>

definition hub_ok :: "'k hub \<Rightarrow> bool" where
  "hub_ok h \<longleftrightarrow> (\<forall>k. distinct (members h k))
     \<and> (\<forall>k k' q. q \<in> set (members h k) \<longrightarrow> q \<in> set (members h k') \<longrightarrow> k = k')
     \<and> (\<forall>i k. route_to h i = Some k \<longrightarrow> members h k \<noteq> [])
     \<and> (\<forall>q. length (inbox h q) \<le> max_queue \<and> (inbox h q \<noteq> [] \<longrightarrow> (\<exists>k. q \<in> set (members h k))))
     \<and> (\<forall>q. reading h q \<longrightarrow> (\<exists>k. q \<in> set (members h k)))"

lemma post_frame [simp]:
  "members (post ev k h) = members h" "route_to (post ev k h) = route_to h" "reading (post ev k h) = reading h"
  by (simp_all add: post_def)

lemma hub_ok_post: "hub_ok h \<Longrightarrow> hub_ok (post ev k h)"
  by (auto simp: hub_ok_def post_def)

lemma hub_ok_enter:
  assumes ok: "hub_ok h" and new: "\<And>k'. q \<notin> set (members h k')"
  shows "hub_ok (enter k q h)" "hub_ok ((enter k q h)\<lparr>reading := (reading h)(q := True)\<rparr>)"
proof -
  let ?h = "enter k q h"
  have mem: "q' \<in> set (members ?h k') \<longleftrightarrow> q' \<in> set (members h k') \<or> k' = k \<and> q' = q" for q' k'
    by (auto simp: enter_def)
  have frame: "route_to ?h = route_to h" "reading ?h = reading h" "inbox ?h = (inbox h)(q := [])"
    "members h k' \<noteq> [] \<Longrightarrow> members ?h k' \<noteq> []" for k'
    by (simp_all add: enter_def)
  have d: "distinct (members ?h k')" for k'
    using ok new by (simp add: enter_def hub_ok_def)
  have one: "k1 = k2" if "q' \<in> set (members ?h k1)" "q' \<in> set (members ?h k2)" for q' k1 k2
    using ok new that unfolding mem hub_ok_def by blast
  have rt: "members ?h k' \<noteq> []" if "route_to ?h i = Some k'" for i k'
    by (rule frame(4)) (use ok that in \<open>simp add: hub_ok_def frame(1)\<close>)
  have box: "length (inbox ?h q') \<le> max_queue \<and> (inbox ?h q' \<noteq> [] \<longrightarrow> (\<exists>k. q' \<in> set (members ?h k)))" for q'
    using ok unfolding mem hub_ok_def frame(3) by (cases "q' = q") auto
  have rd: "\<exists>k. q' \<in> set (members ?h k)" if "reading h q' \<or> q' = q" for q'
    using ok that unfolding mem hub_ok_def by blast
  show "hub_ok ?h"
    unfolding hub_ok_def using d one rt box rd by (simp add: frame(2))
  show "hub_ok (?h\<lparr>reading := (reading h)(q := True)\<rparr>)"
    unfolding hub_ok_def using d one rt box rd by simp
qed

lemma hub_ok_routes:
  "hub_ok h \<Longrightarrow> (\<And>i k. r i = Some k \<Longrightarrow> members h k \<noteq> []) \<Longrightarrow> hub_ok (h\<lparr>route_to := r\<rparr>)"
  by (simp add: hub_ok_def)

lemma hub_ok_leave:
  assumes ok: "hub_ok h" and q: "q \<in> set (members h k)" "\<not> reading h q"
  shows "hub_ok (leave k q dropped h)"
proof -
  let ?h = "leave k q dropped h"
  have d: "distinct (members h k)" using ok by (simp add: hub_ok_def)
  have mem: "q' \<in> set (members ?h k') \<longleftrightarrow> q' \<in> set (members h k') \<and> q' \<noteq> q" for q' k'
    using ok q(1) d by (auto simp: leave_def Let_def hub_ok_def)
  have "distinct (members ?h k')" for k'
    using ok by (auto simp: leave_def Let_def hub_ok_def distinct_remove1)
  moreover have "members ?h k' \<noteq> []" if "route_to ?h i = Some k'" for i k'
    using ok that by (auto simp: leave_def Let_def hub_ok_def split: if_splits)
  moreover have "length (inbox ?h q') \<le> max_queue \<and> (inbox ?h q' \<noteq> [] \<longrightarrow> (\<exists>k. q' \<in> set (members ?h k)))" for q'
    using ok unfolding mem by (auto simp: leave_def Let_def hub_ok_def)
  moreover have "\<exists>k. q' \<in> set (members ?h k)" if "reading ?h q'" for q'
    using ok that q(2) unfolding mem by (auto simp: leave_def Let_def hub_ok_def)
  moreover have "k1 = k2" if "q' \<in> set (members ?h k1)" "q' \<in> set (members ?h k2)" for q' k1 k2
    using ok that unfolding mem hub_ok_def by blast
  ultimately show ?thesis unfolding hub_ok_def by blast
qed

lemma hub_ok_next:
  assumes ok: "hub_ok h" and may: "hub_allows act h"
  shows "hub_ok (hub_next act h)"
proof (cases act)
  case (Posted i v)
  with ok show ?thesis by (simp add: hub_ok_post split: option.split)
next
  case (Joined k q)
  with ok may show ?thesis by (simp add: hub_ok_enter)
next
  case (Opened k i q)
  have "hub_ok ((enter k q h)\<lparr>reading := (reading h)(q := True)\<rparr>)"
    using ok may Opened by (simp add: hub_ok_enter)
  then have "hub_ok ((enter k q h)\<lparr>reading := (reading h)(q := True)\<rparr>\<lparr>route_to := (route_to h)(i \<mapsto> k)\<rparr>)"
    by (rule hub_ok_routes) (use ok in \<open>auto simp: enter_def hub_ok_def split: if_splits\<close>)
  with Opened show ?thesis by simp
next
  case (Renewed k i)
  then have "hub_ok (h\<lparr>route_to := (route_to h)(i \<mapsto> k)\<rparr>)"
    using ok may by (intro hub_ok_routes) (auto simp: hub_ok_def split: if_splits)
  with Renewed show ?thesis by (simp add: hub_ok_post)
next
  case (Took q ev)
  have "length (tl xs) \<le> n" if "length xs \<le> n" for xs :: "stream_event list" and n using that by simp
  with Took ok may show ?thesis by (auto simp: hub_ok_def)
qed (use ok may in \<open>auto simp: hub_ok_enter hub_ok_leave hub_ok_post hub_ok_routes hub_ok_def [of "h\<lparr>reading := r\<rparr>" for r]\<close>,
  auto simp: hub_ok_def)

section \<open>The manager refines the hub\<close>

definition is_member :: "nat \<Rightarrow> manager \<Rightarrow> bool" where
  "is_member q m = list_ex (\<lambda>(k, r). q \<in> set (consumers (store m r))) (slots m)"

definition hub_of :: "manager \<Rightarrow> slot_key hub" where
  "hub_of m = \<lparr>
     members = (\<lambda>k. case dget k (slots m) of None \<Rightarrow> [] | Some r \<Rightarrow> consumers (store m r)),
     route_to = (\<lambda>i. map_option (\<lambda>r. key_of_slot (store m r)) (dget i (by_id m))),
     inbox = (\<lambda>q. if is_member q m then queues m q else []),
     reading = (\<lambda>q. case streams m q of None \<Rightarrow> False | Some cs \<Rightarrow> \<not> cs_closed cs)\<rparr>"

text \<open>What an operation of the multiplexer is to the hub.\<close>

fun seen_as :: "mux_op \<Rightarrow> manager \<Rightarrow> slot_key hub_op" where
  "seen_as (Notify payload) m =
     (let params = (case dget ''params'' payload of Some v \<Rightarrow> if truthy v then v else JObj [] | None \<Rightarrow> JObj []) in
      case jget ''subscription'' params of
        Inl e \<Rightarrow> Idle
      | Inr i \<Rightarrow> if is_str i then Posted i (case jget ''result'' params of Inl e \<Rightarrow> JNull | Inr v \<Rightarrow> v) else Idle)"
| "seen_as (Subscribe kind params) m =
     (if dget (kind, canonicalize params) (slots m) = None then Idle
      else Joined (kind, canonicalize params) (next_queue m))"
| "seen_as (Reply outcome) m =
     (case lock m of
        Subscribing kind params q \<Rightarrow>
          (case outcome of Inl e \<Rightarrow> Idle
           | Inr i \<Rightarrow> if hashable i then Opened (kind, canonicalize params) i q
               else Stranded (kind, canonicalize params) q)
      | Resubscribing (r # rs) \<Rightarrow>
          (case outcome of Inl e \<Rightarrow> if e = CancelledError then Idle else Missed (key_of_slot (store m r))
           | Inr i \<Rightarrow> if hashable i then Renewed (key_of_slot (store m r)) i else Idle)
      | _ \<Rightarrow> Idle)"
| "seen_as (Close q) m = Stopped q"
| "seen_as (Remove q) m =
     (case streams m q of
        Some cs \<Rightarrow> if is_member q m then Left (cs_key cs) q (subscription_id (store m (cs_slot cs))) else Idle
      | None \<Rightarrow> Idle)"
| "seen_as Reconnect m = Forgot"
| "seen_as (Take q) m = (case next_event q m of None \<Rightarrow> Idle | Some (ev, m') \<Rightarrow> Took q ev)"

lemma hub_of_sel:
  "members (hub_of m) k = (case dget k (slots m) of None \<Rightarrow> [] | Some r \<Rightarrow> consumers (store m r))"
  "route_to (hub_of m) i = map_option (\<lambda>r. key_of_slot (store m r)) (dget i (by_id m))"
  "inbox (hub_of m) q = (if is_member q m then queues m q else [])"
  "reading (hub_of m) q = (case streams m q of None \<Rightarrow> False | Some cs \<Rightarrow> \<not> cs_closed cs)"
  by (simp_all add: hub_of_def)

lemma hub_eqI:
  assumes "\<And>k. members h k = members h' k" "\<And>i. route_to h i = route_to h' i"
    "\<And>q. inbox h q = inbox h' q" "\<And>q. reading h q = reading h' q"
  shows "h = (h' :: 'k hub)"
  using assms by (intro hub.equality) auto

lemma is_member_iff: "mgr_ok m \<Longrightarrow> is_member q m \<longleftrightarrow> (\<exists>r. q \<in> set (consumers (store m r)))"
  unfolding is_member_def list_ex_iff mgr_ok_def consumers_ok_def live_def by force

lemma live_get: "mgr_ok m \<Longrightarrow> r \<in> live m \<Longrightarrow> dget (key_of_slot (store m r)) (slots m) = Some r"
  using live_key [of m r] by (auto simp: mgr_ok_def slots_ok_def intro: map_of_is_SomeI)

lemma live_members: "mgr_ok m \<Longrightarrow> r \<in> live m \<Longrightarrow> members (hub_of m) (key_of_slot (store m r)) = consumers (store m r)"
  by (simp add: hub_of_sel live_get)

lemma live_consumers: "mgr_ok m \<Longrightarrow> r \<in> live m \<Longrightarrow> consumers (store m r) \<noteq> []"
  using live_key [of m r] unfolding mgr_ok_def slots_ok_def by blast

lemma dget_slot_ok: "mgr_ok m \<Longrightarrow> dget k (slots m) = Some r \<Longrightarrow> r \<in> live m \<and> key_of_slot (store m r) = k"
  using dget_slot [of m k r] by (simp add: mgr_ok_def)

lemma member_iff:
  assumes "mgr_ok m"
  shows "q \<in> set (members (hub_of m) k) \<longleftrightarrow> (\<exists>r. q \<in> set (consumers (store m r)) \<and> key_of_slot (store m r) = k)"
proof
  assume "q \<in> set (members (hub_of m) k)"
  then show "\<exists>r. q \<in> set (consumers (store m r)) \<and> key_of_slot (store m r) = k"
    using dget_slot_ok [OF assms, of k] by (cases "dget k (slots m)") (auto simp: hub_of_sel)
next
  assume "\<exists>r. q \<in> set (consumers (store m r)) \<and> key_of_slot (store m r) = k"
  then obtain r where r: "q \<in> set (consumers (store m r))" "key_of_slot (store m r) = k" by blast
  then have "r \<in> live m" using assms by (auto simp: mgr_ok_def consumers_ok_def)
  with live_members [OF assms this] r show "q \<in> set (members (hub_of m) k)" by simp
qed

lemma no_member: "mgr_ok m \<Longrightarrow> \<not> is_member q m \<Longrightarrow> q \<notin> set (members (hub_of m) k)"
  by (simp add: member_iff is_member_iff)

lemma hub_of_store:
  assumes "slots m' = slots m" "by_id m' = by_id m" "queues m' = queues m" "streams m' = streams m"
    and same: "\<And>r. consumers (store m' r) = consumers (store m r)" "\<And>r. key_of_slot (store m' r) = key_of_slot (store m r)"
  shows "hub_of m' = hub_of m"
  unfolding hub_of_def is_member_def by (simp only: assms)

lemma hub_of_same:
  "hub_of (m\<lparr>lock := l\<rparr>) = hub_of m" "hub_of (publish_gauge kind m) = hub_of m"
  "hub_of (m\<lparr>store := (store m)(r := (store m r)\<lparr>subscription_id := x\<rparr>)\<rparr>) = hub_of m"
  by (rule hub_of_store; simp add: publish_gauge_def key_of_slot_def)+

lemma hub_of_enter_id:
  "hub_of (m\<lparr>by_id := dset i r (by_id m)\<rparr>)
     = (hub_of m)\<lparr>route_to := (route_to (hub_of m))(i \<mapsto> key_of_slot (store m r))\<rparr>"
  by (rule hub_eqI) (simp_all add: hub_of_sel map_of_dset is_member_def split: option.split)

lemma hub_of_open:
  "hub_of (open_stream q k r m) = (hub_of m)\<lparr>reading := (reading (hub_of m))(q := True)\<rparr>"
  by (rule hub_eqI) (simp_all add: hub_of_sel open_stream_def is_member_def split: option.split)

lemma hub_of_deliver_to:
  assumes ok: "mgr_ok m" "r \<in> live m"
    and same: "slots m' = slots m" "\<And>r. consumers (store m' r) = consumers (store m r)"
  shows "hub_of (deliver ev (consumers (store m r)) m') = post ev (key_of_slot (store m r)) (hub_of m')"
proof (rule hub_eqI)
  have d: "distinct (consumers (store m r))" using ok(1) by (simp add: mgr_ok_def consumers_ok_def)
  have mem: "is_member q m' = is_member q m" "is_member q (deliver ev qs m') = is_member q m" for q qs
    by (simp_all add: is_member_def same)
  have k: "members (hub_of m') (key_of_slot (store m r)) = consumers (store m r)"
    by (simp add: hub_of_sel(1) same live_get [OF ok])
  show "inbox (hub_of (deliver ev (consumers (store m r)) m')) q
      = inbox (post ev (key_of_slot (store m r)) (hub_of m')) q" for q
    using is_member_iff [OF ok(1), of q]
    by (auto simp: hub_of_sel(3) post_def k mem deliver_queues [OF d])
qed (simp_all add: hub_of_sel split: option.split)

lemma hub_of_deliver:
  "mgr_ok m \<Longrightarrow> r \<in> live m \<Longrightarrow>
    hub_of (deliver ev (consumers (store m r)) m) = post ev (key_of_slot (store m r)) (hub_of m)"
  by (rule hub_of_deliver_to) simp_all

text \<open>One lemma per operation.\<close>

lemma sim_notify:
  assumes "mgr_ok m" "mux_do (Notify payload) m = Some m'"
  shows "hub_step (seen_as (Notify payload) m) (hub_of m) (hub_of m')"
proof -
  have id: "r \<in> live m" if "dget i (by_id m) = Some r" for i r
    using assms(1) that unfolding mgr_ok_def ids_ok_def by (blast dest: map_of_SomeD)
  have via: "hub_of (deliver ev (consumers (store m r)) m) = hub_next (Posted i v) (hub_of m)"
    if "dget i (by_id m) = Some r" "ev = Event v" for i v r ev
    using hub_of_deliver [OF assms(1) id [OF that(1)]] that by (simp add: hub_of_sel(2))
  let ?ps = "case dget ''params'' payload of Some v \<Rightarrow> if truthy v then v else JObj [] | None \<Rightarrow> JObj []"
  from assms(2) have n: "on_notification payload m = Inr m'" by (simp split: sum.splits)
  then obtain i where i: "jget ''subscription'' ?ps = Inr i"
    unfolding on_notification_def Let_def bindE_eq_Inr_iff by blast
  show ?thesis
  proof (cases "is_str i")
    case False
    with n i show ?thesis by (simp add: on_notification_def Let_def hub_step_iff)
  next
    case True
    show ?thesis
    proof (cases "dget i (by_id m)")
      case None
      with n i True show ?thesis by (simp add: on_notification_def Let_def hub_step_iff hub_of_sel(2))
    next
      case (Some r)
      with n i True obtain v where v: "jget ''result'' ?ps = Inr v" "m' = deliver (Event v) (consumers (store m r)) m"
        by (auto simp: on_notification_def Let_def res_iffs)
      with i True via [OF Some refl] show ?thesis by (simp add: Let_def hub_step_iff)
    qed
  qed
qed

lemma sim_subscribe:
  assumes ok: "mgr_ok m" and act: "mux_do (Subscribe kind params) m = Some m'"
  shows "hub_step (seen_as (Subscribe kind params) m) (hub_of m) (hub_of m')"
proof -
  let ?q = "next_queue m" and ?k = "(kind, canonicalize params)"
  have new: "?q \<notin> set (consumers (store m r))" for r
    using ok by (force simp: mgr_ok_def consumers_ok_def)
  then have no: "\<not> is_member ?q m" by (simp add: is_member_iff [OF ok])
  show ?thesis
  proof (cases "dget ?k (slots m)")
    case None
    with act have m': "m' = m\<lparr>next_queue := ?q + 1, queues := (queues m)(?q := []), lock := Subscribing kind params ?q\<rparr>"
      by (simp add: subscribe_begin_def Let_def split: if_splits)
    have "hub_of m' = hub_of m"
      by (rule hub_eqI) (use no in \<open>simp_all add: m' hub_of_sel is_member_def split: option.split\<close>)
    with None show ?thesis by (simp add: hub_step_iff)
  next
    case (Some r)
    with act have m': "m' = open_stream ?q ?k r (m\<lparr>next_queue := ?q + 1, queues := (queues m)(?q := []),
        store := (store m)(r := (store m r)\<lparr>consumers := consumers (store m r) @ [?q]\<rparr>)\<rparr>)"
      by (simp add: subscribe_begin_def Let_def split: if_splits)
    have ok': "mgr_ok m'" using ok act mgr_ok_begin by (auto split: if_splits)
    have key: "key_of_slot (store m r) = ?k" and lv: "r \<in> live m" using dget_slot_ok [OF ok Some] by simp_all
    have other: "r' \<noteq> r" if "dget k (slots m) = Some r'" "k \<noteq> ?k" for k r'
      using dget_slot_ok [OF ok that(1)] key that(2) by auto
    have mem: "is_member q m' \<longleftrightarrow> is_member q m \<or> q = ?q" for q
      unfolding is_member_iff [OF ok] is_member_iff [OF ok'] by (auto simp: m' open_stream_def)
    have "hub_of m' = hub_next (Joined ?k ?q) (hub_of m)"
    proof (rule hub_eqI)
      show "members (hub_of m') k = members (hub_next (Joined ?k ?q) (hub_of m)) k" for k
        using Some other by (auto simp: m' hub_of_sel enter_def open_stream_def split: option.split)
      show "route_to (hub_of m') i = route_to (hub_next (Joined ?k ?q) (hub_of m)) i" for i
        by (auto simp: m' hub_of_sel enter_def open_stream_def key_of_slot_def intro!: arg_cong2 [where f = map_option])
      show "inbox (hub_of m') q = inbox (hub_next (Joined ?k ?q) (hub_of m)) q" for q
        by (simp add: hub_of_sel(3) mem enter_def) (simp add: m' open_stream_def)
    qed (simp add: m' hub_of_sel enter_def open_stream_def split: option.split)
    moreover have "hub_allows (Joined ?k ?q) (hub_of m)"
      using live_members [OF ok lv] live_consumers [OF ok lv] no_member [OF ok no] key by simp
    ultimately show ?thesis using Some by (simp add: hub_step_iff)
  qed
qed
lemma hub_of_new_slot:
  assumes ok: "mgr_ok m" and wait: "lock m = Subscribing kind params q" and fresh: "queues m q = []"
  shows "hub_of (new_slot kind params q i m) = enter (kind, canonicalize params) q (hub_of m)"
    and "members (hub_of m) (kind, canonicalize params) = []" and "q \<notin> set (members (hub_of m) k)"
    and "\<not> reading (hub_of m) q"
proof -
  let ?k = "(kind, canonicalize params)" and ?m = "new_slot kind params q i m"
  have w: "?k \<notin> fst ` set (slots m)" "streams m q = None" "\<And>r. q \<notin> set (consumers (store m r))"
    using ok wait by (simp_all add: mgr_ok_def lock_ok_def)
  have sl: "slots ?m = slots m @ [(?k, next_slot m)]"
    using w(1) by (simp add: new_slot_def set_dset_fresh)
  have get: "dget k (slots ?m) = (if k = ?k then Some (next_slot m) else dget k (slots m))" for k
    by (simp add: new_slot_def map_of_dset)
  have old: "r \<noteq> next_slot m" if "r \<in> live m" for r
    using ok that live_less by (auto simp: mgr_ok_def)
  have st: "store ?m r = store m r" if "r \<in> live m" for r
    using old [OF that] by (simp add: new_slot_def)
  have k: "dget ?k (slots m) = None" using w(1) by (simp add: map_of_eq_None_iff)
  then show "members (hub_of m) ?k = []" by (simp add: hub_of_sel)
  have no: "\<not> is_member q m" using w(3) by (simp add: is_member_iff [OF ok])
  then show "q \<notin> set (members (hub_of m) k)" by (rule no_member [OF ok])
  show "\<not> reading (hub_of m) q" using w(2) by (simp add: hub_of_sel)
  have ok': "mgr_ok ?m" using ok wait by (rule mgr_ok_new_slot)
  have mem: "is_member q' ?m \<longleftrightarrow> is_member q' m \<or> q' = q" for q'
  proof -
    have "consumers (store m (next_slot m)) = []"
      using ok old [of "next_slot m"] unfolding mgr_ok_def consumers_ok_def
      by (metis list.set_intros(1) neq_Nil_conv)
    then show ?thesis
      unfolding is_member_iff [OF ok] is_member_iff [OF ok']
      by (auto simp: new_slot_def) (metis empty_iff empty_set)
  qed
  show "hub_of ?m = enter ?k q (hub_of m)"
  proof (rule hub_eqI)
    show "members (hub_of ?m) k' = members (enter ?k q (hub_of m)) k'" for k'
    proof (cases "k' = ?k")
      case True
      with k show ?thesis by (simp add: hub_of_sel(1) get enter_def) (simp add: new_slot_def)
    next
      case False
      then show ?thesis
        using dget_slot_ok [OF ok, of k'] st by (cases "dget k' (slots m)") (simp_all add: hub_of_sel(1) get enter_def)
    qed
    show "route_to (hub_of ?m) j = route_to (enter ?k q (hub_of m)) j" for j
    proof (cases "dget j (by_id m)")
      case (Some r)
      then have "r \<in> live m" using ok unfolding mgr_ok_def ids_ok_def by (blast dest: map_of_SomeD)
      with Some st show ?thesis by (simp add: hub_of_sel(2) enter_def new_slot_def)
    qed (simp add: hub_of_sel(2) enter_def new_slot_def)
    show "inbox (hub_of ?m) q' = inbox (enter ?k q (hub_of m)) q'" for q'
      using fresh by (simp add: hub_of_sel(3) mem enter_def) (simp add: new_slot_def)
  qed (simp add: hub_of_sel(4) enter_def new_slot_def)
qed

lemma sim_reply_new:
  assumes ok: "mgr_ok m" "waiting_empty m" and wait: "lock m = Subscribing kind params q"
    and act: "mux_do (Reply outcome) m = Some m'"
  shows "hub_step (seen_as (Reply outcome) m) (hub_of m) (hub_of m')"
proof (cases outcome)
  case (Inl e)
  with act wait have "m' = m\<lparr>lock := Free\<rparr>" by (simp add: subscribe_end_def)
  with Inl wait show ?thesis by (simp add: hub_step_iff hub_of_same)
next
  case (Inr i)
  let ?k = "(kind, canonicalize params)" and ?m1 = "new_slot kind params q i m"
  have "queues m q = []" using ok(2) wait by (simp add: waiting_empty_def)
  note new = hub_of_new_slot [OF ok(1) wait this]
  show ?thesis
  proof (cases "hashable i")
    case False
    with Inr act wait have "m' = ?m1" by (simp add: subscribe_end_def Let_def)
    with False Inr wait new show ?thesis by (simp add: hub_step_iff)
  next
    case True
    let ?m2 = "?m1\<lparr>by_id := dset i (next_slot m) (by_id ?m1)\<rparr>"
    have key: "key_of_slot (store ?m1 (next_slot m)) = ?k" by (simp add: new_slot_def key_of_slot_def)
    have "m' = open_stream q ?k (next_slot m) (publish_gauge kind ?m2)"
      using True Inr act wait by (simp add: subscribe_end_def Let_def)
    then have "hub_of m' = hub_next (Opened ?k i q) (hub_of m)"
      by (simp add: hub_of_open hub_of_same hub_of_enter_id key new(1)) (simp add: enter_def)
    with True Inr wait new show ?thesis by (simp add: hub_step_iff)
  qed
qed

lemma sim_reply_again:
  assumes ok: "mgr_ok m" and wait: "lock m = Resubscribing (r # rs)"
    and act: "mux_do (Reply outcome) m = Some m'"
  shows "hub_step (seen_as (Reply outcome) m) (hub_of m) (hub_of m')"
proof -
  let ?k = "key_of_slot (store m r)"
  have lv: "r \<in> live m" and none: "r \<notin> snd ` set (by_id m)"
    using ok wait by (simp_all add: mgr_ok_def lock_ok_def)
  have m': "m' = resubscribe r rs outcome m" using act wait by simp
  have mem: "members (hub_of m) ?k \<noteq> []"
    using live_members [OF ok lv] live_consumers [OF ok lv] by simp
  show ?thesis
  proof (cases outcome)
    case (Inl e)
    have "hub_of (deliver Gap (consumers (store m r)) (m\<lparr>lock := wait_for rs\<rparr>)) = post Gap ?k (hub_of m)"
      by (subst hub_of_deliver_to [OF ok lv]) (simp_all add: hub_of_same)
    moreover have "route_to (hub_of m) i \<noteq> Some ?k" for i
    proof
      assume "route_to (hub_of m) i = Some ?k"
      then obtain r' where r': "dget i (by_id m) = Some r'" "key_of_slot (store m r') = ?k"
        by (auto simp: hub_of_sel)
      then have "r' \<in> live m" using ok unfolding mgr_ok_def ids_ok_def by (blast dest: map_of_SomeD)
      from live_get [OF ok this] live_get [OF ok lv] r'(2) have "r' = r" by (metis option.inject)
      with map_of_SomeD [OF r'(1)] none show False by (metis image_eqI snd_conv)
    qed
    ultimately show ?thesis
      using Inl wait mem by (simp add: m' resubscribe_def hub_step_iff hub_of_same)
  next
    case (Inr i)
    let ?m1 = "m\<lparr>store := (store m)(r := (store m r)\<lparr>subscription_id := Some i\<rparr>)\<rparr>"
    let ?m2 = "?m1\<lparr>by_id := dset i r (by_id ?m1)\<rparr>\<lparr>lock := wait_for rs\<rparr>"
    show ?thesis
    proof (cases "hashable i")
      case False
      with Inr wait show ?thesis by (simp add: m' resubscribe_def hub_step_iff hub_of_same)
    next
      case True
      have k: "key_of_slot (store ?m1 r) = ?k" "consumers (store ?m1 r) = consumers (store m r)"
        by (simp_all add: key_of_slot_def)
      have "m' = deliver Gap (consumers (store m r)) ?m2"
        using True Inr by (simp add: m' resubscribe_def)
      moreover have "hub_of (deliver Gap (consumers (store m r)) ?m2) = post Gap ?k (hub_of ?m2)"
        by (rule hub_of_deliver_to [OF ok lv]) simp_all
      moreover have "hub_of ?m2 = (hub_of m)\<lparr>route_to := (route_to (hub_of m))(i \<mapsto> ?k)\<rparr>"
        unfolding hub_of_same(1) hub_of_enter_id k(1) hub_of_same(3) by (rule refl)
      ultimately show ?thesis
        using Inr True wait mem by (simp add: hub_step_iff)
    qed
  qed
qed
lemma route_live: "mgr_ok m \<Longrightarrow> dget i (by_id m) = Some r \<Longrightarrow> r \<in> live m \<and> subscription_id (store m r) = Some i \<and> hashable i"
  unfolding mgr_ok_def ids_ok_def by (blast dest: map_of_SomeD)

lemma dget_ddel: "dget k (ddel k' d) = (if k = k' then None else dget k d)"
  by (induction d) (auto simp: ddel_def)

lemma hub_of_drop:
  assumes ok: "mgr_ok m" and q: "q \<in> set (consumers (store m r))" and closed: "\<not> reading (hub_of m) q"
    and s: "slots m' = (if remove1 q (consumers (store m r)) = [] then ddel (key_of_slot (store m r)) (slots m) else slots m)"
    and b: "\<And>i. dget i (by_id m') = (if remove1 q (consumers (store m r)) = [] \<and> subscription_id (store m r) = Some i
        then None else dget i (by_id m))"
    and same: "queues m' = queues m" "streams m' = streams m"
      "\<And>r'. key_of_slot (store m' r') = key_of_slot (store m r')"
      "\<And>r'. consumers (store m' r') = (if r' = r then remove1 q (consumers (store m r)) else consumers (store m r'))"
  shows "hub_of m' = hub_next (Left (key_of_slot (store m r)) q (subscription_id (store m r))) (hub_of m)"
    and "q \<in> set (members (hub_of m) (key_of_slot (store m r)))"
proof -
  let ?k = "key_of_slot (store m r)" and ?rest = "remove1 q (consumers (store m r))"
  have lv: "r \<in> live m" using ok q by (auto simp: mgr_ok_def consumers_ok_def)
  note here = live_members [OF ok lv] live_get [OF ok lv]
  show "q \<in> set (members (hub_of m) ?k)" using q by (simp add: here)
  have d: "distinct (consumers (store m r))" using ok by (simp add: mgr_ok_def consumers_ok_def)
  have one: "r' = r" if "q \<in> set (consumers (store m r'))" for r'
    using ok q that unfolding mgr_ok_def consumers_ok_def by blast
  have key: "r' = r" if "r' \<in> live m" "key_of_slot (store m r') = ?k" for r'
    using live_get [OF ok that(1)] that(2) here(2) by simp
  have get: "dget k (slots m') = (if k = ?k \<and> ?rest = [] then None else dget k (slots m))" for k
    by (simp add: s dget_ddel)
  have mem: "is_member q' m' \<longleftrightarrow> is_member q' m \<and> q' \<noteq> q" for q'
  proof
    assume "is_member q' m'"
    then obtain k r' where r': "(k, r') \<in> set (slots m')" "q' \<in> set (consumers (store m' r'))"
      by (auto simp: is_member_def list_ex_iff)
    then have "q' \<in> set (consumers (store m r')) \<and> q' \<noteq> q"
      using d one by (auto simp: same(4) split: if_splits)
    then show "is_member q' m \<and> q' \<noteq> q" using is_member_iff [OF ok] by blast
  next
    assume a: "is_member q' m \<and> q' \<noteq> q"
    then obtain r' where r': "q' \<in> set (consumers (store m r'))" using is_member_iff [OF ok] by blast
    then have lv': "r' \<in> live m" using ok by (auto simp: mgr_ok_def consumers_ok_def)
    have c: "q' \<in> set (consumers (store m' r'))" using r' a by (auto simp: same(4) in_set_remove1)
    moreover have "dget (key_of_slot (store m r')) (slots m') = Some r'"
    proof (cases "r' = r")
      case True
      with c have "?rest \<noteq> []" by (auto simp: same(4))
      with True here(2) show ?thesis by (simp add: get)
    next
      case False
      with key [OF lv'] live_get [OF ok lv'] show ?thesis by (auto simp: get)
    qed
    ultimately show "is_member q' m'"
      unfolding is_member_def list_ex_iff by (force dest: map_of_SomeD)
  qed
  show "hub_of m' = hub_next (Left ?k q (subscription_id (store m r))) (hub_of m)"
  proof (rule hub_eqI)
    show "members (hub_of m') k = members (hub_next (Left ?k q (subscription_id (store m r))) (hub_of m)) k" for k
    proof (cases "k = ?k")
      case True
      then show ?thesis using here by (simp add: leave_def Let_def hub_of_sel(1) get same(4))
    next
      case False
      have "r' \<noteq> r" if "dget k (slots m) = Some r'" for r'
        using dget_slot_ok [OF ok that] False by auto
      with False show ?thesis
        by (cases "dget k (slots m)") (simp_all add: leave_def Let_def hub_of_sel(1) get same(4))
    qed
    show "route_to (hub_of m') i = route_to (hub_next (Left ?k q (subscription_id (store m r))) (hub_of m)) i" for i
    proof (cases "dget i (by_id m)")
      case None
      then show ?thesis using here by (simp add: leave_def Let_def hub_of_sel(2) b)
    next
      case (Some r')
      have "r' = r" if "key_of_slot (store m r') = ?k" using key route_live [OF ok Some] that by blast
      with Some route_live [OF ok Some] show ?thesis
        unfolding hub_next.simps leave_def Let_def here(1)
        by (auto simp: hub_of_sel(2) b same(3))
    qed
    show "inbox (hub_of m') q' = inbox (hub_next (Left ?k q (subscription_id (store m r))) (hub_of m)) q'" for q'
      by (simp add: leave_def Let_def hub_of_sel(3) mem same(1))
    show "reading (hub_of m') q' = reading (hub_next (Left ?k q (subscription_id (store m r))) (hub_of m)) q'" for q'
      by (simp add: leave_def Let_def hub_of_sel(4) same(2))
  qed
qed

lemma remove_consumer_fields:
  assumes "q \<in> set (consumers (store m r))" "k = key_of_slot (store m r)"
    and "\<And>i. \<not> hashable i \<Longrightarrow> dget i (by_id m) = None"
  shows "slots (remove_consumer k r q m)
      = (if remove1 q (consumers (store m r)) = [] then ddel (key_of_slot (store m r)) (slots m) else slots m)"
    and "dget i (by_id (remove_consumer k r q m))
      = (if remove1 q (consumers (store m r)) = [] \<and> subscription_id (store m r) = Some i then None else dget i (by_id m))"
    and "queues (remove_consumer k r q m) = queues m" "streams (remove_consumer k r q m) = streams m"
    and "key_of_slot (store (remove_consumer k r q m) r') = key_of_slot (store m r')"
    and "consumers (store (remove_consumer k r q m) r')
      = (if r' = r then remove1 q (consumers (store m r)) else consumers (store m r'))"
  using assms
  by (simp_all add: remove_consumer_eq publish_gauge_def dget_ddel split: option.split)

lemma sim_remove:
  assumes ok: "mgr_ok m" and act: "mux_do (Remove q) m = Some m'"
  shows "hub_step (seen_as (Remove q) m) (hub_of m) (hub_of m')"
proof -
  from act obtain cs where cs: "streams m q = Some cs" "cs_closed cs"
    and m': "m' = remove_consumer (cs_key cs) (cs_slot cs) q m"
    by (simp split: option.splits if_splits)
  let ?r = "cs_slot cs"
  have at_slot: "?r = r \<and> cs_key cs = key_of_slot (store m r)" if "q \<in> set (consumers (store m r))" for r
    using ok cs(1) that unfolding mgr_ok_def streams_ok_def by blast
  then have mem: "is_member q m \<longleftrightarrow> q \<in> set (consumers (store m ?r))"
    using is_member_iff [OF ok] by blast
  show ?thesis
  proof (cases "is_member q m")
    case False
    with mem cs m' show ?thesis by (simp add: remove_consumer_eq hub_step_iff)
  next
    case True
    with mem have q: "q \<in> set (consumers (store m ?r))" by simp
    then have k: "cs_key cs = key_of_slot (store m ?r)" using at_slot by blast
    have closed: "\<not> reading (hub_of m) q" using cs by (simp add: hub_of_sel)
    have unhashed: "dget i (by_id m) = None" if "\<not> hashable i" for i
      using route_live [OF ok, of i] that by (cases "dget i (by_id m)") auto
    note eq = remove_consumer_fields [OF q k unhashed]
    have "hub_of m' = hub_next (Left (key_of_slot (store m ?r)) q (subscription_id (store m ?r))) (hub_of m)"
      unfolding m' by (rule hub_of_drop(1) [OF ok q closed]) (rule eq, assumption)+
    moreover have "q \<in> set (members (hub_of m) (key_of_slot (store m ?r)))"
      unfolding member_iff [OF ok] using q by blast
    ultimately show ?thesis
      using True cs(1) k closed by (simp add: hub_step_iff)
  qed
qed

lemma sim_rest:
  assumes ok: "mgr_ok m" "hub_ok (hub_of m)" and act: "mux_do act m = Some m'"
    and which: "act = Close q \<or> act = Reconnect \<or> act = Take q"
  shows "hub_step (seen_as act m) (hub_of m) (hub_of m')"
  using which
proof (elim disjE)
  assume a: "act = Close q"
  with act obtain cs where cs: "streams m q = Some cs" by (auto split: if_splits)
  have "hub_of m' = hub_next (Stopped q) (hub_of m)"
    by (rule hub_eqI)
      (use a act cs in \<open>auto simp: hub_of_sel close_stream_def is_member_def split: if_splits option.split\<close>)
  with a show ?thesis by (simp add: hub_step_iff)
next
  assume a: "act = Reconnect"
  with act have m': "m' = reconnect_begin m" by (simp split: if_splits)
  have "hub_of m' = hub_next Forgot (hub_of m)"
    by (rule hub_eqI) (auto simp: m' hub_of_sel reconnect_begin_def is_member_def split: option.split)
  with a show ?thesis by (simp add: hub_step_iff)
next
  assume a: "act = Take q"
  with act obtain cs ev evs where t: "streams m q = Some cs" "\<not> cs_closed cs" "queues m q = ev # evs"
    "m' = m\<lparr>queues := (queues m)(q := evs)\<rparr>"
    by (auto simp: next_event_def split: option.splits list.splits if_splits)
  then have rd: "reading (hub_of m) q" by (simp add: hub_of_sel)
  then obtain k where "q \<in> set (members (hub_of m) k)" using ok(2) by (auto simp: hub_ok_def)
  then have mem: "is_member q m" using no_member [OF ok(1)] by blast
  have "hub_of m' = hub_next (Took q ev) (hub_of m)"
    by (rule hub_eqI) (use t mem in \<open>auto simp: hub_of_sel is_member_def split: option.split\<close>)
  moreover have "hub_allows (Took q ev) (hub_of m)" using rd mem t(3) by (simp add: hub_of_sel(3))
  ultimately show ?thesis using a t by (simp add: hub_step_iff next_event_def)
qed

lemma sim_do:
  assumes ok: "mgr_ok m" "waiting_empty m" "hub_ok (hub_of m)" and act: "mux_do act m = Some m'"
  shows "hub_step (seen_as act m) (hub_of m) (hub_of m')"
proof (cases act)
  case (Reply outcome)
  with act show ?thesis
    using sim_reply_new [OF ok(1,2)] sim_reply_again [OF ok(1)]
    by (cases "lock m") (auto split: list.splits simp del: seen_as.simps)
qed (use act ok sim_notify sim_subscribe sim_remove sim_rest in blast)+

interpretation hubs: refinement "\<lambda>m. m = new_manager" mstep "\<lambda>m. mgr_ok m \<and> waiting_empty m"
    "\<lambda>h. h = empty_hub" "\<lambda>h h'. \<exists>act. hub_step act h h'" hub_ok hub_of
proof unfold_locales
  show "s = new_manager \<Longrightarrow> hub_of s = empty_hub" for s
    by (simp add: hub_of_def empty_hub_def new_manager_def is_member_def)
  show "h = empty_hub \<Longrightarrow> hub_ok h" for h :: "slot_key hub"
    by (simp add: empty_hub_def hub_ok_def)
  show "hub_ok h \<Longrightarrow> \<exists>act. hub_step act h h' \<Longrightarrow> hub_ok h'" for h h' :: "slot_key hub"
    using hub_ok_next by (auto simp: hub_step_iff)
  show "\<exists>act. hub_step act (hub_of m) (hub_of m')"
    if "mgr_ok m \<and> waiting_empty m" "hub_ok (hub_of m)" "mstep m m'" for m m'
    using that sim_do unfolding mstep_iff by blast
qed

lemma reachable_hub_ok: "reachable m \<Longrightarrow> hub_ok (hub_of m)"
  unfolding reachable_def by (rule hubs.abs_inv [OF refl])

lemma reachable_waiting_empty: "reachable m \<Longrightarrow> waiting_empty m"
  unfolding reachable_def using mux_all.inv_reachable [OF refl] by blast

lemma sim_reachable:
  "reachable m \<Longrightarrow> mux_do act m = Some m' \<Longrightarrow> hub_step (seen_as act m) (hub_of m) (hub_of m')"
  by (rule sim_do [OF reachable_ok reachable_waiting_empty reachable_hub_ok])
section \<open>What a reader receives\<close>

text \<open>What a step of the hub offers to a reader, and what it hands over.\<close>

fun hub_offer :: "nat \<Rightarrow> 'k hub_op \<Rightarrow> 'k hub \<Rightarrow> stream_event list" where
  "hub_offer q (Posted i v) h =
     (case route_to h i of None \<Rightarrow> [] | Some k \<Rightarrow> if q \<in> set (members h k) then [Event v] else [])"
| "hub_offer q (Renewed k i) h = (if q \<in> set (members h k) then [Gap] else [])"
| "hub_offer q (Missed k) h = (if q \<in> set (members h k) then [Gap] else [])"
| "hub_offer q act h = []"

fun took :: "nat \<Rightarrow> 'k hub_op \<Rightarrow> stream_event list" where
  "took q (Took q' ev) = (if q' = q then [ev] else [])"
| "took q act = []"

definition accepted :: "nat \<Rightarrow> 'k hub_op \<Rightarrow> 'k hub \<Rightarrow> stream_event list" where
  "accepted q act h = (if length (inbox h q) < max_queue then hub_offer q act h else [])"

lemma inbox_step:
  assumes ok: "hub_ok h" and step: "hub_step act h h'" and rd: "reading h q"
  shows "took q act @ inbox h' q = inbox h q @ accepted q act h"
    and "act \<noteq> Stopped q \<Longrightarrow> reading h' q"
proof -
  have h': "h' = hub_next act h" and may: "hub_allows act h" using step by (simp_all add: hub_step_iff)
  obtain k where k: "q \<in> set (members h k)" using ok rd by (auto simp: hub_ok_def)
  show "took q act @ inbox h' q = inbox h q @ accepted q act h"
  proof (cases act)
    case (Joined k' q')
    with may k have "q' \<noteq> q" by auto
    with Joined show ?thesis by (simp add: h' enter_def accepted_def)
  next
    case (Opened k' i q')
    with may k have "q' \<noteq> q" by auto
    with Opened show ?thesis by (simp add: h' enter_def accepted_def)
  next
    case (Stranded k' q')
    with may k have "q' \<noteq> q" by auto
    with Stranded show ?thesis by (simp add: h' enter_def accepted_def)
  next
    case (Left k' q' dropped)
    with may rd have "q' \<noteq> q" by auto
    with Left show ?thesis by (simp add: h' leave_def Let_def accepted_def)
  next
    case (Took q' ev)
    with may show ?thesis by (auto simp: h' accepted_def)
  qed (auto simp: h' accepted_def post_def split: option.split)
  show "reading h' q" if "act \<noteq> Stopped q"
    using rd that unfolding h' by (cases act) (auto simp: enter_def leave_def Let_def split: option.split)
qed

lemma offer_at_most_one: "length (hub_offer q act h) \<le> 1"
  by (cases act) (auto split: option.split)

fun offers :: "nat \<Rightarrow> mux_op list \<Rightarrow> manager \<Rightarrow> stream_event list" where
  "offers q [] m = []"
| "offers q (act # acts) m =
     hub_offer q (seen_as act m) (hub_of m) @ (case mux_do act m of None \<Rightarrow> [] | Some m' \<Rightarrow> offers q acts m')"

fun taken :: "nat \<Rightarrow> mux_op list \<Rightarrow> manager \<Rightarrow> stream_event list" where
  "taken q [] m = []"
| "taken q (act # acts) m =
     took q (seen_as act m) @ (case mux_do act m of None \<Rightarrow> [] | Some m' \<Rightarrow> taken q acts m')"

definition reads :: "nat \<Rightarrow> manager \<Rightarrow> bool" where
  "reads q m = (case streams m q of None \<Rightarrow> False | Some cs \<Rightarrow> \<not> cs_closed cs)"

lemma reading_reads: "reading (hub_of m) q = reads q m"
  by (simp add: reads_def hub_of_sel)

lemma reads_member: "reachable m \<Longrightarrow> reads q m \<Longrightarrow> is_member q m"
proof -
  assume m: "reachable m" "reads q m"
  then obtain k where "q \<in> set (members (hub_of m) k)"
    using reachable_hub_ok [OF m(1)] unfolding hub_ok_def reading_reads by blast
  then show "is_member q m" using no_member [OF reachable_ok [OF m(1)]] by blast
qed

lemma reads_inbox: "reachable m \<Longrightarrow> reads q m \<Longrightarrow> inbox (hub_of m) q = queues m q"
  by (simp add: hub_of_sel(3) reads_member)

lemma seen_stopped: "seen_as act m = Stopped q \<Longrightarrow> act = Close q"
  by (cases act) (auto simp: Let_def split: if_splits option.splits sum.splits lock_holder.splits list.splits)

lemma queue_step:
  assumes m: "reachable m" "reads q m" and act: "mux_do act m = Some m'" "act \<noteq> Close q"
  shows "took q (seen_as act m) @ queues m' q = queues m q @ accepted q (seen_as act m) (hub_of m)"
    and "reads q m'" and "length (queues m q) < max_queue \<Longrightarrow>
      accepted q (seen_as act m) (hub_of m) = hub_offer q (seen_as act m) (hub_of m)"
proof -
  have m': "reachable m'" using m(1) act(1) by (rule reachable_do)
  have ns: "seen_as act m \<noteq> Stopped q" using act(2) seen_stopped by blast
  note step = inbox_step [OF reachable_hub_ok [OF m(1)] sim_reachable [OF m(1) act(1)], of q, unfolded reading_reads, OF m(2)]
  show r: "reads q m'" using step(2) [OF ns] .
  show "took q (seen_as act m) @ queues m' q = queues m q @ accepted q (seen_as act m) (hub_of m)"
    using step(1) unfolding reads_inbox [OF m] reads_inbox [OF m' r] .
  show "accepted q (seen_as act m) (hub_of m) = hub_offer q (seen_as act m) (hub_of m)"
    if "length (queues m q) < max_queue"
    using that by (simp add: accepted_def reads_inbox [OF m])
qed

lemma delivery_ordered:
  "reachable m \<Longrightarrow> reads q m \<Longrightarrow> mux_run acts m = Some m' \<Longrightarrow> Close q \<notin> set acts \<Longrightarrow>
    reads q m' \<and> subseq (taken q acts m @ queues m' q) (queues m q @ offers q acts m)"
proof (induction acts arbitrary: m)
  case Nil
  then show ?case by simp
next
  case (Cons act acts)
  then obtain m1 where m1: "mux_do act m = Some m1" "mux_run acts m1 = Some m'" by auto
  let ?l = "seen_as act m" and ?h = "hub_of m"
  from Cons.prems have "act \<noteq> Close q" "Close q \<notin> set acts" by auto
  note step = queue_step [OF Cons.prems(1,2) m1(1) this(1)]
  have ih: "reads q m'" "subseq (taken q acts m1 @ queues m' q) (queues m1 q @ offers q acts m1)"
    using Cons.IH [OF reachable_do [OF Cons.prems(1) m1(1)] step(2) m1(2)] \<open>Close q \<notin> set acts\<close> by simp_all
  have "subseq (took q ?l @ taken q acts m1 @ queues m' q) (took q ?l @ queues m1 q @ offers q acts m1)"
    using ih(2) by (simp only: subseq_append')
  also have "took q ?l @ queues m1 q @ offers q acts m1 = queues m q @ accepted q ?l ?h @ offers q acts m1"
    using step(1) by simp
  also have "subseq \<dots> (queues m q @ hub_offer q ?l ?h @ offers q acts m1)"
    unfolding subseq_append' append_assoc [symmetric] subseq_append by (simp add: accepted_def)
  finally show ?case using ih(1) m1(1) by simp
qed

lemma delivery_complete:
  "reachable m \<Longrightarrow> reads q m \<Longrightarrow> mux_run acts m = Some m' \<Longrightarrow> Close q \<notin> set acts \<Longrightarrow>
    length (queues m q) + length (offers q acts m) \<le> max_queue \<Longrightarrow>
    taken q acts m @ queues m' q = queues m q @ offers q acts m"
proof (induction acts arbitrary: m)
  case Nil
  then show ?case by simp
next
  case (Cons act acts)
  then obtain m1 where m1: "mux_do act m = Some m1" "mux_run acts m1 = Some m'" by auto
  let ?l = "seen_as act m" and ?h = "hub_of m"
  from Cons.prems have "act \<noteq> Close q" "Close q \<notin> set acts" by auto
  note step = queue_step [OF Cons.prems(1,2) m1(1) this(1)]
  have room: "length (queues m q) + length (hub_offer q ?l ?h) + length (offers q acts m1) \<le> max_queue"
    using Cons.prems(5) m1(1) by simp
  have all: "accepted q ?l ?h = hub_offer q ?l ?h"
  proof (cases "hub_offer q ?l ?h")
    case (Cons x xs)
    with room show ?thesis by (intro step(3)) simp
  qed (simp add: accepted_def)
  have "length (took q ?l @ queues m1 q) = length (queues m q @ hub_offer q ?l ?h)"
    using arg_cong [where f = length, OF step(1)] by (simp only: all)
  then have "length (queues m1 q) + length (offers q acts m1) \<le> max_queue"
    using room by simp
  from Cons.IH [OF reachable_do [OF Cons.prems(1) m1(1)] step(2) m1(2) \<open>Close q \<notin> set acts\<close> this]
  have "took q ?l @ taken q acts m1 @ queues m' q = (took q ?l @ queues m1 q) @ offers q acts m1" by simp
  also have "\<dots> = queues m q @ hub_offer q ?l ?h @ offers q acts m1"
    unfolding step(1) all by simp
  finally show ?case using m1(1) by simp
qed

lemma taken_count: "mux_run acts m = Some m' \<Longrightarrow> length (taken q acts m) = count_list acts (Take q)"
proof (induction acts arbitrary: m)
  case (Cons act acts)
  then obtain m1 where m1: "mux_do act m = Some m1" "mux_run acts m1 = Some m'" by auto
  have "length (took q (seen_as act m)) = (if act = Take q then 1 else 0)"
    using m1(1)
    by (cases act) (auto simp: Let_def split: if_splits option.splits sum.splits lock_holder.splits list.splits)
  with Cons.IH [OF m1(2)] m1(1) show ?case by simp
qed simp

text \<open>
  C8. A reader hears what is offered to it, in order. Over any run of the process from a reachable state
  in which a client keeps its stream, what it has read followed by what is still queued for it is a
  subsequence of what was queued followed by what the run offered it: a value for each notification
  routed to its topic, a gap for each reply of a reconnect about it. While that fits into the 1024
  places nothing is lost: the n events it has asked for are the first n of them. And an event that is
  queued can always be read.
\<close>

theorem delivery_in_order:
  assumes "reachable m" "reads q m" "mux_run acts m = Some m'" "Close q \<notin> set acts"
  shows "subseq (taken q acts m @ queues m' q) (queues m q @ offers q acts m)
    \<and> (length (queues m q) + length (offers q acts m) \<le> max_queue \<longrightarrow>
        taken q acts m = take (count_list acts (Take q)) (queues m q @ offers q acts m)
      \<and> queues m' q = drop (count_list acts (Take q)) (queues m q @ offers q acts m))
    \<and> (queues m' q \<noteq> [] \<longrightarrow> mux_do (Take q) m' \<noteq> None)"
proof -
  have "reads q m'" using delivery_ordered [OF assms] by simp
  then have "queues m' q \<noteq> [] \<longrightarrow> mux_do (Take q) m' \<noteq> None"
    by (auto simp: reads_def next_event_def neq_Nil_conv split: option.splits)
  with delivery_ordered [OF assms] delivery_complete [OF assms] taken_count [OF assms(3), of q]
  show ?thesis by (metis append_eq_conv_conj)
qed
definition heads_key :: slot_key where
  "heads_key = (''newHeads'', canonicalize JNull)"

lemma heads_sub_run:
  "mux_run [Subscribe ''newHeads'' JNull, Reply (Inr (JStr ''0x1'')), Subscribe ''newHeads'' JNull] new_manager
     = Some heads_sub"
  by (simp add: heads_sub_def subscribe_begin_def subscribe_end_def new_slot_def new_manager_def Let_def
      open_stream_def publish_gauge_def hashable_def)

definition a_block :: dict where
  "a_block = [(''params'', JObj [(''subscription'', JStr ''0x1''), (''result'', JInt 7)])]"

text \<open>The second reader hears of a block, loses the connection, hears of the gap, and has read the block.\<close>

definition heads_day :: "mux_op list" where
  "heads_day = [Notify a_block, Reconnect, Reply (Inr (JStr ''0x9'')), Take 1]"

lemmas eval_ops = subscribe_begin_def subscribe_end_def new_slot_def new_manager_def Let_def
  open_stream_def publish_gauge_def hashable_def on_notification_def deliver_def enqueue_def max_queue_def
  reconnect_begin_def resubscribe_def wait_for_def next_event_def

lemma heads_sub_all:
  "heads_sub = \<lparr>slots = [(heads_key, 0)], by_id = [(JStr ''0x1'', 0)],
     store = (\<lambda>r. no_slot)(0 := \<lparr>slot_kind = ''newHeads'', slot_params = JNull,
       subscription_id = Some (JStr ''0x1''), consumers = [0, 1]\<rparr>),
     next_slot = 1, queues = (\<lambda>q. []),
     streams = (\<lambda>q. None)(0 \<mapsto> \<lparr>cs_key = heads_key, cs_slot = 0, cs_closed = False\<rparr>,
       1 \<mapsto> \<lparr>cs_key = heads_key, cs_slot = 0, cs_closed = False\<rparr>),
     next_queue = 2, lock = Free, gauges = (\<lambda>k. None)(''newHeads'' \<mapsto> 1)\<rparr>"
  by (simp add: heads_sub_def heads_key_def eval_ops fun_eq_iff)

lemma heads_day_run:
  "\<exists>m'. mux_run heads_day heads_sub = Some m' \<and> queues m' 1 = [Gap]"
  "offers 1 heads_day heads_sub = [Event (JInt 7), Gap]"
  "taken 1 heads_day heads_sub = [Event (JInt 7)]"
  by (simp_all add: heads_day_def a_block_def heads_sub_all eval_ops hub_of_def key_of_slot_def heads_key_def is_member_def)

lemma heads_sub_reads: "reads 1 heads_sub" "queues heads_sub 1 = []"
  by (simp_all add: reads_def heads_sub_all)

theorem delivery_in_order_witness:
  "\<exists>m'. mux_run heads_day heads_sub = Some m'
     \<and> subseq ([Event (JInt 7)] @ queues m' 1) [Event (JInt 7), Gap]
     \<and> taken 1 heads_day heads_sub = take (count_list heads_day (Take 1)) [Event (JInt 7), Gap]"
proof -
  from heads_day_run(1) obtain m' where m': "mux_run heads_day heads_sub = Some m'" by blast
  have "Close 1 \<notin> set heads_day" by (simp add: heads_day_def)
  from delivery_in_order [OF heads_sub_reachable heads_sub_reads(1) m' this]
  have "subseq ([Event (JInt 7)] @ queues m' 1) [Event (JInt 7), Gap]
      \<and> taken 1 heads_day heads_sub = take (count_list heads_day (Take 1)) [Event (JInt 7), Gap]"
    unfolding heads_sub_reads heads_day_run by (simp add: max_queue_def)
  with m' show ?thesis by blast
qed

section \<open>The refinement\<close>

text \<open>
  C5. The multiplexer is the hub. In every reachable state every operation the process can do next is,
  seen through the abstraction, an operation the hub allows there, with the hub's effect: joining, opening
  and leaving a topic, posting to the members of the topic an id routes to, the gap of each reply of
  a reconnect, reading. In particular whoever holds an open stream is a member of exactly one topic, and
  only topics with members are routed to.
\<close>

theorem multiplexer_refines_hub:
  assumes "reachable m" "mux_do act m = Some m'"
  shows "hub_allows (seen_as act m) (hub_of m) \<and> hub_of m' = hub_next (seen_as act m) (hub_of m) \<and> hub_ok (hub_of m')"
  using sim_reachable [OF assms] reachable_hub_ok [OF reachable_do [OF assms]]
  by (simp add: hub_step_iff)

text \<open>The second subscriber of the new blocks leaves, then the first: the topic and its route are gone.\<close>

lemma heads_leaving:
  "\<exists>m. mux_run [Close 1, Remove 1, Close 0] heads_sub = Some m \<and> mux_do (Remove 0) m \<noteq> None
     \<and> seen_as (Remove 0) m = Left heads_key 0 (Some (JStr ''0x1''))"
  by (simp add: heads_sub_all close_stream_def remove_consumer_eq drop_consumer_def is_member_def)

theorem multiplexer_refines_hub_witness:
  "\<exists>m m'. mux_do (Remove 0) m = Some m' \<and> hub_allows (Left heads_key 0 (Some (JStr ''0x1''))) (hub_of m)
     \<and> hub_of m' = hub_next (Left heads_key 0 (Some (JStr ''0x1''))) (hub_of m)"
proof -
  from heads_leaving obtain m m' where m: "mux_run [Close 1, Remove 1, Close 0] heads_sub = Some m"
    "mux_do (Remove 0) m = Some m'" "seen_as (Remove 0) m = Left heads_key 0 (Some (JStr ''0x1''))"
    by blast
  from multiplexer_refines_hub [OF reachable_run [OF m(1) heads_sub_reachable] m(2)] m(2,3)
  show ?thesis by auto
qed

section \<open>The lock is given back\<close>

text \<open>How many replies the holder of the lock still waits for.\<close>

definition pending_replies :: "manager \<Rightarrow> nat" where
  "pending_replies m = (case lock m of Free \<Rightarrow> 0 | Subscribing kind params q \<Rightarrow> 1 | Resubscribing rs \<Rightarrow> length rs)"

definition is_reply :: "mux_op \<Rightarrow> bool" where
  "is_reply act = (case act of Reply outcome \<Rightarrow> True | _ \<Rightarrow> False)"

lemma pending_free: "reachable m \<Longrightarrow> pending_replies m = 0 \<longleftrightarrow> lock m = Free"
  using reachable_ok [of m] by (cases "lock m") (auto simp: pending_replies_def mgr_ok_def lock_ok_def)

lemma reply_progress:
  assumes "reachable m" "lock m \<noteq> Free"
  shows "\<exists>m'. mux_do (Reply outcome) m = Some m' \<and> pending_replies m' < pending_replies m"
proof (cases "lock m")
  case (Resubscribing rs)
  then obtain r rs' where rs: "rs = r # rs'"
    using reachable_ok [OF assms(1)] by (cases rs) (auto simp: mgr_ok_def lock_ok_def)
  have "lock (resubscribe r rs' outcome m) \<in> {Free, wait_for rs'}"
    by (auto simp: resubscribe_def Let_def split: sum.split)
  then have "pending_replies (resubscribe r rs' outcome m) \<le> length rs'"
    by (auto simp: pending_replies_def wait_for_def)
  with Resubscribing rs show ?thesis by (simp add: pending_replies_def)
next
  case (Subscribing kind params q)
  then show ?thesis by (simp add: pending_replies_def subscribe_end_def new_slot_def Let_def split: sum.split)
qed (use assms in simp)

lemma others_wait:
  assumes "mux_do act m = Some m'" "lock m \<noteq> Free" "\<not> is_reply act"
  shows "lock m' = lock m"
proof (cases act)
  case (Notify payload)
  with assms(1) notify_cases [of payload m m'] show ?thesis by (auto split: sum.splits)
qed (use assms in \<open>auto simp: is_reply_def close_stream_def next_event_def
    split: option.splits if_splits list.splits\<close>)

text \<open>
  C15. Whoever waits for the multiplexer's lock gets its chance. While the lock is held, the next reply is
  always possible, whatever its outcome, and brings the holder closer to releasing it; and any run in
  which the upstream's requests come back as often as the holder still waits for them passes through
  a state in which the lock is free, whatever notifications, closing clients and readers come between.
\<close>

theorem lock_given_back:
  assumes "reachable m"
  shows "(lock m \<noteq> Free \<longrightarrow> (\<exists>m'. mux_do (Reply outcome) m = Some m' \<and> pending_replies m' < pending_replies m))
    \<and> (mux_run acts m \<noteq> None \<longrightarrow> pending_replies m \<le> length (filter is_reply acts) \<longrightarrow>
        (\<exists>n m'. n \<le> length acts \<and> mux_run (take n acts) m = Some m' \<and> lock m' = Free))"
proof (intro conjI impI)
  show "\<exists>m'. mux_do (Reply outcome) m = Some m' \<and> pending_replies m' < pending_replies m" if "lock m \<noteq> Free"
    using reply_progress [OF assms that] .
  assume "mux_run acts m \<noteq> None" "pending_replies m \<le> length (filter is_reply acts)"
  with assms show "\<exists>n m'. n \<le> length acts \<and> mux_run (take n acts) m = Some m' \<and> lock m' = Free"
  proof (induction acts arbitrary: m)
    case Nil
    then show ?case using pending_free [OF Nil.prems(1)] by auto
  next
    case (Cons act acts)
    show ?case
    proof (cases "lock m = Free")
      case True
      then show ?thesis by (intro exI [of _ 0]) simp
    next
      case held: False
      from Cons.prems(2) obtain m1 where m1: "mux_do act m = Some m1" "mux_run acts m1 \<noteq> None"
        by (auto simp: mux_run.simps split: option.splits)
      have "pending_replies m1 \<le> length (filter is_reply acts)"
      proof (cases "is_reply act")
        case True
        then obtain out where "act = Reply out" by (cases act) (simp_all add: is_reply_def)
        with reply_progress [OF Cons.prems(1) held, of out] m1(1) have "pending_replies m1 < pending_replies m"
          by (metis option.inject)
        with True Cons.prems(3) show ?thesis by simp
      next
        case False
        with others_wait [OF m1(1) held] Cons.prems(3) show ?thesis by (simp add: pending_replies_def)
      qed
      from Cons.IH [OF reachable_do [OF Cons.prems(1) m1(1)] m1(2) this] obtain n m'
        where "n \<le> length acts" "mux_run (take n acts) m1 = Some m'" "lock m' = Free" by blast
      with m1(1) show ?thesis by (intro exI [of _ "Suc n"] exI [of _ m']) simp
    qed
  qed
qed

definition short_reconnect :: "mux_op list" where
  "short_reconnect = [Notify a_block, Close 0, Reply (Inl TimeoutError)]"

theorem lock_given_back_witness:
  "\<exists>n m'. n \<le> length short_reconnect \<and> mux_run (take n short_reconnect) (reconnect_begin heads_sub) = Some m'
     \<and> lock m' = Free"
proof -
  have "mux_run short_reconnect (reconnect_begin heads_sub) \<noteq> None"
    by (simp add: short_reconnect_def mux_run.simps a_block_def heads_sub_all eval_ops close_stream_def)
  moreover have "pending_replies (reconnect_begin heads_sub) \<le> length (filter is_reply short_reconnect)"
    by (simp add: short_reconnect_def pending_replies_def heads_sub_all eval_ops is_reply_def)
  ultimately show ?thesis
    using lock_given_back [OF heads_reconnect(1), where acts = short_reconnect and outcome = "Inl TimeoutError"] by blast
qed

section \<open>Where the abstraction shows a fault\<close>

text \<open>
  The hub drops, with a topic, the last id the topic had. After a failed re-subscription that id may be
  another topic's by now: then the other topic keeps its members and loses its route.
\<close>

lemma stale_id_silences:
  assumes "reachable m" "streams m q = Some cs" "cs_closed cs" "lock m = Free"
    and "consumers (store m (cs_slot cs)) = [q]" "subscription_id (store m (cs_slot cs)) = Some i"
    and other: "dget i (by_id m) = Some r" "r \<noteq> cs_slot cs" and act: "mux_do (Remove q) m = Some m'"
  shows "consumers (store m' r) \<noteq> [] \<and> consumers (store m' r) = consumers (store m r) \<and> dget j (by_id m') \<noteq> Some r"
proof -
  have ok: "mgr_ok m" by (rule reachable_ok [OF assms(1)])
  have r: "r \<in> live m" "subscription_id (store m r) = Some i" "hashable i" using route_live [OF ok other(1)] by simp_all
  have m': "m' = remove_consumer (cs_key cs) (cs_slot cs) q m" using act assms(2-4) by simp
  then have "by_id m' = ddel i (by_id m)"
    using assms(5,6) r(3) by (simp add: remove_consumer_eq publish_gauge_def)
  moreover have "j = i" if "dget j (by_id m) = Some r" for j
    using route_live [OF ok that] r(2) by simp
  ultimately have "dget j (by_id m') \<noteq> Some r" by (auto simp: dget_ddel)
  moreover have "consumers (store m' r) = consumers (store m r)"
    using m' assms(5,6) r(3) other(2) by (simp add: remove_consumer_eq publish_gauge_def)
  ultimately show ?thesis using live_consumers [OF ok r(1)] by simp
qed

definition collision :: "mux_op list" where
  "collision = [Subscribe ''newHeads'' JNull, Reply (Inr (JStr ''0x1'')), Subscribe ''syncing'' JNull,
     Reply (Inr (JStr ''0x2'')), Reconnect, Reply (Inl TimeoutError), Reply (Inr (JStr ''0x1'')), Close 0]"

lemma stale_id_silences_witness:
  "\<exists>m m'. reachable m \<and> mux_do (Remove 0) m = Some m' \<and> reads 1 m' \<and> consumers (store m' 1) = [1]
     \<and> dget (JStr ''0x1'') (by_id m') \<noteq> Some 1"
proof -
  have "\<exists>m cs. mux_run collision new_manager = Some m \<and> streams m 0 = Some cs \<and> cs_closed cs \<and> lock m = Free
      \<and> cs_slot cs = 0 \<and> consumers (store m 0) = [0] \<and> subscription_id (store m 0) = Some (JStr ''0x1'')
      \<and> dget (JStr ''0x1'') (by_id m) = Some 1 \<and> consumers (store m 1) = [1]
      \<and> (\<exists>m'. mux_do (Remove 0) m = Some m' \<and> reads 1 m')"
    by (simp add: collision_def eval_ops close_stream_def remove_consumer_def reads_def)
  then obtain m cs m' where m: "mux_run collision new_manager = Some m" "streams m 0 = Some cs" "cs_closed cs"
      "lock m = Free" "cs_slot cs = 0" "consumers (store m 0) = [0]" "subscription_id (store m 0) = Some (JStr ''0x1'')"
      "dget (JStr ''0x1'') (by_id m) = Some 1" "consumers (store m 1) = [1]" "mux_do (Remove 0) m = Some m'" "reads 1 m'"
    by blast
  have "reachable m" using reachable_run [OF m(1) reachable_new] .
  from stale_id_silences [OF this m(2-4), of "JStr ''0x1''" 1 m' "JStr ''0x1''"] m this show ?thesis by auto
qed

end
