(* ===== verification/Wiring.thy ===== *)
theory Wiring
  imports Streams UpstreamWs Hub
begin

text \<open>
  The WebSocket client, the multiplexer and the streams together, as \<open>_run\<close> of \<open>__main__.py\<close> wires them:
  the multiplexer's \<open>on_notification\<close> and \<open>on_reconnect\<close> are the client's callbacks, and its requests go
  through the client. The facts: a notification frame becomes the event frame of each of its streams,
  and what a reconnect leaves behind.
\<close>

section \<open>A reconnect\<close>

text \<open>
  Where \<open>on_reconnect\<close> waits: for the lock, for its turn to ask, for the reply to a request; or it has
  returned.
\<close>

datatype stage = Locking | Asking | Awaiting nat | Returned

record session =
  ws :: ws_client
  mgr :: manager
  at_stage :: stage

definition next_stage :: "manager \<Rightarrow> stage" where
  "next_stage m = (if lock m = Free then Returned else Asking)"

text \<open>What other tasks do to the multiplexer while its lock is held for the reconnect.\<close>

inductive bystander :: "manager \<Rightarrow> manager \<Rightarrow> bool" where
  "on_notification payload m = Inr m' \<Longrightarrow> bystander m m'"
| "streams m q = Some cs \<Longrightarrow> bystander m (close_stream q m)"
| "next_event q m = Some (ev, m') \<Longrightarrow> bystander m m'"

inductive_cases bystanderE: "bystander m m'"

text \<open>
  The steps from the new connection to the return of \<open>on_reconnect\<close>. The WebSocket client may take any
  step that does not end the phase; before the lock is taken the multiplexer may take any step.
\<close>

inductive rstep :: "ws_config \<Rightarrow> session \<Rightarrow> session \<Rightarrow> bool" for cfg :: ws_config where
  takes_lock: "at_stage s = Locking \<Longrightarrow> lock (mgr s) = Free \<Longrightarrow>
    rstep cfg s (s\<lparr>mgr := reconnect_begin (mgr s), at_stage := next_stage (reconnect_begin (mgr s))\<rparr>)"
| asks: "at_stage s = Asking \<Longrightarrow> lock (mgr s) = Resubscribing (r # rs) \<Longrightarrow>
    request_begin ''eth_subscribe'' (subscribe_args (slot_kind (store (mgr s) r)) (slot_params (store (mgr s) r))) (ws s)
      = (Inr i, c) \<Longrightarrow>
    rstep cfg s (s\<lparr>ws := c, at_stage := Awaiting i\<rparr>)"
| refused: "at_stage s = Asking \<Longrightarrow> lock (mgr s) = Resubscribing (r # rs) \<Longrightarrow>
    request_begin ''eth_subscribe'' (subscribe_args (slot_kind (store (mgr s) r)) (slot_params (store (mgr s) r))) (ws s)
      = (Inl e, c) \<Longrightarrow>
    rstep cfg s (s\<lparr>ws := c, mgr := resubscribe r rs (Inl e) (mgr s),
      at_stage := next_stage (resubscribe r rs (Inl e) (mgr s))\<rparr>)"
| hears: "at_stage s = Awaiting i \<Longrightarrow> lock (mgr s) = Resubscribing (r # rs) \<Longrightarrow>
    request_end i e (ws s) = (out, c) \<Longrightarrow>
    rstep cfg s (s\<lparr>ws := c, mgr := resubscribe r rs out (mgr s),
      at_stage := next_stage (resubscribe r rs out (mgr s))\<rparr>)"
| client: "wstep cfg on_notification (ws s, mgr s) (c, m) \<Longrightarrow> phase c = Reconnecting \<Longrightarrow> m = mgr s \<Longrightarrow>
    rstep cfg s (s\<lparr>ws := c\<rparr>)"
| before: "at_stage s = Locking \<Longrightarrow> mstep (mgr s) m \<Longrightarrow> rstep cfg s (s\<lparr>mgr := m\<rparr>)"
| meanwhile: "bystander (mgr s) m \<Longrightarrow> rstep cfg s (s\<lparr>mgr := m\<rparr>)"

inductive_cases rstepE: "rstep cfg s s'"

definition connected_again :: "session \<Rightarrow> bool" where
  "connected_again s \<longleftrightarrow> phase (ws s) = Reconnecting \<and> ws_ok (ws s) \<and> at_stage s = Locking"

text \<open>After the lock no id leads to a slot, and the request that is waited for has no result.\<close>

definition silent :: "session \<Rightarrow> bool" where
  "silent s \<longleftrightarrow> phase (ws s) = Reconnecting \<and> ws_ok (ws s)
     \<and> (at_stage s \<noteq> Locking \<longrightarrow> by_id (mgr s) = [])
     \<and> (\<forall>i v. at_stage s = Awaiting i \<longrightarrow> i \<in> set (sent_ids (ws s)) \<and> settled (ws s) i \<noteq> Some (Inr v))"

lemma bystander_by_id: "bystander m m' \<Longrightarrow> by_id m' = by_id m"
  by (erule bystanderE)
    (auto simp: on_notification_def Let_def res_iffs close_stream_def next_event_def
      split: option.splits if_splits list.splits)

lemma request_begin_facts:
  assumes "request_begin meth params c = (r, c')" "ws_ok c"
  shows "ws_ok c'" "phase c' = phase c"
    "r = Inr i \<Longrightarrow> i \<in> set (sent_ids c') \<and> settled c' i = None"
proof -
  show "ws_ok c'" using ws_ok_request [OF assms(2), of meth params] assms(1) by simp
  show "phase c' = phase c"
    using assms(1) by (auto simp: request_begin_def Let_def split: if_splits sum.splits)
  assume r: "r = Inr i"
  then have "i = rid_counter c" "settled c' = settled c" "i \<in> set (sent_ids c')"
    using assms(1) by (auto simp: request_begin_def Let_def sent_ids_def split: if_splits sum.splits)
  with settled_bound [of c i] assms(2) show "i \<in> set (sent_ids c') \<and> settled c' i = None"
    by (cases "settled c i") (simp_all add: ws_ok_def)
qed

lemma frames_stay:
  assumes "wstep cfg listener (c, m) (c', m')"
  shows "set (frames c) \<subseteq> set (frames c')"
  using assms
proof (cases rule: wstep.cases)
  case (reads msg)
  then have "frames (fst (read_msg cfg listener msg (c, m))) = frames c"
    by (cases msg) (auto simp: read_msg_def round_over_def Let_def dest!: dispatch_ws split: sum.split)
  with reads show ?thesis by (metis fst_conv order_refl)
qed (auto simp: start_def request_begin_def request_end_def opened_def wake_def stop_begin_def stop_end_def
    round_over_def Let_def split: sum.splits option.splits if_splits)

lemma request_end_facts:
  assumes "request_end i e c = (out, c')" "ws_ok c" "i \<in> set (sent_ids c)" "\<And>v. settled c i \<noteq> Some (Inr v)"
  shows "ws_ok c'" "phase c' = phase c" "\<exists>e'. out = Inl e'"
proof -
  have "i \<in> set (waiting c) \<or> settled c i \<noteq> None"
    using assms(2,3) by (simp add: ws_ok_defs)
  then show "ws_ok c'" using ws_ok_end [OF assms(2), of i e] assms(1) by simp
  show "phase c' = phase c" using assms(1) by (auto simp: request_end_def split: option.splits)
  show "\<exists>e'. out = Inl e'"
    using assms(1,4) by (cases out) (auto simp: request_end_def split: option.splits)
qed

lemma silent_failed:
  assumes "silent s" "at_stage s \<noteq> Locking" "ws_ok c" "phase c = Reconnecting"
  shows "silent (s\<lparr>ws := c, mgr := resubscribe r rs (Inl e) (mgr s),
      at_stage := next_stage (resubscribe r rs (Inl e) (mgr s))\<rparr>)"
  using assms by (simp add: silent_def next_stage_def resubscribe_def)

lemma silent_step:
  assumes "silent s" "rstep cfg s s'"
  shows "silent s'"
  using assms(2)
proof (cases rule: rstep.cases)
  case takes_lock
  with assms(1) show ?thesis by (simp add: silent_def next_stage_def reconnect_begin_def)
next
  case (asks r rs i c)
  with assms(1) request_begin_facts [OF asks(4)] show ?thesis by (auto simp: silent_def)
next
  case (refused r rs e c)
  have "ws_ok c" "phase c = Reconnecting"
    using assms(1) request_begin_facts(1,2) [OF refused(4)] by (simp_all add: silent_def)
  with silent_failed [OF assms(1)] refused(1,2) show ?thesis by simp
next
  case (hears i r rs e out c)
  have s: "ws_ok (ws s)" "i \<in> set (sent_ids (ws s))" "\<And>v. settled (ws s) i \<noteq> Some (Inr v)" "phase (ws s) = Reconnecting"
    using assms(1) hears(2) by (simp_all add: silent_def)
  from request_end_facts [OF hears(4) s(1-3)] obtain e' where "ws_ok c" "phase c = Reconnecting" "out = Inl e'"
    using s(4) by auto
  with hears assms(1) show ?thesis by (auto intro!: silent_failed)
next
  case (client c m)
  have "ws_ok c" using ws_ok_step [OF _ client(2)] assms(1) by (simp add: silent_def)
  moreover have "unanswered (ws s) c"
    using unanswered_step [OF client(2)] assms(1) by (simp add: silent_def)
  moreover have "set (sent_ids (ws s)) \<subseteq> set (sent_ids c)"
    using frames_stay [OF client(2)] by (auto simp: sent_ids_def)
  ultimately show ?thesis
    using client assms(1) by (auto simp: silent_def unanswered_def)
next
  case (before m)
  with assms(1) show ?thesis by (simp add: silent_def)
next
  case (meanwhile m)
  with assms(1) bystander_by_id [OF meanwhile(2)] show ?thesis by (simp add: silent_def)
qed

interpretation reconnect: invariant_system connected_again "rstep cfg" silent for cfg
  by unfold_locales (simp add: connected_again_def silent_def, rule silent_step)

text \<open>
  C18. A reconnect leaves every stream deaf. Whatever happens between the new connection and the return
  of \<open>on_reconnect\<close>, its requests fail, since nothing reads their replies, and when it returns no
  subscription id leads to a slot: the notifications of the new connection reach nobody, although the
  slots and their consumers are still there and new clients join them without a request.
\<close>

theorem reconnect_leaves_streams_deaf:
  assumes "connected_again s" and "(rstep cfg)\<^sup>*\<^sup>* s s'" and "at_stage s' = Returned"
    and "on_notification payload (mgr s') = Inr m"
  shows "m = mgr s' \<and> by_id (mgr s') = []"
proof -
  have "silent s'" by (rule reconnect.inv_reachable [OF assms(1,2)])
  with assms(3,4) show ?thesis
    by (auto simp: silent_def on_notification_def Let_def res_iffs split: if_splits)
qed

definition back_again :: session where
  "back_again = \<lparr>ws = sample_back, mgr = heads_sub, at_stage = Locking\<rparr>"

lemma sample_back_ok: "ws_ok sample_back"
proof -
  have f: "\<not> stopping sample_asked" "attempt sample_asked = 0"
    by (simp_all add: sample_asked_def request_begin_def opened_def start_def new_ws_def connected_def Let_def
        json_dumps_res_def ws_frame_def rpc_body_def small_plain)
  have "ws_ok sample_asked"
    using wsys.inv_reachable [OF _ sample_asked_run [of on_notification new_manager]] by simp
  then have "ws_ok (round_over sample_ws None sample_asked)" (is "ws_ok ?r") by (rule ws_ok_round_over)
  moreover have "phase ?r = Sleeping 1"
    using f by (simp add: round_over_def Let_def sample_asked_eq sample_ws_def default_backoff_def)
  ultimately have "ws_ok (wake ?r)" by (rule ws_ok_simple(4))
  moreover have "phase (wake ?r) = Connecting"
    using f by (simp add: wake_def round_over_def Let_def sample_ws_def default_backoff_def)
  ultimately show ?thesis unfolding sample_back_def by (rule ws_ok_simple(2))
qed

theorem reconnect_leaves_streams_deaf_witness:
  "\<exists>s. (rstep sample_ws)\<^sup>*\<^sup>* back_again s \<and> at_stage s = Returned \<and> by_id (mgr s) = []
     \<and> consumers (store (mgr s) 0) = [0, 1] \<and> queues (mgr s) 1 = [Gap]"
proof -
  let ?s1 = "back_again\<lparr>mgr := reconnect_begin heads_sub, at_stage := Asking\<rparr>"
  let ?s2 = "?s1\<lparr>ws := sample_asks_again, at_stage := Awaiting 2\<rparr>"
  let ?m = "resubscribe 0 [] (Inl TimeoutError) (reconnect_begin heads_sub)"
  let ?s3 = "?s2\<lparr>ws := snd (request_end 2 TimeoutError sample_asks_again), mgr := ?m, at_stage := Returned\<rparr>"
  have l: "lock (reconnect_begin heads_sub) = Resubscribing [0]" by (rule heads_reconnect)
  have f: "lock heads_sub = Free" "slot_kind (store heads_sub 0) = ''newHeads''"
    "slot_params (store heads_sub 0) = JNull" "consumers (store heads_sub 0) = [0, 1]"
    by (simp_all add: heads_sub_eq)
  have st: "store (reconnect_begin heads_sub) = store heads_sub" by (simp add: reconnect_begin_def)
  have ask: "request_begin ''eth_subscribe'' [JStr ''newHeads''] sample_back = (Inr 2, sample_asks_again)"
    using sample_back_eq by (simp add: sample_asks_again_def request_begin_def connected_def Let_def
        json_dumps_res_def ws_frame_def rpc_body_def small_plain)
  have "rstep sample_ws back_again ?s1"
    using takes_lock [of back_again sample_ws] f(1) l by (simp add: back_again_def next_stage_def)
  moreover have "rstep sample_ws ?s1 ?s2"
    using asks [of ?s1 0 "[]" 2 sample_asks_again sample_ws] l f st ask
    by (simp add: back_again_def subscribe_args_def)
  moreover have "settled sample_asks_again 2 = None"
    using sample_back_eq by (simp add: sample_asks_again_def request_begin_def connected_def Let_def
        json_dumps_res_def ws_frame_def rpc_body_def small_plain)
  then have "request_end 2 TimeoutError sample_asks_again
      = (Inl TimeoutError, snd (request_end 2 TimeoutError sample_asks_again))"
    by (simp add: request_end_def)
  then have "rstep sample_ws ?s2 ?s3"
    using hears [of ?s2 2 0 "[]" TimeoutError "Inl TimeoutError" _ sample_ws] l
    by (simp add: back_again_def next_stage_def resubscribe_def wait_for_def)
  ultimately have run: "(rstep sample_ws)\<^sup>*\<^sup>* back_again ?s3"
    by (meson rtranclp.rtrancl_into_rtrancl rtranclp.rtrancl_refl)
  have "connected_again back_again"
    using sample_back_eq sample_back_ok by (simp add: connected_again_def back_again_def)
  from reconnect_leaves_streams_deaf [OF this run, of "[]" ?m] have "by_id (mgr ?s3) = []"
    by (simp add: on_notification_def)
  moreover have "queues heads_sub 1 = []"
    by (simp add: heads_sub_def subscribe_begin_def subscribe_end_def new_slot_def new_manager_def Let_def
        open_stream_def publish_gauge_def hashable_def)
  then have "queues ?m 1 = [Gap]" "consumers (store ?m 0) = [0, 1]"
    using f(4) st by (simp_all add: resubscribe_def enqueue_def reconnect_begin_def max_queue_def)
  ultimately show ?thesis
    using run by (intro exI [of _ ?s3]) simp
qed

section \<open>From the socket to the client\<close>


definition sample_push :: json where
  "sample_push = JObj [(''method'', JStr ''eth_subscription''),
     (''params'', JObj [(''subscription'', JStr ''0x1''), (''result'', sample_header)])]"

lemma sample_push_reads: "json_loads (cps (json_dumps sample_push)) = Inr sample_push"
  by (rule json_roundtrip) (simp add: sample_push_def sample_header_def dwf_def)


section \<open>From the topic to the client\<close>

lemma mapE_take: "mapE f xs = Inr ys \<Longrightarrow> mapE f (take n xs) = Inr (take n ys)"
proof (induction xs arbitrary: n ys)
  case (Cons x xs)
  then show ?case by (cases n) (auto simp: res_iffs)
qed simp

text \<open>
  C7. A client that reads sees its topic. Take any run of the process in which a client keeps its stream
  and its queue has room, with notifications, other clients, disconnections and reconnects in any order.
  If the events it is handed are those its stream takes from its queue, it is sent, heartbeats apart and
  after the opening frame, the frames of exactly the first of the events offered to its topic, as many
  as it has taken: a frame per notification routed to its topic, a gap frame per reply of a reconnect about
  it, in order, none missing and none twice.
\<close>

theorem client_sees_topic:
  assumes "reachable m" "reads q m" "queues m q = []" "mux_run acts m = Some m'" "Close q \<notin> set acts"
    and "length (offers q acts m) \<le> max_queue" "mapE (event_frame fmt gap) (offers q acts m) = Inr bs"
    and "patient cfg c" "subscribe_reply c kind params = Inr u" "header_get req ''Last-Event-ID'' = None"
    and "uninterrupted (feed c)" "arrivals (feed c) = taken q acts m"
  shows "\<exists>s' sent. run_stream cfg req kind params fmt label gap replay c s = (Inr Streamed, s')
    \<and> written s' = written s @ format_retry 5000 # sent
    \<and> without_pings sent = take (count_list acts (Take q)) bs"
proof -
  have "taken q acts m @ queues m' q = offers q acts m"
    using delivery_complete [OF assms(1,2,4,5)] assms(3,6) by simp
  then have "taken q acts m = take (count_list acts (Take q)) (offers q acts m)"
    using taken_count [OF assms(4), of q] by (metis append_eq_conv_conj)
  then have "mapE (event_frame fmt gap) (arrivals (feed c)) = Inr (take (count_list acts (Take q)) bs)"
    using mapE_take [OF assms(7)] assms(12) by simp
  from stream_writes_in_order_parts(1) [OF assms(8-11) this refl] show ?thesis .
qed

text \<open>The second reader of the new blocks hears of a block, of a reconnect, and of another one not yet.\<close>

definition block_news :: "mux_op list" where
  "block_news = [Notify [(''method'', JStr ''eth_subscription''),
     (''params'', JObj [(''subscription'', JStr ''0x1''), (''result'', sample_header)])],
     Reconnect, Reply (Inr (JStr ''0x2'')), Take 1, Take 1, Notify a_block]"

lemma block_news_run:
  "mux_run block_news heads_sub \<noteq> None" "offers 1 block_news heads_sub = [Event sample_header, Gap]"
  "taken 1 block_news heads_sub = [Event sample_header, Gap]"
  by (simp_all add: block_news_def mux_run.simps a_block_def heads_sub_all eval_ops hub_of_def key_of_slot_def heads_key_def
      is_member_def)

theorem client_sees_topic_witness:
  "\<exists>b g s' sent. block_frame sample_header = Inr b \<and> gap_frame ''gap'' = Inr g
     \<and> run_stream sample_config plain_get ''newHeads'' JNull block_event ''blocks'' ''gap'' None
         (good_client (constant_net JNull) [Arrives (Event sample_header), Silent 3, Arrives Gap]) quiet_process
       = (Inr Streamed, s')
     \<and> written s' = format_retry 5000 # sent \<and> without_pings sent = [b, g]"
proof -
  let ?c = "good_client (constant_net JNull) [Arrives (Event sample_header), Silent 3, Arrives Gap]"
  obtain b where b: "block_frame sample_header = Inr b" using sample_header_frame by blast
  obtain g where g: "gap_frame ''gap'' = Inr g"
    by (auto simp: gap_frame_def format_event_def json_dumps_res_def)
  obtain m' where m': "mux_run block_news heads_sub = Some m'" using block_news_run(1) by blast
  have "mapE (event_frame block_event ''gap'') (offers 1 block_news heads_sub) = Inr [b, g]"
    unfolding block_news_run using b g by (simp add: event_frame_def block_frame_def)
  moreover have "patient sample_config ?c" "subscribe_reply ?c ''newHeads'' JNull = Inr ()"
    "header_get plain_get ''Last-Event-ID'' = None" "uninterrupted (feed ?c)"
    "arrivals (feed ?c) = taken 1 block_news heads_sub"
    unfolding block_news_run
    by (simp_all add: patient_def good_client_def header_get_def plain_get_def uninterrupted_def)
  moreover have "Close 1 \<notin> set block_news" "length (offers 1 block_news heads_sub) \<le> max_queue"
    "count_list block_news (Take 1) = 2"
    unfolding block_news_run by (simp_all add: max_queue_def block_news_def)
  ultimately obtain s' sent where "run_stream sample_config plain_get ''newHeads'' JNull block_event ''blocks'' ''gap'' None
      ?c quiet_process = (Inr Streamed, s')" "written s' = written quiet_process @ format_retry 5000 # sent"
      "without_pings sent = take 2 [b, g]"
    using client_sees_topic [OF heads_sub_reachable heads_sub_reads m'] by metis
  with b g show ?thesis by (simp add: quiet_process_def)
qed

end
