(* ===== verification/ChainHead.thy ===== *)
theory ChainHead
  imports Subscriptions
begin

text \<open>
  \<open>chain_head.py\<close>: the task that keeps the latest block number, from the block notifications or, when
  there is no subscription, by polling, and publishes it as a gauge. Facts: the number is that of the
  last well-formed header, gauge and number agree, and one failing poll of each kind.
\<close>

section \<open>State and operations\<close>

record tracker =
  current :: "int option"
  tr_metrics :: metrics

definition new_tracker :: "metrics \<Rightarrow> tracker" where
  "new_tracker mt = \<lparr>current = None, tr_metrics = mt\<rparr>"

definition update :: "int \<Rightarrow> tracker \<Rightarrow> tracker" where
  "update n t = t\<lparr>current := Some n, tr_metrics := set_chain_head_block n (tr_metrics t)\<rparr>"

text \<open>One event of the subscription; a malformed number (the only error of the reader) is ignored.\<close>

definition on_event :: "stream_event \<Rightarrow> tracker \<Rightarrow> tracker" where
  "on_event ev t =
     (case ev of
        Gap \<Rightarrow> t
      | Event payload \<Rightarrow>
          (case payload of
             JObj d \<Rightarrow>
               (let number_hex = dget_or ''number'' JNull d in
                if \<not> is_str number_hex then t
                else (case hex_to_int number_hex of Inl e \<Rightarrow> t | Inr n \<Rightarrow> update n t))
           | _ \<Rightarrow> t))"

text \<open>The loop over the events, each with whether the stop event was set when it arrived.\<close>

fun consume_subscription :: "(bool \<times> stream_event) list \<Rightarrow> tracker \<Rightarrow> tracker" where
  "consume_subscription [] t = t"
| "consume_subscription ((stop, ev) # evs) t =
     (if stop then t else consume_subscription evs (on_event ev t))"

text \<open>One round of polling: the tracker afterwards, or the exception that ends the task.\<close>

definition ignored_by_poll :: "exn \<Rightarrow> bool" where
  "ignored_by_poll e = (is_upstream_error e \<or> is_encoding_error e)"

definition poll_once :: "tracker \<Rightarrow> tracker io" where
  "poll_once t =
     catchI
       (bindI (upstream_call ''eth_blockNumber'' []) (\<lambda>hex_value.
         bindI (liftI (hex_to_int hex_value)) (\<lambda>n. retI (update n t))))
       (\<lambda>e. if ignored_by_poll e then retI t else raiseI e)"

text \<open>The polls until the stop event is found set, \<open>n\<close> of them.\<close>

fun poll_loop :: "nat \<Rightarrow> tracker \<Rightarrow> tracker io" where
  "poll_loop 0 t = retI t"
| "poll_loop (Suc n) t = bindI (poll_once t) (poll_loop n)"

text \<open>
  The task: the outcome of its subscription decides (there is always a manager). The flag says whether
  it had a stream, which it closes however its loop ends.
\<close>

definition run_tracker ::
  "unit res \<Rightarrow> (bool \<times> stream_event) list \<Rightarrow> nat \<Rightarrow> tracker \<Rightarrow> (tracker \<times> bool) io" where
  "run_tracker subscribed evs n t =
     (case subscribed of
        Inr u \<Rightarrow> retI (consume_subscription evs t, True)
      | Inl e \<Rightarrow>
          (if e = CancelledError then raiseI e else bindI (poll_loop n t) (\<lambda>t'. retI (t', False))))"

section \<open>Facts\<close>

text \<open>The numbers the events carry.\<close>

definition head_number :: "stream_event \<Rightarrow> int option" where
  "head_number ev =
     (case ev of
        Event (JObj d) \<Rightarrow> (case dget ''number'' d of
            Some v \<Rightarrow> (case hex_to_int v of Inr n \<Rightarrow> Some n | Inl e \<Rightarrow> None)
          | None \<Rightarrow> None)
      | _ \<Rightarrow> None)"

definition before_stop :: "(bool \<times> stream_event) list \<Rightarrow> stream_event list" where
  "before_stop evs = map snd (takeWhile (\<lambda>(stop, ev). \<not> stop) evs)"

lemma hex_to_int_str: "hex_to_int v = Inr n \<Longrightarrow> is_str v"
  by (auto simp: hex_to_int_Inr_iff)

lemma on_event_number: "on_event ev t = (case head_number ev of None \<Rightarrow> t | Some n \<Rightarrow> update n t)"
proof (cases ev)
  case (Event v)
  then show ?thesis
    by (cases v)
      (auto simp: on_event_def head_number_def dget_or_def Let_def dest: hex_to_int_str
        split: option.split sum.split)
qed (simp add: on_event_def head_number_def)

definition gauge_agrees :: "tracker \<Rightarrow> bool" where
  "gauge_agrees t \<longleftrightarrow> dget [] (g_values (m_chain_head_block (tr_metrics t))) = map_option of_int (current t)"

lemma gauge_agrees_update [simp]: "gauge_agrees (update n t)"
  by (simp add: gauge_agrees_def update_def set_chain_head_block_def gauge_set_def)

lemma update_current [simp]: "current (update n t) = Some n"
  by (simp add: update_def)

definition latest :: "int list \<Rightarrow> int option \<Rightarrow> int option" where
  "latest ns old = (if ns = [] then old else Some (List.last ns))"

lemma consume_current:
  "current (consume_subscription evs t) = latest (List.map_filter head_number (before_stop evs)) (current t)"
proof (induction evs t rule: consume_subscription.induct)
  case (2 stop ev evs t)
  then show ?case
    by (cases "head_number ev") (auto simp: on_event_number before_stop_def latest_def map_filter_simps)
qed (simp add: before_stop_def latest_def map_filter_simps)

lemma consume_gauge: "gauge_agrees t \<Longrightarrow> gauge_agrees (consume_subscription evs t)"
  by (induction evs t rule: consume_subscription.induct)
    (auto simp: on_event_number split: option.split)

lemma poll_once_result:
  "poll_once t net w =
     (let (r, w') = upstream_call ''eth_blockNumber'' [] net w in
      case bindE r hex_to_int of
        Inr n \<Rightarrow> (Inr (update n t), w')
      | Inl e \<Rightarrow> (if ignored_by_poll e then Inr t else Inl e, w'))"
  by (auto simp: poll_once_def catchI_def bindI_def liftI_def retI_def raiseI_def Let_def
      split: prod.split sum.split)

lemma chain_head_follows_parts:
  assumes "gauge_agrees t"
  shows "current (consume_subscription evs t) = latest (List.map_filter head_number (before_stop evs)) (current t)"
    and "gauge_agrees (consume_subscription evs t)"
    and "upstream_call ''eth_blockNumber'' [] net w = (r, w') \<Longrightarrow> bindE r hex_to_int = Inr n \<Longrightarrow>
           \<exists>t'. poll_once t net w = (Inr t', w') \<and> current t' = Some n \<and> gauge_agrees t'"
    and "upstream_call ''eth_blockNumber'' [] net w = (r, w') \<Longrightarrow> bindE r hex_to_int = Inl e \<Longrightarrow>
           poll_once t net w = (if ignored_by_poll e then Inr t else Inl e, w')"
    and "poll_loop n t net w = (Inr tn, wn) \<Longrightarrow> gauge_agrees tn"
proof -
  show "current (consume_subscription evs t) = latest (List.map_filter head_number (before_stop evs)) (current t)"
    by (rule consume_current)
  show "gauge_agrees (consume_subscription evs t)"
    using assms by (rule consume_gauge)
  show "upstream_call ''eth_blockNumber'' [] net w = (r, w') \<Longrightarrow> bindE r hex_to_int = Inr n \<Longrightarrow>
           \<exists>t'. poll_once t net w = (Inr t', w') \<and> current t' = Some n \<and> gauge_agrees t'"
    by (simp add: poll_once_result)
  show "upstream_call ''eth_blockNumber'' [] net w = (r, w') \<Longrightarrow> bindE r hex_to_int = Inl e \<Longrightarrow>
           poll_once t net w = (if ignored_by_poll e then Inr t else Inl e, w')"
    by (simp add: poll_once_result)
  show "poll_loop n t net w = (Inr tn, wn) \<Longrightarrow> gauge_agrees tn"
    using assms
  proof (induction n arbitrary: t w)
    case (Suc n)
    then obtain t1 w1 where p: "poll_once t net w = (Inr t1, w1)" and l: "poll_loop n t1 net w1 = (Inr tn, wn)"
      by (auto simp: bindI_def split: prod.splits sum.splits)
    from p Suc.prems(2) have "gauge_agrees t1"
      by (auto simp: poll_once_result Let_def split: prod.splits sum.splits if_splits)
    with Suc.IH [OF l] show ?case by simp
  qed (simp add: retI_def)
qed

text \<open>
  C26. The tracker follows the chain: after any events of the subscription its number is that of the
  last event before the stop that was a block header with a hexadecimal number, unchanged when there
  was none; gaps and malformed payloads are skipped. After a poll it is the number the upstream
  answered, unchanged after an upstream error or a malformed number; any other failure of the call, a
  timeout among them, ends the task. The published gauge is always the tracker's number.
\<close>

theorem chain_head_follows:
  assumes "gauge_agrees t"
  shows "(current (consume_subscription evs t) = latest (List.map_filter head_number (before_stop evs)) (current t))
    \<and> (gauge_agrees (consume_subscription evs t))
    \<and> (upstream_call ''eth_blockNumber'' [] net w = (r, w') \<longrightarrow> bindE r hex_to_int = Inr n \<longrightarrow>
           (\<exists>t'. poll_once t net w = (Inr t', w') \<and> current t' = Some n \<and> gauge_agrees t'))
    \<and> (upstream_call ''eth_blockNumber'' [] net w = (r, w') \<longrightarrow> bindE r hex_to_int = Inl e \<longrightarrow>
           poll_once t net w = (if ignored_by_poll e then Inr t else Inl e, w'))
    \<and> (poll_loop n t net w = (Inr tn, wn) \<longrightarrow> gauge_agrees tn)"
  using chain_head_follows_parts [OF assms] by blast

theorem chain_head_follows_witness:
  "current (consume_subscription
     [(False, Event (JObj [(''number'', JStr ''0x10'')])), (False, Gap), (False, Event (JStr ''x'')),
      (True, Event (JObj [(''number'', JStr ''0x20'')]))] (new_tracker new_metrics)) = Some 16"
proof -
  have g: "gauge_agrees (new_tracker new_metrics)"
    by (simp add: gauge_agrees_def new_tracker_def new_metrics_def new_gauge_def)
  have h: "hex_to_int (JStr ''0x10'') = Inr 16"
    using hex_to_int_quantity [of 16] by (simp add: hex_quantity_def show_hex_def digits_of_small)
  show ?thesis
    using chain_head_follows [OF g, where net = "constant_net JNull" and w = fresh and w' = fresh and wn = fresh
        and r = "Inl TypeError" and n = 0 and e = TypeError and tn = "new_tracker new_metrics" and evs = "[(False, Event (JObj [(''number'', JStr ''0x10'')])), (False, Gap), (False, Event (JStr ''x'')),
      (True, Event (JObj [(''number'', JStr ''0x20'')]))]"] h
    by (simp add: before_stop_def head_number_def map_filter_simps latest_def)
qed

end
