(* ===== verification/Server.thy ===== *)
theory Server
  imports Streams ComputedApi ChainHead
begin

text \<open>
  \<open>server.py\<close>, the route tables of the handler modules, \<open>handlers/metrics.py\<close> and the wiring and exit
  codes of \<open>__main__.py\<close>: one request through the four middlewares, around the handler the router
  finds. The router is the web framework's and a parameter, as are the clocks and the fresh ids.
  Facts: every exception has its answer, every request is counted once, upstream request ids stay
  unique over any sequence of requests, and the 404 lists exactly the routes.
\<close>

section \<open>Routes\<close>

datatype endpoint =
    Api "request \<Rightarrow> response io"
  | Stream "request \<Rightarrow> stream_reply sio"
  | MetricsPage

type_synonym route = "string \<times> string \<times> endpoint"

text \<open>\<open>add_get\<close> registers both forms of a path; a post is registered by its exact path.\<close>

definition add_get :: "string \<Rightarrow> endpoint \<Rightarrow> route list" where
  "add_get path h =
     (''GET'', path, h) # (if List.last path = CHR ''/'' then [] else [(''GET'', path @ ''/'', h)])"

definition add_post :: "string \<Rightarrow> endpoint \<Rightarrow> route list" where
  "add_post path h = [(''POST'', path, h)]"

definition health_routes :: "config \<Rightarrow> route list" where
  "health_routes cfg = add_get ''/health'' (Api health) @ add_get ''/health/ready'' (Api (ready cfg))"

definition chain_routes :: "route list" where
  "chain_routes =
     add_get ''/chain'' (Api chain) @ add_get ''/chain/id'' (Api chain_id)
     @ add_get ''/chain/sync-status'' (Api chain_sync_status) @ add_get ''/chain/client'' (Api chain_client)
     @ add_get ''/chain/peers'' (Api chain_peers)"

definition gas_routes :: "route list" where
  "gas_routes =
     add_get ''/gas/price'' (Api gas_price) @ add_get ''/gas/priority-fee'' (Api priority_fee)
     @ add_get ''/gas/blob-base-fee'' (Api blob_base_fee) @ add_get ''/gas/fee-history'' (Api fee_history)"

definition transactions_routes :: "route list" where
  "transactions_routes =
     add_get ''/transactions/{hash}'' (Api get_transaction)
     @ add_get ''/transactions/{hash}/receipt'' (Api get_receipt)
     @ add_get ''/transactions/{hash}/trace'' (Api get_tx_trace)
     @ add_post ''/transactions'' (Api post_transaction) @ add_post ''/transactions/'' (Api post_transaction)
     @ add_post ''/transactions/{hash}/trace/replay'' (Api post_trace_replay)
     @ add_post ''/transactions/{hash}/trace/replay/'' (Api post_trace_replay)
     @ add_post ''/transactions/{hash}/debug-trace'' (Api post_debug_trace)
     @ add_post ''/transactions/{hash}/debug-trace/'' (Api post_debug_trace)"

definition blocks_routes :: "route list" where
  "blocks_routes =
     add_get ''/blocks/{id}'' (Api get_block) @ add_get ''/blocks/{id}/header'' (Api get_block_header)
     @ add_get ''/blocks/{id}/transactions'' (Api get_block_transactions)
     @ add_get ''/blocks/{id}/transactions/{index}'' (Api get_block_transaction_by_index)
     @ add_get ''/blocks/{id}/transaction-count'' (Api get_block_transaction_count)
     @ add_get ''/blocks/{id}/receipts'' (Api get_block_receipts)
     @ add_get ''/blocks/{id}/traces'' (Api get_block_traces)
     @ add_post ''/blocks/{id}/traces/replay'' (Api post_block_traces_replay)
     @ add_post ''/blocks/{id}/traces/replay/'' (Api post_block_traces_replay)
     @ add_post ''/blocks/{id}/debug-traces'' (Api post_block_debug_traces)
     @ add_post ''/blocks/{id}/debug-traces/'' (Api post_block_debug_traces)"

definition accounts_routes :: "route list" where
  "accounts_routes =
     add_get ''/accounts/{addr}/balance'' (Api account_balance)
     @ add_get ''/accounts/{addr}/nonce'' (Api account_nonce)
     @ add_get ''/accounts/{addr}/code'' (Api account_code)
     @ add_get ''/accounts/{addr}/storage/{slot}'' (Api account_storage)
     @ add_get ''/accounts/{addr}/proof'' (Api account_proof)
     @ add_post ''/accounts/{addr}/proof/search'' (Api post_proof_search)
     @ add_post ''/accounts/{addr}/proof/search/'' (Api post_proof_search)
     @ add_get ''/accounts/{addr}/transaction-template'' (Api transaction_template)
     @ add_get ''/accounts/{addr}'' (Api account_summary)"

definition logs_routes :: "config \<Rightarrow> route list" where
  "logs_routes cfg =
     add_get ''/logs'' (Api (get_logs cfg)) @ add_post ''/logs/search'' (Api (post_logs_search cfg))
     @ add_post ''/logs/search/'' (Api (post_logs_search cfg))"

definition traces_routes :: "config \<Rightarrow> route list" where
  "traces_routes cfg =
     add_get ''/traces'' (Api (get_traces cfg))
     @ [(''GET'', ''/traces/{hash}/'', Api get_trace), (''GET'', ''/traces/{hash}/{trace_address}'', Api get_trace)]
     @ add_post ''/traces/call'' (Api trace_call_handler) @ add_post ''/traces/call/'' (Api trace_call_handler)
     @ add_post ''/traces/call-many'' (Api trace_call_many_handler)
     @ add_post ''/traces/call-many/'' (Api trace_call_many_handler)
     @ add_post ''/traces/raw-transaction'' (Api trace_raw_transaction_handler)
     @ add_post ''/traces/raw-transaction/'' (Api trace_raw_transaction_handler)
     @ add_post ''/traces/search'' (Api (post_traces_search cfg))
     @ add_post ''/traces/search/'' (Api (post_traces_search cfg))"

definition computed_routes :: "route list" where
  "computed_routes =
     add_post ''/call'' (Api call_endpoint) @ add_post ''/call/'' (Api call_endpoint)
     @ add_post ''/gas-estimate'' (Api gas_estimate) @ add_post ''/gas-estimate/'' (Api gas_estimate)
     @ add_post ''/access-list'' (Api access_list) @ add_post ''/access-list/'' (Api access_list)
     @ add_post ''/simulate'' (Api simulate) @ add_post ''/simulate/'' (Api simulate)
     @ add_post ''/debug-traces/call'' (Api debug_traces_call)
     @ add_post ''/debug-traces/call/'' (Api debug_traces_call)"

definition keccak_routes :: "route list" where
  "keccak_routes = add_post ''/utils/keccak256'' (Api keccak256) @ add_post ''/utils/keccak256/'' (Api keccak256)"

definition streams_routes :: "config \<Rightarrow> route list" where
  "streams_routes cfg =
     add_get ''/streams/blocks'' (Stream (get_streams_blocks cfg))
     @ add_get ''/streams/logs'' (Stream (get_streams_logs cfg))
     @ add_get ''/streams/pending-transactions'' (Stream (get_streams_pending cfg))
     @ add_get ''/streams/sync-status'' (Stream (get_streams_sync_status cfg))"

definition metrics_routes :: "config \<Rightarrow> route list" where
  "metrics_routes cfg = (if metrics_enabled cfg then add_get ''/metrics'' MetricsPage else [])"

definition app_routes :: "config \<Rightarrow> route list" where
  "app_routes cfg =
     health_routes cfg @ chain_routes @ gas_routes @ transactions_routes @ blocks_routes @ accounts_routes
     @ logs_routes cfg @ traces_routes cfg @ computed_routes @ keccak_routes @ streams_routes cfg
     @ metrics_routes cfg"

section \<open>The process and one request\<close>

text \<open>What the router finds: a route of the table with the variables of its path, or one of its errors.\<close>

datatype resolution = Found nat "(string \<times> string) list" | NotFound | NotAllowed

record environment =
  env_config :: config
  resolve :: "request \<Rightarrow> resolution"
  env_client :: client
  call_time :: "nat \<Rightarrow> rat"
  request_time :: rat
  fresh_id :: string

record process =
  p_world :: world
  p_metrics :: metrics
  p_counts :: "(string \<times> int) list"
  p_head :: "int option"
  access_log :: "(string \<times> string \<times> string \<times> int) list"

definition routed :: "environment \<Rightarrow> request \<Rightarrow> (route \<times> (string \<times> string) list) option" where
  "routed env req =
     (case resolve env req of
        Found n vars \<Rightarrow>
          (if n < length (app_routes (env_config env)) then Some (app_routes (env_config env) ! n, vars) else None)
      | _ \<Rightarrow> None)"

definition path_template :: "environment \<Rightarrow> request \<Rightarrow> string" where
  "path_template env req =
     (case routed env req of Some ((meth, tmpl, h), vars) \<Rightarrow> tmpl | None \<Rightarrow> ''__not_found__'')"

text \<open>\<open>observe_upstream\<close> for the calls of one request, with the time each took.\<close>

definition observe_upstream :: "string \<Rightarrow> string \<Rightarrow> rat \<Rightarrow> metrics \<Rightarrow> metrics" where
  "observe_upstream meth status d m = observe_upstream_duration meth d (inc_upstream meth status m)"

fun observe_calls :: "(nat \<Rightarrow> rat) \<Rightarrow> nat \<Rightarrow> (string \<times> string) list \<Rightarrow> metrics \<Rightarrow> metrics" where
  "observe_calls t k [] m = m"
| "observe_calls t k ((meth, status) # os) m = observe_calls t (Suc k) os (observe_upstream meth status (t k) m)"

definition after_calls :: "environment \<Rightarrow> world \<Rightarrow> process \<Rightarrow> process" where
  "after_calls env w' p =
     p\<lparr>p_world := w',
       p_metrics := observe_calls (call_time env) (length (observed (p_world p))) (new_calls (p_world p) w') (p_metrics p)\<rparr>"

definition prometheus_content_type :: string where
  "prometheus_content_type = ''text/plain; version=0.0.4; charset=utf-8''"

definition metrics_page :: "metrics \<Rightarrow> response" where
  "metrics_page m = \<lparr>resp_status = 200, resp_type = prometheus_content_type, resp_body = TextBody (render m),
     resp_headers = []\<rparr>"

definition stream_response :: "nat list list \<Rightarrow> response" where
  "stream_response bs = \<lparr>resp_status = 200, resp_type = ''text/event-stream'', resp_body = BytesBody (concat bs),
     resp_headers = [(''Cache-Control'', ''no-cache''), (''X-Accel-Buffering'', ''no'')]\<rparr>"

definition sse_start :: "process \<Rightarrow> sse_state" where
  "sse_start p = \<lparr>http = p_world p, sse_counts = p_counts p, sse_metrics = p_metrics p, opened_subs = 0,
     closed_subs = 0, prepared = False, attempts = 0, written = []\<rparr>"

definition run_endpoint :: "environment \<Rightarrow> endpoint \<Rightarrow> request \<Rightarrow> process \<Rightarrow> response res \<times> process" where
  "run_endpoint env h req p =
     (case h of
        Api f \<Rightarrow>
          (let (r, w) = f req (c_net (env_client env)) (p_world p) in (r, after_calls env w p))
      | Stream f \<Rightarrow>
          (let (r, s) = f req (env_client env) (sse_start p) in
           (mapR (\<lambda>reply. case reply of Plain resp \<Rightarrow> resp | Streamed \<Rightarrow> stream_response (written s)) r,
            after_calls env (http s) (p\<lparr>p_counts := sse_counts s, p_metrics := sse_metrics s\<rparr>)))
      | MetricsPage \<Rightarrow> (Inr (metrics_page (p_metrics p)), p))"

text \<open>The application's innermost handler: the route, or the router's exception.\<close>

type_synonym handler = "string \<Rightarrow> request \<Rightarrow> process \<Rightarrow> response res \<times> process"

definition app_handler :: "environment \<Rightarrow> handler" where
  "app_handler env rid req p =
     (case routed env req of
        Some ((meth, tmpl, h), vars) \<Rightarrow> run_endpoint env h (req\<lparr>match_info := vars\<rparr>) p
      | None \<Rightarrow> (Inl (if resolve env req = NotAllowed then HTTPException 405 else HTTPNotFound), p))"

section \<open>Middlewares\<close>

text \<open>The request id is an argument of the inner handlers, which read it from the request.\<close>

definition set_header :: "string \<Rightarrow> string \<Rightarrow> response \<Rightarrow> response" where
  "set_header k v resp = resp\<lparr>resp_headers := dset k v (resp_headers resp)\<rparr>"

definition request_id :: "environment \<Rightarrow> request \<Rightarrow> string" where
  "request_id env req =
     (case header_get req ''X-Request-ID'' of
        Some i \<Rightarrow> if i \<noteq> [] then i else fresh_id env
      | None \<Rightarrow> fresh_id env)"

definition request_id_middleware ::
  "environment \<Rightarrow> handler \<Rightarrow> request \<Rightarrow> process \<Rightarrow> response res \<times> process" where
  "request_id_middleware env h req p =
     (let rid = request_id env req; (r, p') = h rid req p in (mapR (set_header ''X-Request-ID'' rid) r, p'))"

text \<open>The status a middleware sees: of the response, of an HTTP exception, or 500.\<close>

definition seen_status :: "response res \<Rightarrow> int" where
  "seen_status r =
     (case r of
        Inr resp \<Rightarrow> resp_status resp
      | Inl HTTPNotFound \<Rightarrow> 404
      | Inl (HTTPException st) \<Rightarrow> st
      | Inl _ \<Rightarrow> 500)"

definition access_log_middleware :: "handler \<Rightarrow> handler" where
  "access_log_middleware h rid req p =
     (let (r, p') = h rid req p in
      (r, p'\<lparr>access_log := access_log p' @ [(rid, req_method req, req_path req, seen_status r)]\<rparr>))"

text \<open>The headers the metrics middleware adds to a response.\<close>

definition upstream_headers :: "string list \<Rightarrow> int option \<Rightarrow> response \<Rightarrow> response res" where
  "upstream_headers meths head resp =
     (let resp1 = (if meths = [] then resp else set_header ''X-Upstream-Method'' (join '','' meths) resp) in
      case head of
        None \<Rightarrow> Inr resp1
      | Some n \<Rightarrow> mapR (\<lambda>s. set_header ''X-Block-Height'' s resp1) (str_of_int n))"

definition metrics_middleware :: "environment \<Rightarrow> handler \<Rightarrow> handler" where
  "metrics_middleware env h rid req p =
     (let (r, p') = h rid req p;
          mt = observe_request_duration (request_time env)
            (inc_request (req_method req) (path_template env req) (seen_status r) (p_metrics p')) in
      (bindE r (upstream_headers (map fst (new_calls (p_world p) (p_world p'))) (p_head p')),
       p'\<lparr>p_metrics := mt\<rparr>))"

text \<open>Every path once, without its trailing slashes, sorted.\<close>

definition normalized_path :: "string \<Rightarrow> string" where
  "normalized_path path =
     (let n = rev (dropWhile (\<lambda>ch. ch = CHR ''/'') (rev path)) in if n = [] then ''/'' else n)"

definition available_url_templates :: "route list \<Rightarrow> string list" where
  "available_url_templates rs = sort (remdups (map (\<lambda>(meth, path, h). normalized_path path) rs))"

definition path_not_supported :: "environment \<Rightarrow> request \<Rightarrow> problem" where
  "path_not_supported env req =
     \<lparr>p_status = 404, type_slug = ''path-not-supported'', title = ''Path not supported'',
      p_detail = Some (''No handler is registered for '' @ req_method req @ '' '' @ req_path req),
      p_instance = Some (req_path req), p_code = None,
      p_data = JObj [(''availableUrls'', JList (map JStr (available_url_templates (app_routes (env_config env)))))]\<rparr>"

definition internal_error :: "string \<Rightarrow> problem" where
  "internal_error path =
     \<lparr>p_status = 500, type_slug = ''internal-error'', title = ''Internal error'', p_detail = None,
      p_instance = Some path, p_code = None, p_data = JNull\<rparr>"

text \<open>A cancellation is not an \<open>Exception\<close>.\<close>

definition mapped_error :: "environment \<Rightarrow> request \<Rightarrow> exn \<Rightarrow> response res" where
  "mapped_error env req e =
     (case e of
        UpstreamJsonRpcError code msg data \<Rightarrow>
          Inr (problem_response (at_path (req_path req) (map_jsonrpc_error code msg data)))
      | UpstreamError msg \<Rightarrow> Inr (upstream_problem (req_path req) msg)
      | HTTPNotFound \<Rightarrow> Inr (problem_response (path_not_supported env req))
      | HTTPException st \<Rightarrow> Inl e
      | CancelledError \<Rightarrow> Inl e
      | _ \<Rightarrow> Inr (problem_response (internal_error (req_path req))))"

definition error_mapping_middleware :: "environment \<Rightarrow> handler \<Rightarrow> handler" where
  "error_mapping_middleware env h rid req p =
     (let (r, p') = h rid req p in (catchE r (mapped_error env req), p'))"

text \<open>The application: the first middleware of the list is the outermost.\<close>

definition serve :: "environment \<Rightarrow> request \<Rightarrow> process \<Rightarrow> response res \<times> process" where
  "serve env =
     request_id_middleware env
       (access_log_middleware (metrics_middleware env (error_mapping_middleware env (app_handler env))))"

text \<open>The calls nobody waits for any more end once the response is on its way.\<close>

definition settle_late :: "environment \<Rightarrow> process \<Rightarrow> process" where
  "settle_late env p =
     (let w = p_world p in after_calls env (w\<lparr>observed := observed w @ late w, late := []\<rparr>) p)"

fun serve_all :: "(environment \<times> request) list \<Rightarrow> process \<Rightarrow> process" where
  "serve_all [] p = p"
| "serve_all ((env, req) # rs) p = serve_all rs (settle_late env (snd (serve env req p)))"

section \<open>Log lines\<close>

text \<open>The format of the log, and a line of the JSON format from a record's own fields and its extra ones.\<close>

definition use_json_logs :: "string option \<Rightarrow> bool \<Rightarrow> bool" where
  "use_json_logs fmt stderr_is_tty = (fmt = Some ''json'' \<or> fmt = None \<and> \<not> stderr_is_tty)"

definition log_keys :: "string list" where
  "log_keys = [''request_id'', ''method'', ''path'', ''status'', ''latency_ms'', ''upstream_method'',
     ''upstream_latency_ms'', ''listen'', ''upstream_http'']"

definition json_log_line :: "string \<Rightarrow> string \<Rightarrow> string \<Rightarrow> string \<Rightarrow> dict \<Rightarrow> string option \<Rightarrow> string res" where
  "json_log_line tm level logger msg extra exc =
     json_dumps_res (JObj
       ([(''time'', JStr tm), (''level'', JStr level), (''logger'', JStr logger), (''message'', JStr msg)]
        @ List.map_filter (\<lambda>k. map_option (Pair k) (dget k extra)) log_keys
        @ (case exc of None \<Rightarrow> [] | Some e \<Rightarrow> [(''exception'', JStr e)])))"

section \<open>What a request leaves alone\<close>

text \<open>A relation that the books of a stream keep too is kept by the whole driver.\<close>

locale stream_relation = sio_relation +
  assumes R_publish: "R s (publish_sse_gauge label d s)"
    and R_opened: "R s (s\<lparr>opened_subs := k\<rparr>)"
    and R_closed: "R s (close_events s)"
begin

lemma keeps_finally: "keepsS R m \<Longrightarrow> (\<And>s. R s (fin s)) \<Longrightarrow> keepsS R (finallyS m fin)"
  unfolding keepsS_def finallyS_def by (auto simp: case_prod_beta Let_def intro: R_trans)

lemma keeps_run_stream:
  assumes "\<And>f i. replay = Some f \<Longrightarrow> keepsS R (f i)"
  shows "keepsS R (run_stream cfg req kind params fmt label gap replay)"
proof -
  let ?m = "finallyS (bindS open_sse (\<lambda>u. bindS (resume_stream req replay gap) (\<lambda>u.
      bindS (finallyS (pump cfg fmt gap) close_events) (\<lambda>u. retS Streamed)))) (publish_sse_gauge label (-1))"
  have m: "keepsS R ?m"
    by (intro keeps_finally keeps_rules keeps_open keeps_resume keeps_pump R_publish R_closed assms)
  have "R s (snd (?m c (publish_sse_gauge label 1 (s\<lparr>opened_subs := k\<rparr>))))" for c s k
    using R_trans [OF R_trans [OF R_opened R_publish]] m unfolding keepsS_def by blast
  then show ?thesis
    unfolding keepsS_def run_stream_def
    by (auto simp: R_refl split: sum.split exn.split)
qed

lemma keeps_streams:
  "keepsS R (get_streams_blocks cfg req)" "keepsS R (get_streams_logs cfg req)"
  "keepsS R (get_streams_pending cfg req)" "keepsS R (get_streams_sync_status cfg req)"
  unfolding get_streams_blocks_def get_streams_logs_def get_streams_pending_def get_streams_sync_status_def Let_def
  by (auto intro!: keeps_run_stream keeps_replay_blocks keeps_replay_logs keeps_ret split: sum.split)

end

interpretation hist: stream_relation same_history
  by unfold_locales
    (simp_all add: same_history_def history_step_refl publish_sse_gauge_def Let_def close_events_def)

definition same_counters :: "sse_state \<Rightarrow> sse_state \<Rightarrow> bool" where
  "same_counters s s' \<longleftrightarrow> m_requests (sse_metrics s') = m_requests (sse_metrics s)"

interpretation counters: stream_relation same_counters
  by unfold_locales
    (auto simp: same_counters_def publish_sse_gauge_def Let_def close_events_def set_sse_connections_def
      resp_write_def callS_def split: option.split prod.split)

text \<open>Every endpoint of the table.\<close>

fun endpoint_keeps :: "endpoint \<Rightarrow> bool" where
  "endpoint_keeps (Api f) = (\<forall>req. keeps history_step (f req))"
| "endpoint_keeps (Stream f) = (\<forall>req. keepsS same_history (f req) \<and> keepsS same_counters (f req))"
| "endpoint_keeps MetricsPage = True"

lemma add_get_keeps: "endpoint_keeps h \<Longrightarrow> list_all (\<lambda>(meth, path, h). endpoint_keeps h) (add_get path h)"
  by (simp add: add_get_def)

lemma add_post_keeps: "endpoint_keeps h \<Longrightarrow> list_all (\<lambda>(meth, path, h). endpoint_keeps h) (add_post path h)"
  by (simp add: add_post_def)

lemma tables_keep:
  "list_all (\<lambda>(meth, path, h). endpoint_keeps h) (health_routes cfg)"
  "list_all (\<lambda>(meth, path, h). endpoint_keeps h) chain_routes"
  "list_all (\<lambda>(meth, path, h). endpoint_keeps h) gas_routes"
  "list_all (\<lambda>(meth, path, h). endpoint_keeps h) transactions_routes"
  "list_all (\<lambda>(meth, path, h). endpoint_keeps h) blocks_routes"
  "list_all (\<lambda>(meth, path, h). endpoint_keeps h) accounts_routes"
  "list_all (\<lambda>(meth, path, h). endpoint_keeps h) (logs_routes cfg)"
  "list_all (\<lambda>(meth, path, h). endpoint_keeps h) (traces_routes cfg)"
  "list_all (\<lambda>(meth, path, h). endpoint_keeps h) computed_routes"
  "list_all (\<lambda>(meth, path, h). endpoint_keeps h) keccak_routes"
  "list_all (\<lambda>(meth, path, h). endpoint_keeps h) (streams_routes cfg)"
  "list_all (\<lambda>(meth, path, h). endpoint_keeps h) (metrics_routes cfg)"
  unfolding health_routes_def chain_routes_def gas_routes_def transactions_routes_def blocks_routes_def
    accounts_routes_def logs_routes_def traces_routes_def computed_routes_def keccak_routes_def
    streams_routes_def metrics_routes_def
  by (simp_all add: add_get_keeps add_post_keeps history_rules hist.keeps_streams counters.keeps_streams)

lemma app_routes_keep: "list_all (\<lambda>(meth, path, h). endpoint_keeps h) (app_routes cfg)"
  by (simp add: app_routes_def tables_keep)

lemma routed_keeps: "routed env req = Some ((meth, tmpl, h), vars) \<Longrightarrow> endpoint_keeps h"
  using app_routes_keep [of "env_config env"]
  by (fastforce simp: routed_def list_all_length split: resolution.splits if_splits)

lemma observe_calls_requests: "m_requests (observe_calls t k os m) = m_requests m"
  by (induction t k os m rule: observe_calls.induct)
    (simp_all add: observe_upstream_def inc_upstream_def observe_upstream_duration_def)

definition same_accounts :: "process \<Rightarrow> process \<Rightarrow> bool" where
  "same_accounts p p' \<longleftrightarrow> history_step (p_world p) (p_world p')
     \<and> m_requests (p_metrics p') = m_requests (p_metrics p) \<and> p_head p' = p_head p \<and> access_log p' = access_log p"

lemma after_calls_frame [simp]:
  "p_world (after_calls env w p) = w" "m_requests (p_metrics (after_calls env w p)) = m_requests (p_metrics p)"
  "p_head (after_calls env w p) = p_head p" "access_log (after_calls env w p) = access_log p"
  by (simp_all add: after_calls_def observe_calls_requests)

lemma run_endpoint_keeps:
  assumes "endpoint_keeps h" "run_endpoint env h req p = (r, p')"
  shows "same_accounts p p'"
proof (cases h)
  case (Api f)
  obtain q w where f: "f req (c_net (env_client env)) (p_world p) = (q, w)" by fastforce
  have "keeps history_step (f req)" using assms(1) Api by simp
  then have "history_step (p_world p) w" unfolding keeps_def by (metis f snd_conv)
  with assms(2) Api f show ?thesis by (auto simp: run_endpoint_def same_accounts_def)
next
  case (Stream f)
  obtain q s where f: "f req (env_client env) (sse_start p) = (q, s)" by fastforce
  have "keepsS same_history (f req)" "keepsS same_counters (f req)" using assms(1) Stream by simp_all
  then have "same_history (sse_start p) s" "same_counters (sse_start p) s"
    unfolding keepsS_def by (metis f snd_conv)+
  with assms(2) Stream f show ?thesis
    by (auto simp: run_endpoint_def same_accounts_def same_history_def same_counters_def sse_start_def)
next
  case MetricsPage
  with assms(2) show ?thesis by (auto simp: run_endpoint_def same_accounts_def history_step_refl)
qed

lemma app_handler_keeps:
  assumes "app_handler env rid req p = (r, p')"
  shows "same_accounts p p'"
proof (cases "routed env req")
  case None
  with assms show ?thesis by (auto simp: app_handler_def same_accounts_def history_step_refl)
next
  case (Some x)
  obtain meth tmpl h vars where x: "x = ((meth, tmpl, h), vars)" by (metis prod.collapse)
  have "run_endpoint env h (req\<lparr>match_info := vars\<rparr>) p = (r, p')"
    using assms Some x by (simp add: app_handler_def)
  with routed_keeps [OF Some [unfolded x]] show ?thesis by (rule run_endpoint_keeps)
qed

section \<open>One request through the middlewares\<close>

definition head_prints :: "process \<Rightarrow> bool" where
  "head_prints p \<longleftrightarrow> (\<forall>n. p_head p = Some n \<longrightarrow> is_ok (str_of_int n))"

definition request_labels :: "environment \<Rightarrow> request \<Rightarrow> response res \<Rightarrow> labels" where
  "request_labels env req r =
     [(''method'', req_method req), (''path_template'', path_template env req), (''status'', show_int (seen_status r))]"

lemma serve_eq:
  assumes "app_handler env (request_id env req) req p = (r0, p1)"
  shows "serve env req p =
    (let r1 = catchE r0 (mapped_error env req);
         r2 = bindE r1 (upstream_headers (map fst (new_calls (p_world p) (p_world p1))) (p_head p1)) in
     (mapR (set_header ''X-Request-ID'' (request_id env req)) r2,
      p1\<lparr>p_metrics := observe_request_duration (request_time env)
            (inc_request (req_method req) (path_template env req) (seen_status r1) (p_metrics p1)),
         access_log := access_log p1 @ [(request_id env req, req_method req, req_path req, seen_status r2)]\<rparr>))"
  using assms
  by (simp add: serve_def request_id_middleware_def access_log_middleware_def metrics_middleware_def
      error_mapping_middleware_def Let_def)

lemma set_header_simps [simp]:
  "resp_status (set_header k v resp) = resp_status resp" "resp_type (set_header k v resp) = resp_type resp"
  "resp_body (set_header k v resp) = resp_body resp"
  "dget k (resp_headers (set_header k v resp)) = Some v"
  "k' \<noteq> k \<Longrightarrow> dget k' (resp_headers (set_header k v resp)) = dget k' (resp_headers resp)"
  by (simp_all add: set_header_def)

lemma upstream_headers_ok:
  assumes "\<And>n. head = Some n \<Longrightarrow> is_ok (str_of_int n)"
  shows "\<exists>resp'. upstream_headers meths head resp = Inr resp' \<and> resp_status resp' = resp_status resp
    \<and> resp_type resp' = resp_type resp \<and> resp_body resp' = resp_body resp
    \<and> (meths \<noteq> [] \<longrightarrow> dget ''X-Upstream-Method'' (resp_headers resp') = Some (join '','' meths))"
proof (cases head)
  case None
  then show ?thesis by (simp add: upstream_headers_def Let_def)
next
  case (Some n)
  then obtain t where "str_of_int n = Inr t" using assms [of n] by (auto simp: is_ok_iff)
  with Some show ?thesis by (simp add: upstream_headers_def Let_def)
qed

lemma mapped_error_cases: "mapped_error env req e = Inl e' \<Longrightarrow> e' = e \<and> (e = CancelledError \<or> (\<exists>st. e = HTTPException st))"
  by (cases e) (auto simp: mapped_error_def)

lemma request_counted:
  "c_values (m_requests (observe_request_duration d (inc_request meth tmpl st m))) =
     (let ls = [(''method'', meth), (''path_template'', tmpl), (''status'', show_int st)] in
      dset ls ((case dget ls (c_values (m_requests m)) of Some n \<Rightarrow> n | None \<Rightarrow> 0) + 1) (c_values (m_requests m)))"
  by (simp add: observe_request_duration_def inc_request_def counter_inc_def Let_def)

lemma request_accounted_parts:
  assumes "head_prints p" and "serve env req p = (r, p')"
  shows "\<And>ls. dget ls (c_values (m_requests (p_metrics p'))) =
      (if ls = request_labels env req r
       then Some ((case dget ls (c_values (m_requests (p_metrics p))) of Some n \<Rightarrow> n | None \<Rightarrow> 0) + 1)
       else dget ls (c_values (m_requests (p_metrics p))))"
    and "access_log p' = access_log p @ [(request_id env req, req_method req, req_path req, seen_status r)]"
    and "r = Inl e \<Longrightarrow> e = CancelledError \<or> (\<exists>st. e = HTTPException st)"
    and "r = Inr resp \<Longrightarrow> dget ''X-Request-ID'' (resp_headers resp) = Some (request_id env req)
      \<and> (new_calls (p_world p) (p_world p') \<noteq> [] \<longrightarrow>
           dget ''X-Upstream-Method'' (resp_headers resp) = Some (join '','' (map fst (new_calls (p_world p) (p_world p')))))"
proof -
  obtain r0 p1 where h: "app_handler env (request_id env req) req p = (r0, p1)" by fastforce
  note same = app_handler_keeps [OF h, unfolded same_accounts_def]
  define r1 where "r1 = catchE r0 (mapped_error env req)"
  define r2 where "r2 = bindE r1 (upstream_headers (map fst (new_calls (p_world p) (p_world p1))) (p_head p1))"
  have head: "\<And>n. p_head p1 = Some n \<Longrightarrow> is_ok (str_of_int n)"
    using assms(1) same by (simp add: head_prints_def)
  have r: "r = mapR (set_header ''X-Request-ID'' (request_id env req)) r2"
    and p': "p' = p1\<lparr>p_metrics := observe_request_duration (request_time env)
            (inc_request (req_method req) (path_template env req) (seen_status r1) (p_metrics p1)),
         access_log := access_log p1 @ [(request_id env req, req_method req, req_path req, seen_status r2)]\<rparr>"
    using assms(2) serve_eq [OF h] by (simp_all add: r1_def r2_def Let_def)
  have w: "p_world p' = p_world p1" by (simp add: p')
  have step: "(\<exists>e. r1 = Inl e \<and> r = Inl e \<and> r2 = Inl e) \<or> (\<exists>a b. r1 = Inr a \<and> r2 = Inr b \<and> resp_status b = resp_status a
     \<and> r = Inr (set_header ''X-Request-ID'' (request_id env req) b)
     \<and> (new_calls (p_world p) (p_world p1) \<noteq> [] \<longrightarrow> dget ''X-Upstream-Method'' (resp_headers b) =
          Some (join '','' (map fst (new_calls (p_world p) (p_world p1))))))"
  proof (cases r1)
    case (Inl e)
    then show ?thesis by (simp add: r r2_def)
  next
    case (Inr a)
    obtain b where "upstream_headers (map fst (new_calls (p_world p) (p_world p1))) (p_head p1) a = Inr b"
      "resp_status b = resp_status a"
      "map fst (new_calls (p_world p) (p_world p1)) \<noteq> [] \<longrightarrow> dget ''X-Upstream-Method'' (resp_headers b) =
          Some (join '','' (map fst (new_calls (p_world p) (p_world p1))))"
      using upstream_headers_ok [OF head] by blast
    with Inr show ?thesis by (simp add: r r2_def)
  qed
  then have st: "seen_status r1 = seen_status r" "seen_status r2 = seen_status r"
    by (auto simp: seen_status_def)
  show "dget ls (c_values (m_requests (p_metrics p'))) =
      (if ls = request_labels env req r
       then Some ((case dget ls (c_values (m_requests (p_metrics p))) of Some n \<Rightarrow> n | None \<Rightarrow> 0) + 1)
       else dget ls (c_values (m_requests (p_metrics p))))" for ls
    using same by (simp add: p' request_counted Let_def request_labels_def st)
  show "access_log p' = access_log p @ [(request_id env req, req_method req, req_path req, seen_status r)]"
    using same by (simp add: p' st)
  show "r = Inl e \<Longrightarrow> e = CancelledError \<or> (\<exists>st. e = HTTPException st)"
    using step mapped_error_cases [of env req] by (auto simp: r1_def catchE_eq_Inl_iff)
  show "r = Inr resp \<Longrightarrow> dget ''X-Request-ID'' (resp_headers resp) = Some (request_id env req)
      \<and> (new_calls (p_world p) (p_world p') \<noteq> [] \<longrightarrow>
           dget ''X-Upstream-Method'' (resp_headers resp) = Some (join '','' (map fst (new_calls (p_world p) (p_world p')))))"
    using step by (auto simp: w)
qed

text \<open>
  C9. Every request is accounted for, whatever its handler does: exactly one count of the request
  counter goes up by one, that of its method, its route and the status it ends with; one line is
  logged, with the same status; and the answer is a response that carries the request's id and the
  upstream methods called for it, in order (a stream has sent its headers before, so there they come too
  late). The only exceptions are a cancellation and the router's own HTTP errors other than 404, which
  leave without the id.
\<close>

theorem request_accounted:
  assumes "head_prints p" and "serve env req p = (r, p')"
  shows "(\<forall>ls. dget ls (c_values (m_requests (p_metrics p'))) =
      (if ls = request_labels env req r
       then Some ((case dget ls (c_values (m_requests (p_metrics p))) of Some n \<Rightarrow> n | None \<Rightarrow> 0) + 1)
       else dget ls (c_values (m_requests (p_metrics p)))))
    \<and> (access_log p' = access_log p @ [(request_id env req, req_method req, req_path req, seen_status r)])
    \<and> (r = Inl e \<longrightarrow> e = CancelledError \<or> (\<exists>st. e = HTTPException st))
    \<and> (r = Inr resp \<longrightarrow> dget ''X-Request-ID'' (resp_headers resp) = Some (request_id env req)
      \<and> (new_calls (p_world p) (p_world p') \<noteq> [] \<longrightarrow>
           dget ''X-Upstream-Method'' (resp_headers resp) = Some (join '','' (map fst (new_calls (p_world p) (p_world p'))))))"
  using request_accounted_parts [OF assms] by blast

text \<open>A process, and an environment whose router has one answer.\<close>

definition sample_process :: process where
  "sample_process = \<lparr>p_world = fresh, p_metrics = new_metrics, p_counts = [], p_head = None, access_log = []\<rparr>"

definition sample_env :: "resolution \<Rightarrow> json \<Rightarrow> environment" where
  "sample_env res v = \<lparr>env_config = sample_config, resolve = (\<lambda>req. res), env_client = good_client (constant_net v) [],
     call_time = (\<lambda>k. 0), request_time = 0, fresh_id = ''4f''\<rparr>"

lemma sample_prints: "head_prints sample_process"
  by (simp add: head_prints_def sample_process_def)

theorem request_accounted_witness:
  "\<exists>resp p'. serve (sample_env (Found 0 []) JNull) plain_get sample_process = (Inr resp, p')
     \<and> dget ''X-Request-ID'' (resp_headers resp) = Some ''4f''
     \<and> access_log p' = [(''4f'', ''GET'', ''/streams/blocks'', 200)]"
proof -
  let ?env = "sample_env (Found 0 []) JNull"
  obtain r p' where serve: "serve ?env plain_get sample_process = (r, p')" by fastforce
  have id: "request_id ?env plain_get = ''4f''"
    by (simp add: request_id_def header_get_def plain_get_def sample_env_def)
  have route: "routed ?env plain_get = Some ((''GET'', ''/health'', Api health), [])"
    by (simp add: routed_def sample_env_def app_routes_def health_routes_def add_get_def)
  obtain resp p1 where "app_handler ?env ''4f'' plain_get sample_process = (Inr resp, p1)" "resp_status resp = 200"
    by (simp add: app_handler_def route run_endpoint_def health_def reply_json_def liftI_def json_reply_def Let_def)
  moreover have "p_head p1 = None"
    using app_handler_keeps [OF calculation(1)] by (simp add: same_accounts_def sample_process_def)
  ultimately have "\<exists>resp. r = Inr resp \<and> resp_status resp = 200"
    using serve serve_eq [of ?env plain_get sample_process "Inr resp" p1]
    by (auto simp: id Let_def upstream_headers_def)
  then obtain resp2 where r: "r = Inr resp2" "resp_status resp2 = 200" by blast
  with request_accounted [OF sample_prints serve, where e = TypeError and resp = resp2] serve id show ?thesis
    by (auto simp: seen_status_def plain_get_def sample_process_def)
qed

text \<open>
  The statuses of errors: a JSON-RPC error has its mapped status, an unreachable or malformed
  upstream is a 502, and any other exception of a handler, a timeout among them, a 500; all are
  problem bodies.
\<close>

lemma error_statuses:
  assumes "head_prints p" and "app_handler env (request_id env req) req p = (Inl e, p1)"
    and "e \<noteq> CancelledError" "\<nexists>st. e = HTTPException st"
  shows "\<exists>resp p'. serve env req p = (Inr resp, p') \<and> resp_type resp = ''application/problem+json''
    \<and> resp_status resp = (case e of
        UpstreamJsonRpcError code msg data \<Rightarrow> p_status (map_jsonrpc_error code msg data)
      | UpstreamError msg \<Rightarrow> 502
      | HTTPNotFound \<Rightarrow> 404
      | _ \<Rightarrow> 500)"
proof -
  have head: "\<And>n. p_head p1 = Some n \<Longrightarrow> is_ok (str_of_int n)"
    using assms(1) app_handler_keeps [OF assms(2)] by (simp add: head_prints_def same_accounts_def)
  obtain resp where m: "mapped_error env req e = Inr resp" and t: "resp_type resp = ''application/problem+json''"
    and st: "resp_status resp = (case e of
        UpstreamJsonRpcError code msg data \<Rightarrow> p_status (map_jsonrpc_error code msg data)
      | UpstreamError msg \<Rightarrow> 502
      | HTTPNotFound \<Rightarrow> 404
      | _ \<Rightarrow> 500)"
    using assms(3,4)
    by (cases e) (simp_all add: mapped_error_def problem_response_def at_path_def upstream_problem_def
        simple_problem_def path_not_supported_def internal_error_def)
  obtain resp' where "upstream_headers (map fst (new_calls (p_world p) (p_world p1))) (p_head p1) resp = Inr resp'"
    "resp_status resp' = resp_status resp" "resp_type resp' = resp_type resp"
    using upstream_headers_ok [OF head] by blast
  then show ?thesis
    using m t st by (simp add: serve_eq [OF assms(2)] Let_def)
qed

lemma error_statuses_witness:
  "\<exists>resp p'. serve (sample_env NotFound JNull) plain_get sample_process = (Inr resp, p')
     \<and> resp_type resp = ''application/problem+json'' \<and> resp_status resp = 404"
  using error_statuses [OF sample_prints, of "sample_env NotFound JNull" plain_get HTTPNotFound sample_process]
  by (simp add: app_handler_def routed_def sample_env_def)

lemma serve_history: "history_step (p_world p) (p_world (snd (serve env req p)))"
proof -
  obtain r0 p1 where h: "app_handler env (request_id env req) req p = (r0, p1)" by fastforce
  have "p_world (snd (serve env req p)) = p_world p1" by (simp add: serve_eq [OF h] Let_def)
  with app_handler_keeps [OF h] show ?thesis by (simp add: same_accounts_def)
qed

lemma settle_late_history: "history_step (p_world p) (p_world (settle_late env p))"
  by (simp add: settle_late_def Let_def history_step_def)

lemma serve_all_history: "history_step (p_world p) (p_world (serve_all rs p))"
  by (induction rs p rule: serve_all.induct)
    (auto intro: history_step_refl history_step_trans [OF history_step_trans [OF serve_history settle_late_history]])

lemma serve_all_late: "late (p_world p) = [] \<Longrightarrow> late (p_world (serve_all rs p)) = []"
  by (induction rs p rule: serve_all.induct) (simp_all add: settle_late_def Let_def)

lemma upstream_ids_unique_parts:
  assumes "posted (p_world p) = []" "observed (p_world p) = []" "late (p_world p) = []" "next_id (p_world p) = 1"
  shows "sorted_wrt (<) (map body_id (posted (p_world (serve_all rs p))))"
    and "b \<in> set (posted (p_world (serve_all rs p))) \<Longrightarrow> 1 \<le> body_id b \<and> body_id b < next_id (p_world (serve_all rs p))"
    and "int (length (observed (p_world (serve_all rs p)))) = next_id (p_world (serve_all rs p)) - 1"
  using serve_all_history [of p rs] serve_all_late [OF assms(3), of rs] assms by (auto simp: history_step_def)

text \<open>
  C13. No two requests to the upstream share an id: over any sequence of requests to any routes of
  the API, answered or not, the posted JSON-RPC ids strictly increase and stay below the next one,
  and every call that was numbered was observed, those nobody waited for any more after the response.
\<close>

theorem upstream_ids_unique:
  assumes "posted (p_world p) = []" "observed (p_world p) = []" "late (p_world p) = []" "next_id (p_world p) = 1"
  shows "(sorted_wrt (<) (map body_id (posted (p_world (serve_all rs p)))))
    \<and> (b \<in> set (posted (p_world (serve_all rs p))) \<longrightarrow> 1 \<le> body_id b \<and> body_id b < next_id (p_world (serve_all rs p)))
    \<and> (int (length (observed (p_world (serve_all rs p)))) = next_id (p_world (serve_all rs p)) - 1)"
  using upstream_ids_unique_parts [OF assms] by blast

theorem upstream_ids_unique_witness:
  "sorted_wrt (<) (map body_id (posted (p_world (serve_all
      [(sample_env (Found 2 []) JNull, plain_get), (sample_env (Found 4 []) JNull, plain_get)] sample_process))))"
  using upstream_ids_unique [of sample_process, where b = JNull
      and rs = "[(sample_env (Found 2 []) JNull, plain_get), (sample_env (Found 4 []) JNull, plain_get)]"]
  by (simp add: sample_process_def fresh_def del: serve_all.simps)

text \<open>
  A path no route matches is answered with a 404 problem that lists the routes that exist: the
  paths of the table without their trailing slashes, each once, in order.
\<close>

lemma unknown_path_lists_routes:
  assumes "head_prints p" and "resolve env req = NotFound"
  shows "\<exists>resp p' urls. serve env req p = (Inr resp, p') \<and> resp_status resp = 404
    \<and> resp_body resp = JsonBody (JObj (to_dict (path_not_supported env req)))
    \<and> dget ''data'' (to_dict (path_not_supported env req)) = Some (JObj [(''availableUrls'', JList (map JStr urls))])
    \<and> sorted urls \<and> distinct urls
    \<and> set urls = (\<lambda>(meth, path, h). normalized_path path) ` set (app_routes (env_config env))"
proof -
  let ?urls = "available_url_templates (app_routes (env_config env))"
  let ?p = "path_not_supported env req"
  have h: "app_handler env (request_id env req) req p = (Inl HTTPNotFound, p)"
    using assms(2) by (simp add: app_handler_def routed_def)
  have head: "\<And>n. p_head p = Some n \<Longrightarrow> is_ok (str_of_int n)"
    using assms(1) by (simp add: head_prints_def)
  obtain resp' where "upstream_headers (map fst (new_calls (p_world p) (p_world p))) (p_head p) (problem_response ?p) = Inr resp'"
    "resp_status resp' = resp_status (problem_response ?p)" "resp_body resp' = resp_body (problem_response ?p)"
    using upstream_headers_ok [OF head] by blast
  then have "\<exists>resp p'. serve env req p = (Inr resp, p') \<and> resp_status resp = 404 \<and> resp_body resp = JsonBody (JObj (to_dict ?p))"
    by (simp add: serve_eq [OF h] Let_def mapped_error_def problem_response_def path_not_supported_def)
  moreover have "dget ''data'' (to_dict ?p) = Some (JObj [(''availableUrls'', JList (map JStr ?urls))])"
    by (simp add: to_dict_def path_not_supported_def opt_field_def)
  moreover have "sorted ?urls" "distinct ?urls"
    "set ?urls = (\<lambda>(meth, path, h). normalized_path path) ` set (app_routes (env_config env))"
    by (simp_all add: available_url_templates_def)
  ultimately show ?thesis by blast
qed

lemma unknown_path_lists_routes_witness:
  "\<exists>resp p' urls. serve (sample_env NotFound JNull) plain_get sample_process = (Inr resp, p') \<and> resp_status resp = 404
    \<and> distinct urls \<and> set urls = (\<lambda>(meth, path, h). normalized_path path) ` set (app_routes sample_config)"
proof -
  have "resolve (sample_env NotFound JNull) plain_get = NotFound" "env_config (sample_env NotFound JNull) = sample_config"
    by (simp_all add: sample_env_def)
  with unknown_path_lists_routes [OF sample_prints this(1)] show ?thesis by metis
qed

end
