(* ===== verification/Startup.thy ===== *)
theory Startup
  imports Wiring Server
begin

text \<open>
  The entry point, \<open>__main__.py\<close>: the set-up of logging, the start and the orderly stop of the process as
  a sequence of actions with their outcomes, and the exit code. What sockets, signals and the upstream
  do is a parameter (record \<open>outside\<close>). The facts: when the API is served whatever the WebSocket does,
  the order in which everything is stopped, and how a start can fail.
\<close>

section \<open>Logging\<close>

record log_setup =
  json_lines :: bool
  root_level :: int

definition level_map :: "(string \<times> int) list" where
  "level_map = [(''debug'', 10), (''info'', 20), (''warn'', 30), (''error'', 40)]"

definition setup_logging :: "string \<Rightarrow> string option \<Rightarrow> bool \<Rightarrow> log_setup res" where
  "setup_logging level fmt stderr_is_tty =
     (case dget level level_map of
        None \<Rightarrow> Inl (KeyError level)
      | Some n \<Rightarrow> Inr \<lparr>json_lines = use_json_logs fmt stderr_is_tty, root_level = n\<rparr>)"

section \<open>Starting and stopping the head tracker\<close>

text \<open>Whether the task exists, and whether its stop event is set.\<close>

record head_task =
  has_task :: bool
  stop_set :: bool

definition start_tracker :: "head_task \<Rightarrow> head_task" where
  "start_tracker t = (if has_task t then t else t\<lparr>has_task := True\<rparr>)"

text \<open>The task is cancelled and awaited; what it raises is suppressed.\<close>

definition stop_tracker :: "head_task \<Rightarrow> head_task" where
  "stop_tracker t = (if \<not> has_task t then t else t\<lparr>stop_set := True, has_task := False\<rparr>)"

section \<open>The run of the process\<close>

text \<open>What the process does, in the order it does it.\<close>

datatype action =
    OpenSession | StartWs | WarnWs exn | StartHead | AddRoutes "(string \<times> string) list"
  | SetUp | Bind string int | LogListening | OnSignal string | AwaitStop
  | CleanUp | StopHead | StopWs | CloseSession | PrintVersion | PrintError string

text \<open>
  The outside: the WebSocket client when its first attempts were over, if they were within five
  seconds; whether that wait is cancelled; how the set-up of the web runner, the binding of the socket,
  the wait for a signal, the cleanup and the stop of the WebSocket end; whether the event loop can
  install signal handlers; and whether a cancellation is due to Ctrl-C.
\<close>

record outside =
  ws_started :: "ws_client option"
  ws_wait_cancelled :: bool
  setup_outcome :: "unit res"
  bind_outcome :: "string \<Rightarrow> int \<Rightarrow> unit res"
  can_handle_signals :: bool
  stop_outcome :: "unit res"
  cleanup_outcome :: "unit res"
  ws_stop_outcome :: "unit res"
  ctrl_c :: bool

text \<open>A computation that acts and may raise: what was done before an exception stays done.\<close>

type_synonym 'a script = "action list \<times> 'a res"

definition bindA :: "'a script \<Rightarrow> ('a \<Rightarrow> 'b script) \<Rightarrow> 'b script" where
  "bindA s f =
     (case snd s of
        Inl e \<Rightarrow> (fst s, Inl e)
      | Inr x \<Rightarrow> (fst s @ fst (f x), snd (f x)))"

definition does :: "action \<Rightarrow> unit script" where
  "does a = ([a], Inr ())"

definition attempt_to :: "action \<Rightarrow> unit res \<Rightarrow> unit script" where
  "attempt_to a r = ([a], r)"

definition givesA :: "'a res \<Rightarrow> 'a script" where
  "givesA r = ([], r)"

text \<open>\<open>wait_for(ws_client.start(), 5)\<close>: what it raises.\<close>

definition await_ws :: "outside \<Rightarrow> unit res" where
  "await_ws ext =
     (if ws_wait_cancelled ext then Inl CancelledError
      else (case ws_started ext of None \<Rightarrow> Inl TimeoutError | Some s \<Rightarrow> start_result s))"

definition start_ws :: "outside \<Rightarrow> unit script" where
  "start_ws ext =
     (case await_ws ext of
        Inr u \<Rightarrow> ([StartWs], Inr ())
      | Inl e \<Rightarrow> if e = CancelledError then ([StartWs], Inl e) else ([StartWs, WarnWs e], Inr ()))"

definition signal_actions :: "outside \<Rightarrow> action list" where
  "signal_actions ext = (if can_handle_signals ext then [OnSignal ''SIGINT'', OnSignal ''SIGTERM''] else [])"

text \<open>The part after the listen address is split.\<close>

definition serve_until_stopped :: "outside \<Rightarrow> string \<times> int \<Rightarrow> unit script" where
  "serve_until_stopped ext addr =
     bindA (attempt_to SetUp (setup_outcome ext)) (\<lambda>u.
     bindA (attempt_to (Bind (fst addr) (snd addr)) (bind_outcome ext (fst addr) (snd addr))) (\<lambda>u.
     bindA (LogListening # signal_actions ext, Inr ()) (\<lambda>u.
     bindA (attempt_to AwaitStop (stop_outcome ext)) (\<lambda>u.
     bindA (attempt_to CleanUp (cleanup_outcome ext)) (\<lambda>u.
     bindA (does StopHead) (\<lambda>u.
       attempt_to StopWs (ws_stop_outcome ext)))))))"

definition route_names :: "config \<Rightarrow> (string \<times> string) list" where
  "route_names cfg = map (\<lambda>(meth, path, h). (meth, path)) (app_routes cfg)"

text \<open>\<open>_run\<close>; the client session is closed however its block is left.\<close>

definition run_app :: "outside \<Rightarrow> config \<Rightarrow> unit script" where
  "run_app ext cfg =
     (let body = bindA (start_ws ext) (\<lambda>u.
            bindA (does StartHead) (\<lambda>u.
            bindA (does (AddRoutes (route_names cfg))) (\<lambda>u.
            bindA (givesA (split_listen (listen cfg))) (serve_until_stopped ext)))) in
      (OpenSession # fst body @ [CloseSession], snd body))"

text \<open>The exit code of \<open>main\<close>, or the exception that leaves it; \<open>asyncio.run\<close> turns a Ctrl-C into its own.\<close>

definition exit_code :: "outside \<Rightarrow> unit res \<Rightarrow> int res" where
  "exit_code ext r =
     (case r of
        Inr u \<Rightarrow> Inr 0
      | Inl e \<Rightarrow> if e = CancelledError \<and> ctrl_c ext then Inr 130 else Inl e)"

definition main :: "outside \<Rightarrow> bool \<Rightarrow> string list \<Rightarrow> (string \<times> string) list \<Rightarrow> int script" where
  "main ext stderr_is_tty argv env =
     (if ''--version'' \<in> set argv then ([PrintVersion], Inr 0)
      else (case parse_config argv env of
              Inl (ConfigError msg) \<Rightarrow> ([PrintError msg], Inr 2)
            | Inl e \<Rightarrow> ([], Inl e)
            | Inr cfg \<Rightarrow>
                bindA (givesA (setup_logging (log_level cfg) (log_format cfg) stderr_is_tty)) (\<lambda>u.
                  (fst (run_app ext cfg), exit_code ext (snd (run_app ext cfg))))))"

section \<open>Facts\<close>

lemma setup_logging_ok:
  assumes "level \<in> set log_levels"
  shows "\<exists>n. setup_logging level fmt tty = Inr \<lparr>json_lines = use_json_logs fmt tty, root_level = n\<rparr>"
  using assms by (auto simp: setup_logging_def log_levels_def level_map_def)

lemma tracker_task:
  "start_tracker (start_tracker t) = start_tracker t" "stop_tracker (stop_tracker t) = stop_tracker t"
  "\<not> has_task (stop_tracker t)" "has_task (start_tracker t)"
  by (simp_all add: start_tracker_def stop_tracker_def)

lemma bindA_simps [simp]:
  "bindA (as, Inl e) f = (as, Inl e)" "bindA (as, Inr x) f = (as @ fst (f x), snd (f x))"
  by (simp_all add: bindA_def)

lemma await_ws_cancelled: "await_ws ext = Inl CancelledError \<longleftrightarrow> ws_wait_cancelled ext"
  by (auto simp: await_ws_def start_result_def split: option.split)

definition ws_warning :: "outside \<Rightarrow> action list" where
  "ws_warning ext = (case await_ws ext of Inl e \<Rightarrow> [WarnWs e] | Inr u \<Rightarrow> [])"

lemma start_ws_eq:
  "start_ws ext = (if ws_wait_cancelled ext then ([StartWs], Inl CancelledError)
     else (StartWs # ws_warning ext, Inr ()))"
  using await_ws_cancelled [of ext]
  by (cases "await_ws ext") (auto simp: start_ws_def ws_warning_def)

lemma main_run:
  assumes "''--version'' \<notin> set argv" "parse_config argv env = Inr cfg"
  shows "main ext tty argv env = (fst (run_app ext cfg), exit_code ext (snd (run_app ext cfg)))"
proof -
  have "log_level cfg \<in> set log_levels"
    using assms(2) config_of_values by (auto simp: parse_config_def split: sum.splits)
  with assms show ?thesis
    using setup_logging_ok [of "log_level cfg" "log_format cfg" tty] by (auto simp: main_def givesA_def)
qed

lemma listen_exn: "split_listen l = Inl e \<Longrightarrow> \<exists>m. e = ConfigError m"
  by (auto simp: split_listen_def split: prod.splits if_splits sum.splits)

lemma split_unit_res: "(P (r :: unit res)) \<longleftrightarrow> (\<forall>e. r = Inl e \<longrightarrow> P (Inl e)) \<and> (r = Inr () \<longrightarrow> P (Inr ()))"
  by (cases r) auto

lemma not_await:
  "AwaitStop \<notin> set (ws_warning ext)" "AwaitStop \<notin> set (signal_actions ext)"
  by (auto simp: ws_warning_def signal_actions_def split: sum.splits)

lemma run_app_cancelled:
  "ws_wait_cancelled ext \<Longrightarrow> run_app ext cfg = ([OpenSession, StartWs, CloseSession], Inl CancelledError)"
  by (simp add: run_app_def start_ws_eq)

lemma run_app_unlisted:
  "\<not> ws_wait_cancelled ext \<Longrightarrow> split_listen (listen cfg) = Inl e \<Longrightarrow>
    run_app ext cfg = ([OpenSession, StartWs] @ ws_warning ext @ [StartHead, AddRoutes (route_names cfg), CloseSession], Inl e)"
  by (simp add: run_app_def start_ws_eq does_def givesA_def)

lemma run_app_listed:
  "\<not> ws_wait_cancelled ext \<Longrightarrow> split_listen (listen cfg) = Inr (h, p) \<Longrightarrow>
    run_app ext cfg = ([OpenSession, StartWs] @ ws_warning ext @ [StartHead, AddRoutes (route_names cfg)]
      @ fst (serve_until_stopped ext (h, p)) @ [CloseSession], snd (serve_until_stopped ext (h, p)))"
  by (simp add: run_app_def start_ws_eq does_def givesA_def)

lemma serve_until_stopped_eq:
  "serve_until_stopped ext (h, p) =
     (case setup_outcome ext of Inl e \<Rightarrow> ([SetUp], Inl e) | Inr u \<Rightarrow>
      case bind_outcome ext h p of Inl e \<Rightarrow> ([SetUp, Bind h p], Inl e) | Inr u \<Rightarrow>
        (let up = [SetUp, Bind h p, LogListening] @ signal_actions ext @ [AwaitStop] in
         case stop_outcome ext of Inl e \<Rightarrow> (up, Inl e) | Inr u \<Rightarrow>
         case cleanup_outcome ext of Inl e \<Rightarrow> (up @ [CleanUp], Inl e) | Inr u \<Rightarrow>
           (up @ [CleanUp, StopHead, StopWs], ws_stop_outcome ext)))"
  by (cases "setup_outcome ext"; cases "bind_outcome ext h p"; cases "stop_outcome ext"; cases "cleanup_outcome ext")
    (simp_all add: serve_until_stopped_def attempt_to_def does_def Let_def)


definition listens :: "outside \<Rightarrow> config \<Rightarrow> bool" where
  "listens ext cfg =
     (\<not> ws_wait_cancelled ext \<and> setup_outcome ext = Inr ()
      \<and> (case split_listen (listen cfg) of Inl e \<Rightarrow> False | Inr (h, p) \<Rightarrow> bind_outcome ext h p = Inr ()))"

definition orderly :: "outside \<Rightarrow> bool" where
  "orderly ext = (stop_outcome ext = Inr () \<and> cleanup_outcome ext = Inr () \<and> ws_stop_outcome ext = Inr ())"

definition full_run :: "outside \<Rightarrow> config \<Rightarrow> string \<Rightarrow> int \<Rightarrow> action list" where
  "full_run ext cfg h p =
     [OpenSession, StartWs] @ ws_warning ext @ [StartHead, AddRoutes (route_names cfg), SetUp, Bind h p, LogListening]
     @ signal_actions ext @ [AwaitStop, CleanUp, StopHead, StopWs, CloseSession]"

lemma run_app_listens: "AwaitStop \<in> set (fst (run_app ext cfg)) \<longleftrightarrow> listens ext cfg"
proof (cases "ws_wait_cancelled ext")
  case True
  then show ?thesis by (simp add: run_app_cancelled listens_def)
next
  case up: False
  show ?thesis
  proof (cases "split_listen (listen cfg)")
    case (Inl e)
    with up show ?thesis by (simp add: run_app_unlisted listens_def not_await)
  next
    case (Inr addr)
    obtain h p where a: "addr = (h, p)" by (cases addr)
    with Inr up show ?thesis
      by (cases "setup_outcome ext"; cases "bind_outcome ext h p"; cases "stop_outcome ext"; cases "cleanup_outcome ext")
        (simp_all add: run_app_listed serve_until_stopped_eq listens_def not_await Let_def)
  qed
qed

lemma run_app_full:
  "snd (run_app ext cfg) = Inr () \<longleftrightarrow> listens ext cfg \<and> orderly ext"
  "listens ext cfg \<Longrightarrow> orderly ext \<Longrightarrow> split_listen (listen cfg) = Inr (h, p) \<Longrightarrow>
    fst (run_app ext cfg) = full_run ext cfg h p"
proof -
  show "snd (run_app ext cfg) = Inr () \<longleftrightarrow> listens ext cfg \<and> orderly ext"
  proof (cases "ws_wait_cancelled ext")
    case True
    then show ?thesis by (simp add: run_app_cancelled listens_def)
  next
    case up: False
    show ?thesis
    proof (cases "split_listen (listen cfg)")
      case (Inl e)
      with up show ?thesis by (simp add: run_app_unlisted listens_def)
    next
      case (Inr addr)
      obtain h p where a: "addr = (h, p)" by (cases addr)
      with Inr up show ?thesis
        by (cases "setup_outcome ext"; cases "bind_outcome ext h p"; cases "stop_outcome ext"; cases "cleanup_outcome ext")
          (auto simp: run_app_listed serve_until_stopped_eq listens_def orderly_def Let_def)
    qed
  qed
  show "listens ext cfg \<Longrightarrow> orderly ext \<Longrightarrow> split_listen (listen cfg) = Inr (h, p) \<Longrightarrow>
    fst (run_app ext cfg) = full_run ext cfg h p"
    by (simp add: listens_def orderly_def run_app_listed serve_until_stopped_eq full_run_def Let_def)
qed

text \<open>
  C17. Starting and stopping. With a configuration the process serves its routes exactly if the listen
  address splits and its socket can be bound, whatever the WebSocket does in its five seconds (but for a
  cancellation); it exits with 0 exactly if it served, was told to stop and everything stopped
  in order; and then it did all of this in this order, the WebSocket and the head tracker before the
  routes, the server's cleanup before the head tracker, that before the WebSocket, and the client session
  last.
\<close>

theorem starts_and_stops_in_order:
  assumes "''--version'' \<notin> set argv" "parse_config argv env = Inr cfg"
  shows "(AwaitStop \<in> set (fst (main ext tty argv env)) \<longleftrightarrow> listens ext cfg)
    \<and> (snd (main ext tty argv env) = Inr 0 \<longleftrightarrow> listens ext cfg \<and> orderly ext)
    \<and> (listens ext cfg \<longrightarrow> orderly ext \<longrightarrow> (\<exists>h p. split_listen (listen cfg) = Inr (h, p)
         \<and> fst (main ext tty argv env) = full_run ext cfg h p))"
proof -
  have "exit_code ext r = Inr 0 \<longleftrightarrow> r = Inr ()" for r
    by (auto simp: exit_code_def split: sum.split)
  moreover have "\<exists>h p. split_listen (listen cfg) = Inr (h, p)" if "listens ext cfg"
    using that by (auto simp: listens_def split: sum.splits)
  ultimately show ?thesis
    using run_app_full [of ext cfg] run_app_listens [of ext cfg] unfolding main_run [OF assms] by auto
qed

definition fair_outside :: outside where
  "fair_outside = \<lparr>ws_started = None, ws_wait_cancelled = False, setup_outcome = Inr (),
     bind_outcome = (\<lambda>h p. Inr ()), can_handle_signals = True, stop_outcome = Inr (), cleanup_outcome = Inr (),
     ws_stop_outcome = Inr (), ctrl_c = False\<rparr>"

definition short_env :: "string \<Rightarrow> (string \<times> string) list" where
  "short_env addr = [(''EXEC_REST_API_UPSTREAM_HTTP'', ''http://n''), (''EXEC_REST_API_LISTEN'', addr)]"

lemma short_env_ok: "\<exists>cfg. parse_config [] (short_env addr) = Inr cfg \<and> listen cfg = addr"
  by (simp add: parse_config_def parse_argv_def short_env_def config_of_def Let_def opt_str_field_def str_field_def
      env_get_def derive_ws_from_http_def log_levels_def int_field_of_def float_field_of_def)

lemma short_addr: "split_listen ''h:1'' = Inr (''h'', 1)" "\<exists>m. split_listen ''8080'' = Inl (ConfigError m)"
  by (simp_all add: split_listen_def rpartition_on_def Let_def int_of_str_dec all_dec_def is_dec_digit_def
      read_digits_def digit_val_def value_of_def max_str_digits_def)

theorem starts_and_stops_in_order_witness:
  "\<exists>cfg. parse_config [] (short_env ''h:1'') = Inr cfg \<and> snd (main fair_outside True [] (short_env ''h:1'')) = Inr 0
     \<and> fst (main fair_outside True [] (short_env ''h:1'')) =
        [OpenSession, StartWs, WarnWs TimeoutError, StartHead, AddRoutes (route_names cfg), SetUp, Bind ''h'' 1,
         LogListening, OnSignal ''SIGINT'', OnSignal ''SIGTERM'', AwaitStop, CleanUp, StopHead, StopWs, CloseSession]"
proof -
  from short_env_ok obtain cfg where cfg: "parse_config [] (short_env ''h:1'') = Inr cfg" "listen cfg = ''h:1''"
    by blast
  have ext: "listens fair_outside cfg" "orderly fair_outside"
    using short_addr(1) cfg(2) by (simp_all add: listens_def orderly_def fair_outside_def)
  have "full_run fair_outside cfg ''h'' 1 =
        [OpenSession, StartWs, WarnWs TimeoutError, StartHead, AddRoutes (route_names cfg), SetUp, Bind ''h'' 1,
         LogListening, OnSignal ''SIGINT'', OnSignal ''SIGTERM'', AwaitStop, CleanUp, StopHead, StopWs, CloseSession]"
    by (simp add: full_run_def ws_warning_def await_ws_def fair_outside_def signal_actions_def)
  with starts_and_stops_in_order [OF _ cfg(1), of fair_outside True] cfg ext short_addr(1) show ?thesis by auto
qed

text \<open>
  A listen address that does not split is not reported like the other errors of the configuration.
  The process has opened its session, tried the WebSocket, started the head tracker and registered its
  routes before it looks at the address; the configuration error then leaves \<open>main\<close> as an exception
  (a traceback) instead of the exit code 2 with a message, and nothing that was started is stopped in
  order: only the session is closed.
\<close>

lemma listen_error_escapes:
  assumes "''--version'' \<notin> set argv" "parse_config argv env = Inr cfg"
    and "split_listen (listen cfg) = Inl e" "\<not> ws_wait_cancelled ext"
  shows "main ext tty argv env =
      ([OpenSession, StartWs] @ ws_warning ext @ [StartHead, AddRoutes (route_names cfg), CloseSession], Inl e)
    \<and> (\<exists>m. e = ConfigError m)"
proof -
  obtain m where m: "e = ConfigError m" using listen_exn [OF assms(3)] by blast
  then show ?thesis
    unfolding main_run [OF assms(1,2)] run_app_unlisted [OF assms(4,3)] by (simp add: exit_code_def)
qed

lemma listen_error_escapes_example:
  "\<exists>as m. main fair_outside True [] (short_env ''8080'') = (as, Inl (ConfigError m)) \<and> StartHead \<in> set as \<and> StopHead \<notin> set as"
proof -
  from short_env_ok obtain cfg where cfg: "parse_config [] (short_env ''8080'') = Inr cfg" "listen cfg = ''8080''"
    by blast
  from short_addr(2) cfg(2) obtain m where "split_listen (listen cfg) = Inl (ConfigError m)" by auto
  from listen_error_escapes [OF _ cfg(1) this, of fair_outside True] show ?thesis
    by (simp add: fair_outside_def ws_warning_def await_ws_def)
qed

end
