(* ===== verification/Crawl.thy ===== *)
theory Crawl
  imports LogsApi TracesApi
begin

text \<open>
  A client that follows the links of the pages until there is none. The interface is a locale, pages
  linked by cursors, in which the client gets everything and comes to an end; \<open>/logs\<close>, \<open>/logs/search\<close>,
  \<open>/traces\<close> and \<open>/traces/search\<close> are instances of it, on a fixed chain.
\<close>

section \<open>The client\<close>

text \<open>The cursor of the link header, if the page has one.\<close>

definition link_cursor :: "string \<Rightarrow> response \<Rightarrow> string option" where
  "link_cursor path resp =
     map_option (\<lambda>v. takeWhile (\<lambda>c. c \<noteq> CHR ''>'') (drop (length (''</'' @ path @ ''?cursor='')) v))
       (dget ''Link'' (resp_headers resp))"

definition page_items :: "response \<Rightarrow> json list" where
  "page_items resp = (case resp_body resp of JsonBody (JList xs) \<Rightarrow> xs | _ \<Rightarrow> [])"

text \<open>The items of a page and of the pages its links lead to, with at most \<open>n\<close> pages.\<close>

fun crawl :: "nat \<Rightarrow> string \<Rightarrow> (string \<Rightarrow> 'w \<Rightarrow> response res \<times> 'w) \<Rightarrow> response \<Rightarrow> 'w \<Rightarrow> json list option res \<times> 'w" where
  "crawl 0 path get resp w = (Inr None, w)"
| "crawl (Suc n) path get resp w =
     (case link_cursor path resp of
        None \<Rightarrow> (Inr (Some (page_items resp)), w)
      | Some c \<Rightarrow>
          (case get c w of
             (Inl e, w1) \<Rightarrow> (Inl e, w1)
           | (Inr resp', w1) \<Rightarrow>
               (let (rest, w2) = crawl n path get resp' w1 in
                (mapR (map_option ((@) (page_items resp))) rest, w2))))"

section \<open>Interface: pages linked by cursors\<close>

text \<open>
  \<open>page_of L resp\<close> says that the page begins the list \<open>L\<close>: it holds the conversions of its first
  elements, has no link only if these are all, and a link it has leads, in every state that is \<open>ok\<close>, to a
  page of the others.
\<close>

locale linked_pages =
  fixes path :: string and get :: "string \<Rightarrow> 'w \<Rightarrow> response res \<times> 'w" and ok :: "'w \<Rightarrow> bool"
    and conv :: "json \<Rightarrow> json res" and page_of :: "json list \<Rightarrow> response \<Rightarrow> bool"
  assumes first_items: "page_of L resp \<Longrightarrow> \<exists>k. mapE conv (take k L) = Inr (page_items resp)
      \<and> (link_cursor path resp = None \<longrightarrow> length L \<le> k)
      \<and> (\<forall>c. link_cursor path resp = Some c \<longrightarrow> 0 < k \<and> k \<le> length L
          \<and> (\<forall>w. ok w \<longrightarrow> (\<exists>resp' w'. get c w = (Inr resp', w') \<and> ok w' \<and> page_of (drop k L) resp')))"
begin

lemma crawl_all:
  "page_of L resp \<Longrightarrow> ok w \<Longrightarrow> length L < n \<Longrightarrow>
    \<exists>items w'. crawl n path get resp w = (Inr (Some items), w') \<and> mapE conv L = Inr items"
proof (induction n arbitrary: L resp w)
  case 0
  then show ?case by simp
next
  case (Suc n)
  obtain k where k: "mapE conv (take k L) = Inr (page_items resp)" "link_cursor path resp = None \<longrightarrow> length L \<le> k"
    "\<forall>c. link_cursor path resp = Some c \<longrightarrow> 0 < k \<and> k \<le> length L
       \<and> (\<forall>w. ok w \<longrightarrow> (\<exists>resp' w'. get c w = (Inr resp', w') \<and> ok w' \<and> page_of (drop k L) resp'))"
    using first_items [OF Suc.prems(1)] by (elim exE conjE) (rule that)
  show ?case
  proof (cases "link_cursor path resp")
    case None
    with k(1,2) show ?thesis by simp
  next
    case (Some c)
    obtain resp' w1 where r: "get c w = (Inr resp', w1)" "ok w1" "page_of (drop k L) resp'"
      using k(3) Some Suc.prems(2) by blast
    have "length (drop k L) < n" using k(3) Some Suc.prems(3) by auto
    from Suc.IH [OF r(3,2) this] obtain more w2 where m: "crawl n path get resp' w1 = (Inr (Some more), w2)"
      "mapE conv (drop k L) = Inr more" by blast
    have "mapE conv L = Inr (page_items resp @ more)"
      using mapE_append [OF k(1) m(2)] by simp
    with Some r(1) m(1) show ?thesis by simp
  qed
qed

end

section \<open>The link is read back\<close>

lemma b64_char_url: "b64_char v \<noteq> CHR ''>''"
proof
  assume "b64_char v = CHR ''>''"
  then have "cp (b64_char v) = cp (CHR ''>'')" by simp
  then show False by (auto simp: b64_char_def split: if_splits)
qed

lemma b64_encode_url: "CHR ''>'' \<notin> set (b64_encode bs)"
  by (induction bs rule: b64_encode.induct) (auto simp: b64_char_url [symmetric])

lemma b64url_encode_url: "b64url_encode d = Inr s \<Longrightarrow> CHR ''>'' \<notin> set s"
proof -
  have "set (rstrip_eq t) \<subseteq> set t" for t
    by (auto simp: rstrip_eq_def dest: set_dropWhileD)
  then have "CHR ''>'' \<notin> set (b64url_encode_bytes bs)" for bs
    using b64_encode_url [of bs] by (auto simp: b64url_encode_bytes_def)
  then show "b64url_encode d = Inr s \<Longrightarrow> CHR ''>'' \<notin> set s"
    by (auto simp: b64url_encode_def res_iffs)
qed

lemma encode_cursor_url: "encode_cursor c = Inr s \<Longrightarrow> CHR ''>'' \<notin> set s"
  and encode_trace_cursor_url: "encode_trace_cursor tc = Inr s \<Longrightarrow> CHR ''>'' \<notin> set s"
  by (simp_all add: encode_cursor_def encode_trace_cursor_def b64url_encode_url)

lemma link_cursor_page:
  "link_cursor path \<lparr>resp_status = st, resp_type = t, resp_body = b, resp_headers = [(''X-Page-Size'', v)]\<rparr> = None"
  "CHR ''>'' \<notin> set s \<Longrightarrow>
   link_cursor path \<lparr>resp_status = st, resp_type = t, resp_body = b, resp_headers = [(''X-Page-Size'', v), next_link path s]\<rparr>
     = Some s"
proof -
  assume "CHR ''>'' \<notin> set s"
  then have "takeWhile (\<lambda>c. c \<noteq> CHR ''>'') (s @ CHR ''>'' # t) = s" for t
    by (subst takeWhile_append2) auto
  then show "link_cursor path \<lparr>resp_status = st, resp_type = t, resp_body = b,
      resp_headers = [(''X-Page-Size'', v), next_link path s]\<rparr> = Some s"
    by (simp add: link_cursor_def next_link_def)
qed (simp add: link_cursor_def)

section \<open>Pages of logs\<close>

lemma logs_page_link:
  assumes fetch: "fetch_logs_paginated flt f to_b limit su net w = (Inr r, w0)"
    and items: "list_all codable_log (pr_items r)" and stable: "stable_hashes net hs"
    and next_ok: "\<And>b. pr_next_from_block r = Some b \<Longrightarrow> 0 \<le> b \<and> cursor_ok (cursor_at r b to_b flt (hs b))"
    and page: "logs_page path limit flt f to_b su net w = (Inr resp, w1)"
  shows "mapE log_from_rpc (pr_items r) = Inr (page_items resp)"
    and "pr_next_from_block r = None \<Longrightarrow> link_cursor path resp = None"
    and "pr_next_from_block r = Some b \<Longrightarrow>
      \<exists>s. link_cursor path resp = Some s \<and> decode_cursor s = Inr (cursor_at r b to_b flt (hs b))"
proof -
  obtain xs where xs: "mapE log_from_rpc (pr_items r) = Inr xs" "dumpable (JList xs)"
    using codable_items [OF items] .
  have "mapE log_from_rpc (pr_items r) = Inr (page_items resp)
    \<and> (case pr_next_from_block r of None \<Rightarrow> link_cursor path resp = None
       | Some b \<Rightarrow> \<exists>s. link_cursor path resp = Some s \<and> decode_cursor s = Inr (cursor_at r b to_b flt (hs b)))"
  proof (cases "pr_next_from_block r")
    case None
    then show ?thesis using fetch xs page
      by (auto simp: logs_page_def bindI_def liftI_def json_reply_def page_items_def link_cursor_page)
  next
    case (Some b)
    obtain d w' where d: "block_summary b net w0 = (Inr (JObj d), w')" "dget ''hash'' d = Some (JStr (hs b))"
      using stable_hashes_at [OF stable] next_ok [OF Some] by blast
    obtain s where s: "encode_cursor (cursor_at r b to_b flt (hs b)) = Inr s" "decode_cursor s = Inr (cursor_at r b to_b flt (hs b))"
      using encode_decode_cursor next_ok [OF Some] by blast
    then have "boundary_cursor r b to_b flt (JObj d) = Inr s"
      using d(2) by (simp add: boundary_cursor_def cursor_at_def)
    then show ?thesis using fetch xs Some d s page
      by (auto simp: logs_page_def Let_def bindI_def liftI_def json_reply_def page_items_def
          link_cursor_page encode_cursor_url)
  qed
  then show "mapE log_from_rpc (pr_items r) = Inr (page_items resp)"
    and "pr_next_from_block r = None \<Longrightarrow> link_cursor path resp = None"
    and "pr_next_from_block r = Some b \<Longrightarrow>
      \<exists>s. link_cursor path resp = Some s \<and> decode_cursor s = Inr (cursor_at r b to_b flt (hs b))"
    by auto
qed

text \<open>
  A page that has more behind it but whose boundary block the upstream no longer has carries no link: to
  the client it is the last page.
\<close>

lemma lost_boundary_ends_crawl:
  assumes "fetch_logs_paginated flt f to_b limit su net w = (Inr r, w0)" "pr_next_from_block r = Some b"
    and "block_summary b net w0 = (Inr JNull, w')" "logs_page path limit flt f to_b su net w = (Inr resp, w1)"
  shows "link_cursor path resp = None"
  using assms
  by (cases "mapE log_from_rpc (pr_items r)")
    (auto simp: logs_page_def Let_def bindI_def liftI_def json_reply_def link_cursor_page res_iffs split: if_splits)

text \<open>Requests that carry a cursor and nothing else, as the links of the pages do.\<close>

definition asks_cursor :: "(string \<Rightarrow> request) \<Rightarrow> bool" where
  "asks_cursor ask \<longleftrightarrow> (\<forall>s. query_get (ask s) ''cursor'' = Some s \<and> query_get (ask s) ''limit'' = None)"

definition page_limit :: "config \<Rightarrow> int" where
  "page_limit cfg = min (default_page_size cfg) (max_page_size cfg)"

text \<open>A fixed chain of logs that match the filter, whose blocks keep their hashes.\<close>

definition fixed_logs :: "net \<Rightarrow> dict \<Rightarrow> int \<Rightarrow> json list \<Rightarrow> (int \<Rightarrow> string) \<Rightarrow> bool" where
  "fixed_logs net flt to_b ls hs \<longleftrightarrow> in_order ls \<and> serves net flt ls \<and> list_all codable_log ls
     \<and> stable_hashes net hs \<and> json_plain (JObj flt) \<and> json_plain (JInt to_b)"

definition logs_page_of ::
  "string \<Rightarrow> net \<Rightarrow> dict \<Rightarrow> int \<Rightarrow> json list \<Rightarrow> (int \<Rightarrow> string) \<Rightarrow> json list \<Rightarrow> response \<Rightarrow> bool" where
  "logs_page_of path net flt to_b ls hs L resp \<longleftrightarrow> fixed_logs net flt to_b ls hs
     \<and> (\<exists>f limit su w w1. 0 \<le> f \<and> 1 \<le> limit \<and> L = wanted f to_b su ls
          \<and> logs_page path limit flt f to_b su net w = (Inr resp, w1))"

lemma fixed_logs_codable: "fixed_logs net flt to_b ls hs \<Longrightarrow> list_all codable_log (take k (wanted f t su ls))"
  by (auto simp: fixed_logs_def list_all_iff wanted_def dest: in_set_takeD)

lemma fixed_logs_cursor:
  assumes fx: "fixed_logs net flt to_b ls hs" and "0 \<le> f" "1 \<le> limit"
    and "fetch_logs_paginated flt f to_b limit su net w = (Inr r, w0)" "pr_next_from_block r = Some b"
  shows "0 \<le> b \<and> cursor_ok (cursor_at r b to_b flt (hs b))"
proof -
  obtain l where l: "l \<in> set ls" "b = blk l" "pr_last_log_index r = idx l"
    using fetch_logs_continue [OF _ _ assms(2,3,3,4,5)] fx unfolding fixed_logs_def by blast
  with fx show ?thesis
    by (auto simp: fixed_logs_def in_order_def list_all_iff codable_log_def cursor_ok_def cursor_at_def
        cursor_payload_def dest: good_log_nonneg)
qed

text \<open>Some page comes back, whatever the range and the limit.\<close>

lemma fixed_logs_page:
  assumes fx: "fixed_logs net flt to_b ls hs" and "0 \<le> f" "1 \<le> limit"
  shows "\<exists>resp w1. logs_page path limit flt f to_b su net w = (Inr resp, w1)"
proof -
  obtain r w0 where r: "fetch_logs_paginated flt f to_b limit su net w = (Inr r, w0)"
    "pr_items r = take (nat limit) (wanted f to_b su ls)"
    using fetch_logs_spec [OF _ _ assms(2,3)] fx unfolding fixed_logs_def by blast
  moreover have "list_all codable_log (pr_items r)" using fixed_logs_codable [OF fx] r(2) by simp
  moreover have "stable_hashes net hs" using fx by (simp add: fixed_logs_def)
  ultimately show ?thesis
    using logs_page_ok [OF r(1), where path = path] fixed_logs_cursor [OF assms r(1)] by blast
qed

text \<open>The two paths of logs continue from a cursor alike.\<close>

definition log_path :: "string \<Rightarrow> (config \<Rightarrow> request \<Rightarrow> response io) \<Rightarrow> bool" where
  "log_path path h \<longleftrightarrow> (path, h) = (''logs'', get_logs) \<or> (path, h) = (''logs/search'', post_logs_search)"

lemma log_path_resume:
  "log_path path h \<Longrightarrow> asks_cursor ask \<Longrightarrow> 1 \<le> page_limit cfg \<Longrightarrow>
   h cfg (ask s) = resume_logs path (ask s) (page_limit cfg) s"
  by (auto simp: log_path_def asks_cursor_def page_limit_def get_logs_def post_logs_search_def with_limit_def)

lemma logs_page_of_step:
  assumes h: "log_path path h" "asks_cursor ask" "1 \<le> page_limit cfg"
    and "logs_page_of path net flt to_b ls hs L resp"
  shows "\<exists>k. mapE log_from_rpc (take k L) = Inr (page_items resp)
      \<and> (link_cursor path resp = None \<longrightarrow> length L \<le> k)
      \<and> (\<forall>c. link_cursor path resp = Some c \<longrightarrow> 0 < k \<and> k \<le> length L
          \<and> (\<forall>w. \<exists>resp' w'. h cfg (ask c) net w = (Inr resp', w')
                \<and> logs_page_of path net flt to_b ls hs (drop k L) resp'))"
proof -
  obtain f limit su w w1 where p: "fixed_logs net flt to_b ls hs" "0 \<le> f" "1 \<le> limit" "L = wanted f to_b su ls"
    "logs_page path limit flt f to_b su net w = (Inr resp, w1)"
    using assms(4) unfolding logs_page_of_def by blast
  note chain = p(1) [unfolded fixed_logs_def, THEN conjunct1] p(1) [unfolded fixed_logs_def, THEN conjunct2, THEN conjunct1]
  have stable: "stable_hashes net hs" using p(1) by (simp add: fixed_logs_def)
  obtain r w0 where r: "fetch_logs_paginated flt f to_b limit su net w = (Inr r, w0)"
    "pr_items r = take (nat limit) L" "pr_next_from_block r = None \<longleftrightarrow> int (length L) < limit"
    "pr_next_from_block r \<noteq> None \<longrightarrow> pr_next_from_block r = Some (blk (last (pr_items r)))
      \<and> pr_last_log_index r = idx (last (pr_items r))"
    using fetch_logs_spec [OF chain p(2,3), of to_b su w, folded p(4)] by (elim exE conjE) (rule that)
  have items: "list_all codable_log (pr_items r)"
    using fixed_logs_codable [OF p(1)] r(2) p(4) by simp
  note page = logs_page_link [OF r(1) items stable fixed_logs_cursor [OF p(1-3) r(1)] p(5)]
  show ?thesis
  proof (cases "pr_next_from_block r")
    case None
    then have "length L \<le> nat limit" using r(3) by simp
    then show ?thesis using page(1,2) None r(2) by (intro exI [of _ "nat limit"]) simp
  next
    case (Some b)
    then obtain s where s: "link_cursor path resp = Some s" "decode_cursor s = Inr (cursor_at r b to_b flt (hs b))"
      using page(3) by blast
    have b: "0 \<le> b" using fixed_logs_cursor [OF p(1-3) r(1) Some] by simp
    let ?k = "nat limit - 1"
    have "\<not> int (length L) < limit" using Some r(3) by (metis option.distinct(1))
    then have k: "?k < length L" "Suc ?k = nat limit" using p(3) by linarith+
    then have "length (pr_items r) = Suc ?k" using r(2) by simp
    then have "last (pr_items r) = pr_items r ! ?k" by (subst last_conv_nth) auto
    then have "last (pr_items r) = L ! ?k" using r(2) k(2) by simp
    then have rest: "wanted b to_b (pr_last_log_index r) ls = drop (nat limit) L"
      using wanted_after [OF chain(1) k(1) [unfolded p(4)]] r(4) Some k(2) p(4) by simp
    have go: "\<exists>resp' w'. h cfg (ask s) net v = (Inr resp', w')
        \<and> logs_page_of path net flt to_b ls hs (drop (nat limit) L) resp'" for v
    proof -
      obtain v' where v: "h cfg (ask s) net v
          = logs_page path (page_limit cfg) flt b to_b (pr_last_log_index r) net v'"
        using log_path_resume [OF h] resume_logs_ok [OF s(2) stable b] by metis
      obtain resp' w' where p': "logs_page path (page_limit cfg) flt b to_b (pr_last_log_index r) net v' = (Inr resp', w')"
        using fixed_logs_page [OF p(1) b h(3)] by blast
      then show ?thesis using v rest b h(3) p(1) unfolding logs_page_of_def by metis
    qed
    have "0 < nat limit" "nat limit \<le> length L" using p(3) k by simp_all
    then show ?thesis using page(1) r(2) s(1) go by (intro exI [of _ "nat limit"]) simp
  qed
qed

section \<open>Pages of traces\<close>

text \<open>
  A fixed list of traces that match the filter. The offset of a cursor is a number; the last page ends
  at most \<open>m\<close> past the end of the list, and this number must fit.
\<close>

definition fixed_traces :: "net \<Rightarrow> dict \<Rightarrow> int \<Rightarrow> int \<Rightarrow> json list \<Rightarrow> int \<Rightarrow> bool" where
  "fixed_traces net flt from_b to_b ts m \<longleftrightarrow> serves_traces net flt from_b to_b ts \<and> list_all codable_trace ts
     \<and> trace_cursor_ok \<lparr>tc_after = int (length ts) + m, tc_from_block = from_b, tc_to_block = to_b, tc_filter = flt\<rparr>"

definition traces_page_of ::
  "string \<Rightarrow> net \<Rightarrow> dict \<Rightarrow> int \<Rightarrow> int \<Rightarrow> json list \<Rightarrow> int \<Rightarrow> json list \<Rightarrow> response \<Rightarrow> bool" where
  "traces_page_of path net flt from_b to_b ts m L resp \<longleftrightarrow> fixed_traces net flt from_b to_b ts m
     \<and> (\<exists>after limit w w1. 0 \<le> after \<and> after \<le> int (length ts) \<and> 1 \<le> limit \<and> limit \<le> m
          \<and> L = drop (nat after) ts
          \<and> trace_page path limit flt from_b to_b after net w = (Inr resp, w1))"

lemma fixed_traces_page:
  assumes fx: "fixed_traces net flt f t ts m" "0 \<le> after" "after \<le> int (length ts)" "1 \<le> limit" "limit \<le> m"
  obtains resp w1 where "trace_page path limit flt f t after net w = (Inr resp, w1)"
    and "mapE trace_from_rpc (take (nat limit) (drop (nat after) ts)) = Inr (page_items resp)"
    and "link_cursor path resp = None \<Longrightarrow> length (drop (nat after) ts) < nat limit"
    and "\<And>s. link_cursor path resp = Some s \<Longrightarrow> nat limit \<le> length (drop (nat after) ts)
      \<and> decode_trace_cursor s = Inr \<lparr>tc_after = after + limit, tc_from_block = f, tc_to_block = t, tc_filter = flt\<rparr>"
proof -
  let ?c = "\<lparr>tc_after = after + limit, tc_from_block = f, tc_to_block = t, tc_filter = flt\<rparr>"
  have ok: "trace_cursor_ok ?c"
    using fx json_plain_int_mono [of "after + limit" "int (length ts) + m"]
    by (simp add: fixed_traces_def trace_cursor_ok_def trace_cursor_payload_def)
  obtain xs s w1 where p: "mapE trace_from_rpc (take (nat limit) (drop (nat after) ts)) = Inr xs" "list_all dumpable xs"
    "encode_trace_cursor ?c = Inr s"
    "trace_page path limit flt f t after net w =
      (if nat limit \<le> length (drop (nat after) ts)
       then json_reply 200 [(''X-Page-Size'', show_int limit), next_link path s] (JList xs)
       else json_reply 200 [(''X-Page-Size'', show_int limit)] (JList xs), w1)"
    using trace_page_run [OF _ _ fx(2,4) ok] fx(1) unfolding fixed_traces_def by blast
  have s: "decode_trace_cursor s = Inr ?c" "CHR ''>'' \<notin> set s"
    using encode_decode_trace_cursor [OF ok] p(3) encode_trace_cursor_url by auto
  have "\<exists>resp. trace_page path limit flt f t after net w = (Inr resp, w1) \<and> page_items resp = xs
      \<and> link_cursor path resp = (if nat limit \<le> length (drop (nat after) ts) then Some s else None)"
    unfolding p(4) using p(2) s(2)
    by (cases "nat limit \<le> length (drop (nat after) ts)")
      (simp_all add: json_reply_def page_items_def link_cursor_page)
  then obtain resp where "trace_page path limit flt f t after net w = (Inr resp, w1)" "page_items resp = xs"
    "link_cursor path resp = (if nat limit \<le> length (drop (nat after) ts) then Some s else None)" by blast
  then show thesis using that p(1) s(1) by (metis leI option.distinct(1) option.inject)
qed

lemma fixed_traces_some:
  "fixed_traces net flt f t ts m \<Longrightarrow> 0 \<le> after \<Longrightarrow> after \<le> int (length ts) \<Longrightarrow> 1 \<le> limit \<Longrightarrow> limit \<le> m \<Longrightarrow>
   \<exists>resp w1. trace_page path limit flt f t after net w = (Inr resp, w1)"
  by (metis fixed_traces_page)

definition trace_path :: "string \<Rightarrow> (config \<Rightarrow> request \<Rightarrow> response io) \<Rightarrow> bool" where
  "trace_path path h \<longleftrightarrow> (path, h) = (''traces'', get_traces) \<or> (path, h) = (''traces/search'', post_traces_search)"

lemma trace_path_resume:
  "trace_path path h \<Longrightarrow> asks_cursor ask \<Longrightarrow> 1 \<le> page_limit cfg \<Longrightarrow> decode_trace_cursor s = Inr c \<Longrightarrow>
   h cfg (ask s) = trace_page path (page_limit cfg) (tc_filter c) (tc_from_block c) (tc_to_block c) (tc_after c)"
  by (auto simp: trace_path_def asks_cursor_def page_limit_def get_traces_def post_traces_search_def with_limit_def
      resume_traces_def or_bad_cursor_def)

lemma traces_page_of_step:
  assumes h: "trace_path path h" "asks_cursor ask" "1 \<le> page_limit cfg" and m: "page_limit cfg \<le> m"
    and "traces_page_of path net flt from_b to_b ts m L resp"
  shows "\<exists>k. mapE trace_from_rpc (take k L) = Inr (page_items resp)
      \<and> (link_cursor path resp = None \<longrightarrow> length L \<le> k)
      \<and> (\<forall>c. link_cursor path resp = Some c \<longrightarrow> 0 < k \<and> k \<le> length L
          \<and> (\<forall>w. \<exists>resp' w'. h cfg (ask c) net w = (Inr resp', w')
                \<and> traces_page_of path net flt from_b to_b ts m (drop k L) resp'))"
proof -
  obtain after limit w w1 where p: "fixed_traces net flt from_b to_b ts m" "0 \<le> after" "after \<le> int (length ts)"
    "1 \<le> limit" "limit \<le> m" "L = drop (nat after) ts"
    "trace_page path limit flt from_b to_b after net w = (Inr resp, w1)"
    using assms(5) unfolding traces_page_of_def by blast
  have one: "mapE trace_from_rpc (take (nat limit) L) = Inr (page_items resp)"
    "link_cursor path resp = None \<Longrightarrow> length L < nat limit"
    "\<And>s. link_cursor path resp = Some s \<Longrightarrow> nat limit \<le> length L
      \<and> decode_trace_cursor s = Inr \<lparr>tc_after = after + limit, tc_from_block = from_b, tc_to_block = to_b, tc_filter = flt\<rparr>"
    using fixed_traces_page [OF p(1-5), of path w] p(6,7) by auto
  have go: "\<exists>resp' w'. h cfg (ask c) net v = (Inr resp', w')
      \<and> traces_page_of path net flt from_b to_b ts m (drop (nat limit) L) resp'"
    if "link_cursor path resp = Some c" for c v
  proof -
    note c = one(3) [OF that]
    have le: "0 \<le> after + limit" "after + limit \<le> int (length ts)" using c p(2,4,6) by auto
    have rest: "drop (nat limit) L = drop (nat (after + limit)) ts"
      using p(2,4,6) by (simp add: nat_add_distrib add.commute)
    obtain resp' w' where r: "trace_page path (page_limit cfg) flt from_b to_b (after + limit) net v = (Inr resp', w')"
      using fixed_traces_some [OF p(1) le h(3) m] by blast
    then have "h cfg (ask c) net v = (Inr resp', w')"
      using trace_path_resume [OF h conjunct2 [OF c]] by simp
    moreover have "traces_page_of path net flt from_b to_b ts m (drop (nat limit) L) resp'"
      unfolding traces_page_of_def using p(1) le h(3) m rest r by blast
    ultimately show ?thesis by blast
  qed
  show ?thesis using one go p(4) by (intro exI [of _ "nat limit"]) fastforce
qed

section \<open>The two instances\<close>

text \<open>The pages of logs, for either path, on any fixed chain; and the pages of traces likewise.\<close>

interpretation log_pages: linked_pages path "\<lambda>c. h cfg (ask c) net" "\<lambda>w. True" log_from_rpc
  "\<lambda>L resp. log_path path h \<and> asks_cursor ask \<and> 1 \<le> page_limit cfg
     \<and> logs_page_of path net flt to_b ls hs L resp"
  for path h cfg ask net flt to_b ls hs
  by unfold_locales (elim conjE, frule (3) logs_page_of_step, simp)

interpretation trace_pages: linked_pages path "\<lambda>c. h cfg (ask c) net" "\<lambda>w. True" trace_from_rpc
  "\<lambda>L resp. trace_path path h \<and> asks_cursor ask \<and> 1 \<le> page_limit cfg \<and> page_limit cfg \<le> m
     \<and> traces_page_of path net flt from_b to_b ts m L resp"
  for path h cfg ask net flt from_b to_b ts m
  by unfold_locales (elim conjE, frule (4) traces_page_of_step, simp)

section \<open>Properties\<close>

text \<open>
  Following the links to the end yields every log, once. On a fixed chain whose blocks keep their
  hashes, a client that starts with a page of \<open>GET /logs\<close> or of \<open>POST /logs/search\<close> and requests the
  cursor of each page's link gets to a page without one after at most as many pages as there are
  matching logs, and one; and the items of all the pages together are the conversions of exactly the
  matching logs of the range, in order, none missing and none twice.
\<close>

lemma links_deliver_every_log:
  assumes "log_path path h" "asks_cursor ask" "1 \<le> page_limit cfg"
    and "fixed_logs net flt to_b ls hs" "0 \<le> from_b" "1 \<le> limit"
    and "logs_page path limit flt from_b to_b su net w = (Inr resp, w1)"
    and "length (wanted from_b to_b su ls) < n"
  shows "\<exists>items w2. crawl n path (\<lambda>c. h cfg (ask c) net) resp w1 = (Inr (Some items), w2)
    \<and> mapE log_from_rpc (wanted from_b to_b su ls) = Inr items"
proof (rule log_pages.crawl_all [OF _ TrueI assms(8)])
  show "log_path path h \<and> asks_cursor ask \<and> 1 \<le> page_limit cfg
      \<and> logs_page_of path net flt to_b ls hs (wanted from_b to_b su ls) resp"
    using assms unfolding logs_page_of_def by blast
qed

lemma cursor_request_asks: "asks_cursor cursor_request"
  by (simp add: asks_cursor_def cursor_request_def query_get_def)

lemma sample_config_limit: "page_limit sample_config = 1000"
  by (simp add: page_limit_def sample_config_def)

lemma links_deliver_every_log_example:
  "\<exists>resp w1 items w2.
     logs_page ''logs'' 1 [] 0 10 (-1) (chain_net sample_logs) fresh = (Inr resp, w1)
     \<and> crawl 3 ''logs'' (\<lambda>c. get_logs sample_config (cursor_request c) (chain_net sample_logs)) resp w1
       = (Inr (Some items), w2)
     \<and> mapE log_from_rpc sample_logs = Inr items"
proof -
  have L: "wanted 0 10 (-1) sample_logs = sample_logs" "length sample_logs < 3"
    by (simp_all add: wanted_def sample_logs_def)
  have fx: "fixed_logs (chain_net sample_logs) [] 10 sample_logs (\<lambda>_. ''0xAB'')"
    using sample_logs_ok chain_net_serves chain_net_hashes by (simp add: fixed_logs_def small_plain)
  obtain resp w1 where p: "logs_page ''logs'' 1 [] 0 10 (-1) (chain_net sample_logs) fresh = (Inr resp, w1)"
    using fixed_logs_page [OF fx, of 0 1 "''logs''" "-1" fresh] by auto
  have "log_path ''logs'' get_logs" by (simp add: log_path_def)
  from links_deliver_every_log [OF this cursor_request_asks _ fx _ _ p, of sample_config 3] L p sample_config_limit
  show ?thesis by auto
qed

text \<open>
  Following the links to the end yields every trace, once. When the upstream answers each
  \<open>trace_filter\<close> with the slice of a fixed list that \<open>after\<close> and \<open>count\<close> name, a client that starts at the
  first page of \<open>GET /traces\<close> or of \<open>POST /traces/search\<close> and requests the cursor of each page's link
  comes to a page without one, and the pages together are the conversions of the whole list, in order. Here \<open>m\<close>
  bounds the limits, of the first page and of the configuration.
\<close>

lemma trace_links_deliver_every_trace:
  assumes "trace_path path h" "asks_cursor ask" "1 \<le> page_limit cfg" "page_limit cfg \<le> m"
    and "fixed_traces net flt from_b to_b ts m" "1 \<le> limit" "limit \<le> m"
    and "trace_page path limit flt from_b to_b 0 net w = (Inr resp, w1)"
    and "length ts < n"
  shows "\<exists>items w2. crawl n path (\<lambda>c. h cfg (ask c) net) resp w1 = (Inr (Some items), w2)
    \<and> mapE trace_from_rpc ts = Inr items"
proof (rule trace_pages.crawl_all [OF _ TrueI assms(9)])
  have "\<exists>after limit w w1. 0 \<le> after \<and> after \<le> int (length ts) \<and> 1 \<le> limit \<and> limit \<le> m \<and> ts = drop (nat after) ts
      \<and> trace_page path limit flt from_b to_b after net w = (Inr resp, w1)"
    using assms(6-8) by (intro exI [of _ "0::int"] exI [of _ limit] exI [of _ w] exI [of _ w1]) auto
  then show "trace_path path h \<and> asks_cursor ask \<and> 1 \<le> page_limit cfg \<and> page_limit cfg \<le> m
      \<and> traces_page_of path net flt from_b to_b ts m ts resp"
    using assms(1-5) unfolding traces_page_of_def by blast
qed

lemma trace_links_deliver_every_trace_example:
  "\<exists>resp w1 items w2.
     trace_page ''traces'' 1 [] 1 20 0 (slice_net [sample_trace, sample_trace]) fresh = (Inr resp, w1)
     \<and> crawl 3 ''traces'' (\<lambda>c. get_traces sample_config (cursor_request c)
         (slice_net [sample_trace, sample_trace])) resp w1 = (Inr (Some items), w2)
     \<and> mapE trace_from_rpc [sample_trace, sample_trace] = Inr items"
proof -
  let ?ts = "[sample_trace, sample_trace]"
  have "json_plain (JInt 1002)" "json_plain (JInt 1)" "json_plain (JInt 20)"
    using length_show_dec [of 4 1002] length_show_dec [of 4 1] length_show_dec [of 4 20]
    by (simp_all add: max_str_digits_def)
  then have fx: "fixed_traces (slice_net ?ts) [] 1 20 ?ts 1000"
    using slice_net_serves sample_trace_codable
    by (simp add: fixed_traces_def trace_cursor_ok_def trace_cursor_payload_def)
  obtain resp w1 where p: "trace_page ''traces'' 1 [] 1 20 0 (slice_net ?ts) fresh = (Inr resp, w1)"
    using fixed_traces_some [OF fx, of 0 1 "''traces''" fresh] by auto
  have "trace_path ''traces'' get_traces" by (simp add: trace_path_def)
  from trace_links_deliver_every_trace [OF this cursor_request_asks _ _ fx _ _ p, of sample_config 3] p sample_config_limit
  show ?thesis by auto
qed

end
