(* ===== verification/Served.thy ===== *)
theory Served
  imports Crawl Server
begin

text \<open>
  The pages seen over HTTP: the client's requests go through the router and the four middlewares, other
  requests are served in between, and what a client of \<open>/logs\<close> or \<open>/traces\<close> gets is still everything it
  asked for. The pages of the handlers, linked by cursors, become pages of the process.
\<close>

section \<open>A handler behind the middlewares\<close>

text \<open>A request the router leads to a handler, by a route without variables.\<close>

definition api_route :: "environment \<Rightarrow> request \<Rightarrow> (request \<Rightarrow> response io) \<Rightarrow> bool" where
  "api_route env req f \<longleftrightarrow> match_info req = [] \<and> (\<exists>meth tmpl. routed env req = Some ((meth, tmpl, Api f), []))"

text \<open>The middlewares add headers only, and not the link.\<close>

definition same_page :: "response \<Rightarrow> response \<Rightarrow> bool" where
  "same_page resp resp' \<longleftrightarrow> resp_status resp' = resp_status resp \<and> resp_body resp' = resp_body resp
     \<and> dget ''Link'' (resp_headers resp') = dget ''Link'' (resp_headers resp)"

lemma upstream_headers_page:
  assumes "\<And>n. head = Some n \<Longrightarrow> is_ok (str_of_int n)"
  shows "\<exists>resp'. upstream_headers meths head resp = Inr resp' \<and> same_page resp resp'"
proof (cases head)
  case None
  then show ?thesis by (simp add: upstream_headers_def same_page_def Let_def)
next
  case (Some n)
  then obtain t where "str_of_int n = Inr t" using assms [of n] by (auto simp: is_ok_iff)
  with Some show ?thesis by (simp add: upstream_headers_def same_page_def Let_def)
qed

lemma serve_keeps_head: "head_prints p \<Longrightarrow> head_prints (snd (serve env req p))"
proof -
  obtain r0 p1 where h: "app_handler env (request_id env req) req p = (r0, p1)" by fastforce
  then show "head_prints p \<Longrightarrow> head_prints (snd (serve env req p))"
    using app_handler_keeps [OF h] by (simp add: serve_eq [OF h] Let_def head_prints_def same_accounts_def)
qed

lemma serve_all_keeps_head: "head_prints p \<Longrightarrow> head_prints (serve_all rs p)"
proof (induction rs p rule: serve_all.induct)
  case (2 env req rs p)
  have "head_prints q \<Longrightarrow> head_prints (settle_late env q)" for q
    by (simp add: settle_late_def head_prints_def Let_def)
  with 2 show ?case by (simp add: serve_keeps_head)
qed simp

lemma serve_api:
  assumes "api_route env req f" "head_prints p"
    and "f req (c_net (env_client env)) (p_world p) = (Inr resp, w)"
  shows "\<exists>resp' p'. serve env req p = (Inr resp', p') \<and> same_page resp resp' \<and> head_prints p'"
proof -
  let ?p1 = "after_calls env w p"
  have same: "req\<lparr>match_info := []\<rparr> = req" using assms(1) by (simp add: api_route_def)
  have h: "app_handler env (request_id env req) req p = (Inr resp, ?p1)"
    using assms(1,3) by (auto simp: same api_route_def app_handler_def run_endpoint_def)
  have head: "\<And>n. p_head ?p1 = Some n \<Longrightarrow> is_ok (str_of_int n)"
    using assms(2) by (simp add: head_prints_def)
  obtain resp1 where "upstream_headers (map fst (new_calls (p_world p) (p_world ?p1))) (p_head ?p1) resp = Inr resp1"
    "same_page resp resp1"
    using upstream_headers_page [OF head] by blast
  then have "\<exists>resp' p'. serve env req p = (Inr resp', p') \<and> same_page resp resp'"
    by (simp add: serve_eq [OF h] Let_def same_page_def)
  with serve_keeps_head [OF assms(2)] show ?thesis by (metis snd_conv)
qed

section \<open>Interface: linked pages that are served\<close>

text \<open>
  The client's requests are led to the handler, each in an environment of its own (its clock and fresh id)
  with the same upstream. In between anything may happen to the process, as long as the head of the
  chain can be printed: other requests, the tracker, the streams.
\<close>

definition follows ::
  "net \<Rightarrow> (request \<Rightarrow> response io) \<Rightarrow> (string \<Rightarrow> request) \<Rightarrow> (string \<Rightarrow> environment) \<Rightarrow> (string \<Rightarrow> process \<Rightarrow> process) \<Rightarrow> bool" where
  "follows net f ask env between \<longleftrightarrow> (\<forall>c. api_route (env c) (ask c) f \<and> c_net (env_client (env c)) = net
     \<and> (\<forall>p. head_prints p \<longrightarrow> head_prints (between c p)))"

definition get_served ::
  "(string \<Rightarrow> request) \<Rightarrow> (string \<Rightarrow> environment) \<Rightarrow> (string \<Rightarrow> process \<Rightarrow> process) \<Rightarrow>
   string \<Rightarrow> process \<Rightarrow> response res \<times> process" where
  "get_served ask env between c p = serve (env c) (ask c) (between c p)"

locale served_pages = linked_pages path "\<lambda>c. f (ask c) net" "\<lambda>w. True" conv page_of
  for path :: string and f :: "request \<Rightarrow> response io" and ask :: "string \<Rightarrow> request" and net :: net
    and conv :: "json \<Rightarrow> json res" and page_of :: "json list \<Rightarrow> response \<Rightarrow> bool" +
  fixes env :: "string \<Rightarrow> environment" and between :: "string \<Rightarrow> process \<Rightarrow> process"
  assumes setting: "page_of L resp \<Longrightarrow> follows net f ask env between"

sublocale served_pages \<subseteq> served: linked_pages path "get_served ask env between" head_prints conv
    "\<lambda>L resp. \<exists>resp0. page_of L resp0 \<and> same_page resp0 resp"
proof
  fix L resp
  assume "\<exists>resp0. page_of L resp0 \<and> same_page resp0 resp"
  then obtain resp0 where p: "page_of L resp0" "same_page resp0 resp" by blast
  then have same: "link_cursor path resp = link_cursor path resp0" "page_items resp = page_items resp0"
    by (simp_all add: same_page_def link_cursor_def page_items_def)
  obtain k where k: "mapE conv (take k L) = Inr (page_items resp0)" "link_cursor path resp0 = None \<longrightarrow> length L \<le> k"
    "\<forall>c. link_cursor path resp0 = Some c \<longrightarrow> 0 < k \<and> k \<le> length L
       \<and> (\<forall>w. True \<longrightarrow> (\<exists>resp' w'. f (ask c) net w = (Inr resp', w') \<and> True \<and> page_of (drop k L) resp'))"
    using first_items [OF p(1)] by (elim exE conjE) (rule that)
  have go: "\<exists>resp' p'. get_served ask env between c q = (Inr resp', p') \<and> head_prints p'
      \<and> (\<exists>resp0. page_of (drop k L) resp0 \<and> same_page resp0 resp')"
    if c: "link_cursor path resp0 = Some c" and q: "head_prints q" for c q
  proof -
    have s: "api_route (env c) (ask c) f" "c_net (env_client (env c)) = net" "head_prints (between c q)"
      using setting [OF p(1)] q by (simp_all add: follows_def)
    obtain resp' w' where "f (ask c) net (p_world (between c q)) = (Inr resp', w')" "page_of (drop k L) resp'"
      using k(3) c by blast
    with serve_api [OF s(1,3)] s(2) show ?thesis by (metis get_served_def)
  qed
  show "\<exists>k. mapE conv (take k L) = Inr (page_items resp)
      \<and> (link_cursor path resp = None \<longrightarrow> length L \<le> k)
      \<and> (\<forall>c. link_cursor path resp = Some c \<longrightarrow> 0 < k \<and> k \<le> length L
          \<and> (\<forall>w. head_prints w \<longrightarrow> (\<exists>resp' w'. get_served ask env between c w = (Inr resp', w') \<and> head_prints w'
                \<and> (\<exists>resp0. page_of (drop k L) resp0 \<and> same_page resp0 resp'))))"
    unfolding same using k go by (intro exI [of _ k]) blast
qed

text \<open>A client that starts with a served page of the handler's.\<close>

context served_pages
begin

lemma served_crawl:
  assumes "page_of L resp0" "f req net (p_world p) = (Inr resp0, w)" "head_prints p"
    and "api_route env0 req f" "c_net (env_client env0) = net" "length L < n"
  shows "\<exists>resp p1 items p2. serve env0 req p = (Inr resp, p1) \<and> resp_status resp = resp_status resp0
    \<and> crawl n path (get_served ask env between) resp p1 = (Inr (Some items), p2) \<and> mapE conv L = Inr items"
proof -
  obtain resp p1 where r: "serve env0 req p = (Inr resp, p1)" "same_page resp0 resp" "head_prints p1"
    using serve_api [OF assms(4,3)] assms(2,5) by blast
  have "\<exists>resp0. page_of L resp0 \<and> same_page resp0 resp" using assms(1) r(2) by blast
  from served.crawl_all [OF this r(3) assms(6)] r show ?thesis
    by (simp add: same_page_def)
qed

end

section \<open>The first request\<close>

text \<open>The number of items asked for.\<close>

definition asked_limit :: "config \<Rightarrow> request \<Rightarrow> int \<Rightarrow> bool" where
  "asked_limit cfg req n \<longleftrightarrow> 1 \<le> n \<and>
     (case query_get req ''limit'' of
        None \<Rightarrow> n = page_limit cfg
      | Some raw \<Rightarrow> (\<exists>i. int_of_str raw = Inr i \<and> 1 \<le> i \<and> n = min i (max_page_size cfg)))"

lemma with_limit_asked: "asked_limit cfg req n \<Longrightarrow> with_limit cfg req k = k n"
  by (auto simp: asked_limit_def with_limit_def page_limit_def Let_def split: option.splits)

text \<open>A block id that always resolves to the same number.\<close>

definition names_block :: "net \<Rightarrow> block_id res \<Rightarrow> int \<Rightarrow> bool" where
  "names_block net b n \<longleftrightarrow> (\<exists>bid. b = Inr bid \<and> (\<forall>w. fst (resolve_block_id bid net w) = Inr (Some n)))"

lemma with_range_named:
  assumes "names_block net b1 f" "names_block net b2 t" "f \<le> t"
  shows "\<exists>w'. with_range req b1 b2 k net w = k f t net w'"
proof -
  obtain i1 i2 where b: "b1 = Inr i1" "b2 = Inr i2" "\<And>w. fst (resolve_block_id i1 net w) = Inr (Some f)"
    "\<And>w. fst (resolve_block_id i2 net w) = Inr (Some t)"
    using assms(1,2) unfolding names_block_def by blast
  obtain w1 where 1: "resolve_block_id i1 net w = (Inr (Some f), w1)" using b(3) by (metis prod.collapse)
  obtain w2 where 2: "resolve_block_id i2 net w1 = (Inr (Some t), w2)" using b(4) by (metis prod.collapse)
  from 1 2 show ?thesis using assms(3) b(1,2) by (auto simp: with_range_def or_bad_def bindI_def)
qed

text \<open>What a first request for logs asks for, in its query or in its body: a filter and a range.\<close>

definition asks_logs :: "string \<Rightarrow> net \<Rightarrow> request \<Rightarrow> dict \<Rightarrow> int \<Rightarrow> int \<Rightarrow> bool" where
  "asks_logs path net req flt f t \<longleftrightarrow> query_get req ''cursor'' = None \<and> 0 \<le> f \<and> f \<le> t \<and>
     (if path = ''logs''
      then names_block net (query_block_id req ''fromBlock'' ''earliest'') f
        \<and> names_block net (query_block_id req ''toBlock'' ''latest'') t
        \<and> (\<exists>addresses topics. parse_addresses_csv (query_get req ''address'') = Inr addresses
             \<and> parse_topics req = Inr topics \<and> flt = build_filter addresses topics)
      else (\<exists>d addresses topics. request_json req = Inr (JObj d)
             \<and> names_block net (parse_block_id (dget_or ''fromBlock'' (JStr ''earliest'') d)) f
             \<and> names_block net (parse_block_id (dget_or ''toBlock'' (JStr ''latest'') d)) t
             \<and> validate_logfilter_address (dget_or ''address'' JNull d) = Inr addresses
             \<and> validate_logfilter_topics (dget_or ''topics'' JNull d) = Inr topics
             \<and> flt = (if addresses = [] then [] else [(''address'', JList (map JStr addresses))])
                   @ (if topics = [] then [] else [(''topics'', JList topics)])))"

lemma first_logs_page:
  assumes "log_path path h" "asked_limit cfg req limit" "asks_logs path net req flt f t"
  shows "\<exists>w'. h cfg req net w = logs_page path limit flt f t (-1) net w'"
  using assms(1)
proof (unfold log_path_def, elim disjE)
  assume h: "(path, h) = (''logs'', get_logs)"
  with assms(3) obtain addresses topics where r: "query_get req ''cursor'' = None"
    "parse_addresses_csv (query_get req ''address'') = Inr addresses" "parse_topics req = Inr topics"
    "flt = build_filter addresses topics" "f \<le> t"
    "names_block net (query_block_id req ''fromBlock'' ''earliest'') f"
    "names_block net (query_block_id req ''toBlock'' ''latest'') t"
    by (auto simp: asks_logs_def)
  show ?thesis
    using h r(1-4) by (simp add: get_logs_def with_limit_asked [OF assms(2)] or_400_def) (rule with_range_named [OF r(6,7,5)])
next
  assume h: "(path, h) = (''logs/search'', post_logs_search)"
  with assms(3) obtain d addresses topics where r: "query_get req ''cursor'' = None" "request_json req = Inr (JObj d)"
    "validate_logfilter_address (dget_or ''address'' JNull d) = Inr addresses"
    "validate_logfilter_topics (dget_or ''topics'' JNull d) = Inr topics"
    "flt = (if addresses = [] then [] else [(''address'', JList (map JStr addresses))])
         @ (if topics = [] then [] else [(''topics'', JList topics)])" "f \<le> t"
    "names_block net (parse_block_id (dget_or ''fromBlock'' (JStr ''earliest'') d)) f"
    "names_block net (parse_block_id (dget_or ''toBlock'' (JStr ''latest'') d)) t"
    by (auto simp: asks_logs_def)
  show ?thesis
    using h r(1-4)
    by (simp add: r(5) [symmetric] post_logs_search_def with_limit_asked [OF assms(2)] with_json_def with_object_def or_400_def)
      (rule with_range_named [OF r(7,8,6)])
qed

text \<open>What a first request for traces asks for.\<close>

definition asks_traces :: "string \<Rightarrow> net \<Rightarrow> request \<Rightarrow> dict \<Rightarrow> int \<Rightarrow> int \<Rightarrow> bool" where
  "asks_traces path net req flt f t \<longleftrightarrow> query_get req ''cursor'' = None \<and> f \<le> t \<and>
     (if path = ''traces''
      then names_block net (query_block_id req ''fromBlock'' ''earliest'') f
        \<and> names_block net (query_block_id req ''toBlock'' ''latest'') t
        \<and> (\<exists>senders receivers. parse_addresses_csv (query_get req ''fromAddress'') = Inr senders
             \<and> parse_addresses_csv (query_get req ''toAddress'') = Inr receivers
             \<and> flt = opt_addresses ''fromAddress'' senders @ opt_addresses ''toAddress'' receivers)
      else (\<exists>d senders receivers. request_json req = Inr (JObj d)
             \<and> names_block net (parse_block_id_str (py_str (dget_or ''fromBlock'' (JStr ''earliest'') d))) f
             \<and> names_block net (parse_block_id_str (py_str (dget_or ''toBlock'' (JStr ''latest'') d))) t
             \<and> validate_address_list (dget_or ''fromAddress'' JNull d) = Inr senders
             \<and> validate_address_list (dget_or ''toAddress'' JNull d) = Inr receivers
             \<and> flt = some_addresses ''fromAddress'' senders @ some_addresses ''toAddress'' receivers))"

lemma first_traces_page:
  assumes "trace_path path h" "asked_limit cfg req limit" "asks_traces path net req flt f t"
  shows "\<exists>w'. h cfg req net w = trace_page path limit flt f t 0 net w'"
  using assms(1)
proof (unfold trace_path_def, elim disjE)
  assume h: "(path, h) = (''traces'', get_traces)"
  with assms(3) obtain senders receivers where r: "query_get req ''cursor'' = None"
    "parse_addresses_csv (query_get req ''fromAddress'') = Inr senders"
    "parse_addresses_csv (query_get req ''toAddress'') = Inr receivers"
    "flt = opt_addresses ''fromAddress'' senders @ opt_addresses ''toAddress'' receivers" "f \<le> t"
    "names_block net (query_block_id req ''fromBlock'' ''earliest'') f"
    "names_block net (query_block_id req ''toBlock'' ''latest'') t"
    by (auto simp: asks_traces_def)
  show ?thesis
    using h r(1-4)
    by (simp add: get_traces_def with_limit_asked [OF assms(2)] or_400_def) (rule with_range_named [OF r(6,7,5)])
next
  assume h: "(path, h) = (''traces/search'', post_traces_search)"
  with assms(3) obtain d senders receivers where r: "query_get req ''cursor'' = None" "request_json req = Inr (JObj d)"
    "validate_address_list (dget_or ''fromAddress'' JNull d) = Inr senders"
    "validate_address_list (dget_or ''toAddress'' JNull d) = Inr receivers"
    "flt = some_addresses ''fromAddress'' senders @ some_addresses ''toAddress'' receivers" "f \<le> t"
    "names_block net (parse_block_id_str (py_str (dget_or ''fromBlock'' (JStr ''earliest'') d))) f"
    "names_block net (parse_block_id_str (py_str (dget_or ''toBlock'' (JStr ''latest'') d))) t"
    by (auto simp: asks_traces_def)
  show ?thesis
    using h r(1-5)
    by (simp add: post_traces_search_def with_limit_asked [OF assms(2)] with_json_def with_object_def or_400_def)
      (rule with_range_named [OF r(7,8,6)])
qed

section \<open>The two instances\<close>

interpretation served_logs: served_pages path "h cfg" ask net log_from_rpc
  "\<lambda>L resp. (log_path path h \<and> asks_cursor ask \<and> 1 \<le> page_limit cfg
     \<and> logs_page_of path net flt to_b ls hs L resp) \<and> follows net (h cfg) ask env between" env between
  for path h cfg ask net flt to_b ls hs env between
  by unfold_locales (elim conjE, frule (3) logs_page_of_step, simp_all)

interpretation served_traces: served_pages path "h cfg" ask net trace_from_rpc
  "\<lambda>L resp. (trace_path path h \<and> asks_cursor ask \<and> 1 \<le> page_limit cfg \<and> page_limit cfg \<le> m
     \<and> traces_page_of path net flt from_b to_b ts m L resp) \<and> follows net (h cfg) ask env between" env between
  for path h cfg ask net flt from_b to_b ts m env between
  by unfold_locales (elim conjE, frule (4) traces_page_of_step, simp_all)

lemma json_reply_status: "json_reply st hs v = Inr resp \<Longrightarrow> resp_status resp = st"
  by (auto simp: json_reply_def res_iffs split: if_splits)

lemma trace_page_status: "trace_page path limit flt f t a net w = (Inr resp, w1) \<Longrightarrow> resp_status resp = 200"
  by (auto simp: trace_page_def Let_def bindI_def liftI_def res_iffs
      split: prod.splits sum.splits if_splits dest: json_reply_status)

lemma limits_below_max: "asked_limit cfg req limit \<Longrightarrow> limit \<le> max_page_size cfg" "page_limit cfg \<le> max_page_size cfg"
  by (auto simp: asked_limit_def page_limit_def split: option.splits)

lemma wanted_all: "in_order ls \<Longrightarrow> wanted f t (-1) ls = filter (\<lambda>l. f \<le> blk l \<and> blk l \<le> t) ls"
proof -
  assume "in_order ls"
  then have "\<And>l. l \<in> set ls \<Longrightarrow> 0 \<le> idx l"
    using good_log_nonneg by (auto simp: in_order_def list_all_iff)
  then show "wanted f t (-1) ls = filter (\<lambda>l. f \<le> blk l \<and> blk l \<le> t) ls"
    unfolding wanted_def by (intro filter_cong) fastforce+
qed

section \<open>Properties\<close>

text \<open>
  C1. A client of the API gets every log, once. Over HTTP: a client asks \<open>GET /logs\<close> or
  \<open>POST /logs/search\<close> for a range of blocks and a filter, and then requests the cursor of each page's link,
  every request going through the router and the middlewares, while anything may happen to the process in
  between (other requests, the head of the chain moving). On a fixed chain whose blocks keep their hashes the first
  request is answered 200, the client comes to a page without a link after at most as many further pages as there are
  logs, and the items of all pages are the conversions of exactly the logs of the range that match the
  filter, in order, none missing and none twice.
\<close>

theorem served_links_deliver_every_log:
  assumes "log_path path h" "1 \<le> page_limit cfg" "asks_cursor ask" "fixed_logs net flt to_b ls hs"
    and "asks_logs path net req flt from_b to_b" "asked_limit cfg req limit"
    and "api_route env0 req (h cfg)" "c_net (env_client env0) = net"
    and "follows net (h cfg) ask env between" "head_prints p"
    and "length (filter (\<lambda>l. from_b \<le> blk l \<and> blk l \<le> to_b) ls) < n"
  shows "\<exists>resp p1 items p2. serve env0 req p = (Inr resp, p1) \<and> resp_status resp = 200
    \<and> crawl n path (get_served ask env between) resp p1 = (Inr (Some items), p2)
    \<and> mapE log_from_rpc (filter (\<lambda>l. from_b \<le> blk l \<and> blk l \<le> to_b) ls) = Inr items"
proof -
  let ?L = "filter (\<lambda>l. from_b \<le> blk l \<and> blk l \<le> to_b) ls"
  have L: "?L = wanted from_b to_b (-1) ls" using assms(4) by (simp add: fixed_logs_def wanted_all)
  have lim: "0 \<le> from_b" "1 \<le> limit" using assms(5,6) by (simp_all add: asks_logs_def asked_limit_def)
  obtain w' where first: "h cfg req net (p_world p) = logs_page path limit flt from_b to_b (-1) net w'"
    using first_logs_page [OF assms(1,6,5)] by blast
  obtain resp0 w1 where page: "logs_page path limit flt from_b to_b (-1) net w' = (Inr resp0, w1)"
    using fixed_logs_page [OF assms(4) lim] by blast
  then have "logs_page_of path net flt to_b ls hs ?L resp0"
    unfolding logs_page_of_def L using assms(4) lim by blast
  then have "(log_path path h \<and> asks_cursor ask \<and> 1 \<le> page_limit cfg
      \<and> logs_page_of path net flt to_b ls hs ?L resp0) \<and> follows net (h cfg) ask env between"
    using assms(1,2,3,9) by blast
  from served_logs.served_crawl [OF this _ assms(10,7,8,11)] show ?thesis
    using first page logs_page_status [OF page] by simp
qed

text \<open>
  C2. A client of the API gets every trace, once. Over HTTP, as for the logs: when the upstream answers
  each \<open>trace_filter\<close> of the client's filter and range with the slice of a fixed list that \<open>after\<close> and \<open>count\<close>
  name, a client of \<open>GET /traces\<close> or \<open>POST /traces/search\<close> that follows the links comes to a page without one,
  and the pages together are the conversions of the whole list, in order.
\<close>

theorem served_links_deliver_every_trace:
  assumes "trace_path path h" "1 \<le> page_limit cfg" "asks_cursor ask"
    and "fixed_traces net flt from_b to_b ts (max_page_size cfg)"
    and "asks_traces path net req flt from_b to_b" "asked_limit cfg req limit"
    and "api_route env0 req (h cfg)" "c_net (env_client env0) = net"
    and "follows net (h cfg) ask env between" "head_prints p" "length ts < n"
  shows "\<exists>resp p1 items p2. serve env0 req p = (Inr resp, p1) \<and> resp_status resp = 200
    \<and> crawl n path (get_served ask env between) resp p1 = (Inr (Some items), p2)
    \<and> mapE trace_from_rpc ts = Inr items"
proof -
  have lim: "1 \<le> limit" "limit \<le> max_page_size cfg" using assms(6) limits_below_max by (auto simp: asked_limit_def)
  obtain w' where first: "h cfg req net (p_world p) = trace_page path limit flt from_b to_b 0 net w'"
    using first_traces_page [OF assms(1,6,5)] by blast
  obtain resp0 w1 where page: "trace_page path limit flt from_b to_b 0 net w' = (Inr resp0, w1)"
    using fixed_traces_some [OF assms(4) order_refl _ lim, of path w'] by auto
  then have "\<exists>after limit w w1. 0 \<le> after \<and> after \<le> int (length ts) \<and> 1 \<le> limit \<and> limit \<le> max_page_size cfg
      \<and> ts = drop (nat after) ts \<and> trace_page path limit flt from_b to_b after net w = (Inr resp0, w1)"
    using lim by (intro exI [of _ "0::int"] exI [of _ limit] exI [of _ w'] exI [of _ w1]) auto
  then have "traces_page_of path net flt from_b to_b ts (max_page_size cfg) ts resp0"
    unfolding traces_page_of_def using assms(4) by blast
  then have "(trace_path path h \<and> asks_cursor ask \<and> 1 \<le> page_limit cfg \<and> page_limit cfg \<le> max_page_size cfg
      \<and> traces_page_of path net flt from_b to_b ts (max_page_size cfg) ts resp0) \<and> follows net (h cfg) ask env between"
    using assms(1,2,3,9) limits_below_max(2) by blast
  from served_traces.served_crawl [OF this _ assms(10,7,8,11)] show ?thesis
    using first page trace_page_status [OF page] by simp
qed

section \<open>Examples\<close>

definition served_env :: "net \<Rightarrow> nat \<Rightarrow> environment" where
  "served_env net n = (sample_env (Found n []) JNull)\<lparr>env_client := good_client net []\<rparr>"

definition range_query :: "string \<Rightarrow> string \<Rightarrow> string \<Rightarrow> request" where
  "range_query path f t = \<lparr>req_method = ''GET'', req_path = path, match_info = [],
     query = [(''fromBlock'', f), (''toBlock'', t), (''limit'', ''1'')], req_headers = [], req_body = []\<rparr>"

lemma log_routes:
  "routed (served_env net 68) req = Some ((''GET'', ''/logs'', Api (get_logs sample_config)), [])"
  "routed (served_env net 72) req = Some ((''GET'', ''/traces'', Api (get_traces sample_config)), [])"
  by (simp_all add: routed_def served_env_def sample_env_def app_routes_def health_routes_def chain_routes_def
      gas_routes_def transactions_routes_def blocks_routes_def accounts_routes_def logs_routes_def traces_routes_def
      add_get_def add_post_def)

text \<open>Between two pages the process serves somebody else.\<close>

definition somebody_else :: "net \<Rightarrow> string \<Rightarrow> process \<Rightarrow> process" where
  "somebody_else net c p = serve_all [(served_env net 0, plain_get), (served_env net 4, plain_get)] p"

lemma served_env_client: "c_net (env_client (served_env net n)) = net"
  by (simp add: served_env_def good_client_def)

lemma somebody_else_head: "head_prints p \<Longrightarrow> head_prints (somebody_else net c p)"
  unfolding somebody_else_def by (rule serve_all_keeps_head)

lemma sample_follows:
  "follows net (get_logs sample_config) cursor_request (\<lambda>c. served_env net 68) (somebody_else net)"
  "follows net (get_traces sample_config) cursor_request (\<lambda>c. served_env net 72) (somebody_else net)"
  using somebody_else_head
  by (auto simp: follows_def api_route_def log_routes cursor_request_def served_env_client)

lemma small_numerals:
  "int_of_str ''0'' = Inr 0" "int_of_str ''1'' = Inr 1" "int_of_str ''10'' = Inr 10" "int_of_str ''20'' = Inr 20"
  "all_dec ''0''" "all_dec ''1''" "all_dec ''10''" "all_dec ''20''"
proof -
  show "all_dec ''0''" "all_dec ''1''" "all_dec ''10''" "all_dec ''20''"
    by (simp_all add: all_dec_def is_dec_digit_def)
  then show "int_of_str ''0'' = Inr 0" "int_of_str ''1'' = Inr 1" "int_of_str ''10'' = Inr 10" "int_of_str ''20'' = Inr 20"
    by (simp_all add: int_of_str_dec max_str_digits_def read_digits_def digit_val_def value_of_def)
qed

lemma range_query_names:
  "names_block net (query_block_id (range_query path ''0'' t) ''fromBlock'' d) 0"
  "names_block net (query_block_id (range_query path ''1'' t) ''fromBlock'' d) 1"
  "names_block net (query_block_id (range_query path f ''10'') ''toBlock'' d) 10"
  "names_block net (query_block_id (range_query path f ''20'') ''toBlock'' d) 20"
  by (simp_all add: names_block_def query_block_id_def range_query_def query_get_def parse_block_id_str_def
      small_numerals block_tags_def retI_def resolve_block_id_def)

theorem served_links_deliver_every_log_witness:
  "\<exists>resp p1 items p2.
     serve (served_env (chain_net sample_logs) 68) (range_query ''/logs'' ''0'' ''10'') sample_process = (Inr resp, p1)
     \<and> resp_status resp = 200
     \<and> crawl 3 ''logs'' (get_served cursor_request (\<lambda>c. served_env (chain_net sample_logs) 68)
         (somebody_else (chain_net sample_logs))) resp p1 = (Inr (Some items), p2)
     \<and> mapE log_from_rpc sample_logs = Inr items"
proof -
  let ?net = "chain_net sample_logs" and ?req = "range_query ''/logs'' ''0'' ''10''"
  have L: "filter (\<lambda>l. 0 \<le> blk l \<and> blk l \<le> 10) sample_logs = sample_logs" "length sample_logs < 3"
    by (simp_all add: sample_logs_def)
  have fx: "fixed_logs ?net [] 10 sample_logs (\<lambda>_. ''0xAB'')"
    using sample_logs_ok chain_net_serves chain_net_hashes by (simp add: fixed_logs_def small_plain)
  have "parse_topics ?req = Inr []" "parse_addresses_csv (query_get ?req ''address'') = Inr None"
    by (simp_all add: parse_topics_def range_query_def query_get_def parse_addresses_csv_def strip_nulls_def)
  then have asks: "asks_logs ''logs'' ?net ?req [] 0 10"
    unfolding asks_logs_def using range_query_names
    by (simp add: build_filter_def) (simp add: range_query_def query_get_def)
  have "asked_limit sample_config ?req 1"
    by (simp add: asked_limit_def range_query_def query_get_def sample_config_def small_numerals)
  moreover have "log_path ''logs'' get_logs" by (simp add: log_path_def)
  moreover have "api_route (served_env ?net 68) ?req (get_logs sample_config)"
    by (simp add: api_route_def log_routes range_query_def)
  ultimately show ?thesis
    using served_links_deliver_every_log [where h = get_logs and cfg = sample_config, OF _ _ cursor_request_asks fx asks _ _ served_env_client
        sample_follows(1) sample_prints, of 1 68 3] L sample_config_limit by simp
qed

theorem served_links_deliver_every_trace_witness:
  "\<exists>resp p1 items p2.
     serve (served_env (slice_net [sample_trace, sample_trace]) 72) (range_query ''/traces'' ''1'' ''20'') sample_process
       = (Inr resp, p1)
     \<and> crawl 3 ''traces'' (get_served cursor_request (\<lambda>c. served_env (slice_net [sample_trace, sample_trace]) 72)
         (somebody_else (slice_net [sample_trace, sample_trace]))) resp p1 = (Inr (Some items), p2)
     \<and> mapE trace_from_rpc [sample_trace, sample_trace] = Inr items"
proof -
  let ?ts = "[sample_trace, sample_trace]" and ?req = "range_query ''/traces'' ''1'' ''20''"
  let ?net = "slice_net ?ts"
  have m: "max_page_size sample_config = 10000" by (simp add: sample_config_def)
  have "json_plain (JInt 10002)" "json_plain (JInt 1)" "json_plain (JInt 20)"
    using length_show_dec [of 5 10002] length_show_dec [of 5 1] length_show_dec [of 5 20]
    by (simp_all add: max_str_digits_def)
  then have fx: "fixed_traces ?net [] 1 20 ?ts (max_page_size sample_config)"
    using slice_net_serves sample_trace_codable
    by (simp add: m fixed_traces_def trace_cursor_ok_def trace_cursor_payload_def)
  have "parse_addresses_csv (query_get ?req ''fromAddress'') = Inr None"
    "parse_addresses_csv (query_get ?req ''toAddress'') = Inr None" "query_get ?req ''cursor'' = None"
    by (simp_all add: range_query_def query_get_def parse_addresses_csv_def)
  then have asks: "asks_traces ''traces'' ?net ?req [] 1 20"
    unfolding asks_traces_def using range_query_names by (simp add: opt_addresses_def)
  have "asked_limit sample_config ?req 1"
    by (simp add: asked_limit_def range_query_def query_get_def sample_config_def small_numerals)
  moreover have "trace_path ''traces'' get_traces" by (simp add: trace_path_def)
  moreover have "api_route (served_env ?net 72) ?req (get_traces sample_config)"
    by (simp add: api_route_def log_routes range_query_def)
  ultimately show ?thesis
    using served_links_deliver_every_trace [where h = get_traces and cfg = sample_config, OF _ _ cursor_request_asks fx asks _ _ served_env_client
        sample_follows(2) sample_prints, of 1 72 3] sample_config_limit by simp blast
qed

end
