(* ===== verification/Backoff.thy ===== *)
theory Backoff
  imports UpstreamWs
begin

text \<open>
  The persistence of the WebSocket client of \<open>upstream_ws.py\<close>: with reconnecting on it gives up only when
  it is told to stop, it sleeps for a delay of its schedule between two attempts, and through an outage
  of any length it keeps trying, with the delays of the schedule in order and the last one repeated.
\<close>

definition delay_of :: "ws_config \<Rightarrow> nat \<Rightarrow> nat" where
  "delay_of cfg n = backoff cfg ! min n (length (backoff cfg) - 1)"

lemma delay_in: "backoff cfg \<noteq> [] \<Longrightarrow> delay_of cfg n \<in> set (backoff cfg)"
  unfolding delay_of_def by (rule nth_mem) (cases "backoff cfg"; simp)

definition persists :: "ws_config \<Rightarrow> ws_client \<Rightarrow> bool" where
  "persists cfg s \<longleftrightarrow>
     (phase s = Finished \<longrightarrow> stopping s \<or> \<not> reconnects cfg \<or> backoff cfg = [])
     \<and> (\<forall>d. phase s = Sleeping d \<longrightarrow> backoff cfg \<noteq> [] \<and> 0 < attempt s \<and> d = delay_of cfg (attempt s - 1))"

lemma round_over_phase:
  "phase (round_over cfg err s) =
     (if \<not> reconnects cfg \<or> stopping s \<or> backoff cfg = [] then Finished else Sleeping (delay_of cfg (attempt s)))"
  "stopping (round_over cfg err s) = stopping s" "connected_event s \<Longrightarrow> connected_event (round_over cfg err s)"
  "attempt (round_over cfg err s) =
     (if \<not> reconnects cfg \<or> stopping s \<or> backoff cfg = [] then attempt s else attempt s + 1)"
  by (simp_all add: round_over_def Let_def fail_pending_def delay_of_def)

lemma persists_round_over: "persists cfg (round_over cfg err s)"
  by (auto simp: persists_def round_over_phase)

lemma persists_same:
  "persists cfg s \<Longrightarrow> phase s' = phase s \<Longrightarrow> attempt s' = attempt s \<Longrightarrow> (stopping s \<longrightarrow> stopping s') \<Longrightarrow> persists cfg s'"
  unfolding persists_def by metis

lemma dispatch_phase:
  assumes "dispatch listener raw (s, m) = Inr (s', m')"
  shows "phase s' = phase s \<and> attempt s' = attempt s \<and> stopping s' = stopping s"
  using assms by (auto simp: dispatch_def res_iffs split: sum.splits json.splits if_splits option.splits)

lemma persists_read:
  assumes "persists cfg s"
  shows "persists cfg (fst (read_msg cfg listener msg (s, m)))"
proof (cases msg)
  case (TextMsg raw)
  show ?thesis
  proof (cases "dispatch listener raw (s, m)")
    case (Inl e)
    with TextMsg show ?thesis by (simp add: read_msg_def persists_round_over)
  next
    case (Inr sm)
    with TextMsg dispatch_phase [of listener raw s m "fst sm" "snd sm"] persists_same [OF assms] show ?thesis
      by (simp add: read_msg_def)
  qed
qed (simp_all add: read_msg_def persists_round_over assms)

lemma persists_step:
  assumes "persists cfg s" "wstep cfg listener (s, m) (s', m')"
  shows "persists cfg s'"
  using assms(2)
proof (cases rule: wstep.cases)
  case (asked meth params)
  then show ?thesis
    by (intro persists_same [OF assms(1)]) (auto simp: request_begin_def Let_def split: sum.split)
next
  case (ended rid e)
  then show ?thesis
    by (intro persists_same [OF assms(1)]) (auto simp: request_end_def split: option.split)
next
  case (reads msg)
  with persists_read [OF assms(1), of listener msg m] show ?thesis by (metis fst_conv)
qed (use assms(1) in \<open>auto simp: persists_def start_def opened_def round_over_phase wake_def stop_begin_def
    stop_end_def fail_pending_def\<close>)

interpretation tries: invariant_system "\<lambda>sm. fst sm = new_ws" "wstep cfg listener" "\<lambda>sm. persists cfg (fst sm)"
  for cfg and listener :: "dict \<Rightarrow> 'a \<Rightarrow> 'a res"
proof unfold_locales
  show "fst sm = new_ws \<Longrightarrow> persists cfg (fst sm)" for sm :: "ws_client \<times> 'a"
    by (simp add: persists_def new_ws_def)
  show "persists cfg (fst sm) \<Longrightarrow> wstep cfg listener sm sm' \<Longrightarrow> persists cfg (fst sm')" for sm sm' :: "ws_client \<times> 'a"
    by (cases sm; cases sm') (simp add: persists_step)
qed

text \<open>An outage: attempts that fail with the errors listed, with the delays slept and the client afterwards.\<close>

fun outage :: "ws_config \<Rightarrow> exn list \<Rightarrow> ws_client \<Rightarrow> nat list \<times> ws_client" where
  "outage cfg [] s = ([], s)"
| "outage cfg (e # es) s =
     (let s1 = round_over cfg (Some e) s in
      case phase s1 of
        Sleeping d \<Rightarrow> let (ds, s2) = outage cfg es (wake s1) in (d # ds, s2)
      | _ \<Rightarrow> ([], s1))"

lemma outage_run:
  assumes "reconnects cfg" "backoff cfg \<noteq> []"
  shows "phase s = Connecting \<Longrightarrow> \<not> stopping s \<Longrightarrow>
    fst (outage cfg es s) = map (delay_of cfg) [attempt s ..< attempt s + length es]
    \<and> phase (snd (outage cfg es s)) = Connecting
    \<and> (wstep cfg listener)\<^sup>*\<^sup>* (s, m) (snd (outage cfg es s), m)"
proof (induction es arbitrary: s)
  case Nil
  then show ?case by simp
next
  case (Cons e es)
  let ?s1 = "round_over cfg (Some e) s"
  have s1: "phase ?s1 = Sleeping (delay_of cfg (attempt s))" "attempt ?s1 = attempt s + 1" "\<not> stopping ?s1"
    using assms Cons.prems by (simp_all add: round_over_phase)
  have w: "phase (wake ?s1) = Connecting" "attempt (wake ?s1) = attempt s + 1" "\<not> stopping (wake ?s1)"
    using s1 by (simp_all add: wake_def)
  note ih = Cons.IH [OF w(1,3), unfolded w(2)]
  have "wstep cfg listener (s, m) (?s1, m)"
    by (rule fails) (simp add: in_round_def Cons.prems)
  moreover have "wstep cfg listener (?s1, m) (wake ?s1, m)" using s1(1) by (rule wakes)
  ultimately have run: "(wstep cfg listener)\<^sup>*\<^sup>* (s, m) (snd (outage cfg es (wake ?s1)), m)"
    using ih by (meson converse_rtranclp_into_rtranclp)
  have out: "outage cfg (e # es) s
      = (delay_of cfg (attempt s) # fst (outage cfg es (wake ?s1)), snd (outage cfg es (wake ?s1)))"
    by (simp add: s1(1) Let_def case_prod_beta)
  have "[attempt s ..< attempt s + length (e # es)] = attempt s # [attempt s + 1 ..< attempt s + 1 + length es]"
    by (simp add: upt_conv_Cons del: upt_Suc)
  then show ?case
    unfolding out fst_conv snd_conv using ih run by (simp only: list.map)
qed

text \<open>
  C16. The WebSocket client does not give up. In every reachable state of a client that reconnects, its
  task has ended only if it was told to stop, and it sleeps only for a delay of its schedule. From an
  attempt, however many connections in a row then fail and for whatever reasons, the task gets to the
  next attempt, after the delays of the schedule in order, its last one repeated; a connection at that
  point makes it connected and starts the schedule over.
\<close>

theorem ws_client_persists:
  assumes "(wstep cfg listener)\<^sup>*\<^sup>* (new_ws, m0) (s, m)" "reconnects cfg" "backoff cfg \<noteq> []"
  shows "(phase s = Finished \<longrightarrow> stopping s)
    \<and> (phase s = Sleeping d \<longrightarrow> d \<in> set (backoff cfg))
    \<and> (phase s = Connecting \<longrightarrow> \<not> stopping s \<longrightarrow>
         fst (outage cfg es s) = map (delay_of cfg) [attempt s ..< attempt s + length es]
       \<and> (wstep cfg listener)\<^sup>*\<^sup>* (s, m) (snd (outage cfg es s), m)
       \<and> phase (snd (outage cfg es s)) = Connecting
       \<and> wstep cfg listener (snd (outage cfg es s), m) (opened cfg (snd (outage cfg es s)), m)
       \<and> connected (opened cfg (snd (outage cfg es s))) \<and> attempt (opened cfg (snd (outage cfg es s))) = 0)"
proof -
  have "persists cfg s" using tries.inv_reachable [OF _ assms(1)] by simp
  then have "phase s = Finished \<longrightarrow> stopping s" "phase s = Sleeping d \<longrightarrow> d \<in> set (backoff cfg)"
    using assms(2,3) by (auto simp: persists_def delay_in)
  moreover have "connected (opened cfg c) \<and> attempt (opened cfg c) = 0" for c
    by (simp add: opened_def connected_def)
  ultimately show ?thesis
    using outage_run [OF assms(2,3), of s es listener m] connects [of "snd (outage cfg es s)" cfg listener m] by blast
qed

theorem ws_client_persists_witness:
  "fst (outage sample_ws [TimeoutError, ConnectionResetError, TimeoutError, TimeoutError, TimeoutError] (start new_ws))
     = [1, 2, 5, 30, 30]
   \<and> phase (snd (outage sample_ws [TimeoutError, ConnectionResetError, TimeoutError, TimeoutError, TimeoutError] (start new_ws)))
     = Connecting"
proof -
  let ?es = "[TimeoutError, ConnectionResetError, TimeoutError, TimeoutError, TimeoutError]"
  have "(wstep sample_ws (\<lambda>d m. Inr m))\<^sup>*\<^sup>* (new_ws, ()) (start new_ws, ())"
    by (rule r_into_rtranclp, rule started) (simp add: new_ws_def)
  moreover have "reconnects sample_ws" "backoff sample_ws \<noteq> []" "backoff sample_ws = [1, 2, 5, 30]"
    by (simp_all add: sample_ws_def default_backoff_def)
  moreover have "phase (start new_ws) = Connecting" "\<not> stopping (start new_ws)" "attempt (start new_ws) = 0"
    by (simp_all add: start_def new_ws_def)
  ultimately show ?thesis
    using ws_client_persists [of sample_ws "\<lambda>d m. Inr m" "()" "start new_ws" "()" 0 ?es]
    by (simp add: delay_of_def upt_rec min_def)
qed

end
