(* ===== verification/InFlight.thy ===== *)
theory InFlight
  imports Server
begin

text \<open>
  Calls of several requests at once. One client serves every task of the process, and a task waits for
  its reply while others go on; so a call is taken apart at its await: it is issued, and later it is
  settled by what the session gives back or abandoned when its task is cancelled. The list in which the
  observer notes the methods of a request belongs to the context of its task. The facts: issuing and settling
  at once is the call of \<open>Upstream\<close>, ids stay unique in every interleaving, and a request is told of
  exactly its own calls.
\<close>

section \<open>The client and the calls in the air\<close>

text \<open>A call that waits: its id, its method, and the list of methods its context holds, if any.\<close>

record flight =
  fl_id :: int
  fl_method :: string
  fl_list :: "nat option"

text \<open>\<open>heard\<close> records what the observer was told, and in which context.\<close>

record desk =
  d_next :: int
  d_posted :: "json list"
  in_air :: "flight list"
  method_lists :: "nat \<Rightarrow> string list"
  next_list :: nat
  d_metrics :: metrics
  heard :: "(string \<times> string \<times> nat option) list"

definition new_desk :: desk where
  "new_desk = \<lparr>d_next = 1, d_posted = [], in_air = [], method_lists = (\<lambda>r. []), next_list = 0,
     d_metrics = new_metrics, heard = []\<rparr>"

section \<open>Operations\<close>

text \<open>\<open>metrics_middleware\<close> gives the request a list of its own.\<close>

definition enter_request :: "desk \<Rightarrow> nat \<times> desk" where
  "enter_request d =
     (next_list d, d\<lparr>next_list := next_list d + 1, method_lists := (method_lists d)(next_list d := [])\<rparr>)"

text \<open>The observer: the metrics, and the list of the calling context.\<close>

definition notify :: "nat option \<Rightarrow> string \<Rightarrow> string \<Rightarrow> rat \<Rightarrow> desk \<Rightarrow> desk" where
  "notify l meth status t d =
     d\<lparr>d_metrics := observe_upstream meth status t (d_metrics d),
       method_lists := (case l of None \<Rightarrow> method_lists d
          | Some r \<Rightarrow> (method_lists d)(r := method_lists d r @ [meth])),
       heard := heard d @ [(meth, status, l)]\<rparr>"

text \<open>\<open>call\<close> up to its await. A body that cannot be printed ends it at once.\<close>

definition issue :: "nat option \<Rightarrow> string \<Rightarrow> json list \<Rightarrow> rat \<Rightarrow> desk \<Rightarrow> flight res \<times> desk" where
  "issue l meth params t d =
     (let bod = rpc_body (d_next d) meth params; fl = \<lparr>fl_id = d_next d, fl_method = meth, fl_list = l\<rparr>;
          d1 = d\<lparr>d_next := d_next d + 1\<rparr> in
      case json_dumps_res (JList params) of
        Inl e \<Rightarrow> (Inl e, notify l meth ''ok'' t d1)
      | Inr s \<Rightarrow> (Inr fl, d1\<lparr>d_posted := d_posted d @ [bod], in_air := in_air d @ [fl]\<rparr>))"

text \<open>The rest of \<open>call\<close>, with what the session gives back; and a call whose task is cancelled.\<close>

definition settle :: "flight \<Rightarrow> http_outcome \<Rightarrow> rat \<Rightarrow> desk \<Rightarrow> json res \<times> desk" where
  "settle fl outcome t d =
     (let (status, out) = read_outcome outcome in
      (out, notify (fl_list fl) (fl_method fl) status t (d\<lparr>in_air := remove1 fl (in_air d)\<rparr>)))"

definition abandon :: "flight \<Rightarrow> rat \<Rightarrow> desk \<Rightarrow> json res \<times> desk" where
  "abandon fl t d =
     (Inl CancelledError, notify (fl_list fl) (fl_method fl) ''ok'' t (d\<lparr>in_air := remove1 fl (in_air d)\<rparr>))"

text \<open>The header of a request that is done.\<close>

definition method_header :: "nat \<Rightarrow> desk \<Rightarrow> string option" where
  "method_header r d = (if method_lists d r = [] then None else Some (join '','' (method_lists d r)))"

section \<open>Steps\<close>

inductive dstep :: "desk \<Rightarrow> desk \<Rightarrow> bool" where
  enters: "enter_request d = (r, d') \<Longrightarrow> dstep d d'"
| issues: "issue l meth params t d = (x, d') \<Longrightarrow> (\<And>r. l = Some r \<Longrightarrow> r < next_list d) \<Longrightarrow> dstep d d'"
| settles: "fl \<in> set (in_air d) \<Longrightarrow> settle fl outcome t d = (x, d') \<Longrightarrow> dstep d d'"
| abandons: "fl \<in> set (in_air d) \<Longrightarrow> abandon fl t d = (x, d') \<Longrightarrow> dstep d d'"

definition desk_reachable :: "desk \<Rightarrow> bool" where
  "desk_reachable d \<longleftrightarrow> dstep\<^sup>*\<^sup>* new_desk d"

section \<open>The invariant\<close>

definition own_methods :: "nat \<Rightarrow> (string \<times> string \<times> nat option) list \<Rightarrow> string list" where
  "own_methods r hs = map fst (filter (\<lambda>(meth, status, l). l = Some r) hs)"

definition calls_counted :: "string \<Rightarrow> string \<Rightarrow> metrics \<Rightarrow> int" where
  "calls_counted meth status m =
     (case dget [(''method'', meth), (''status'', status)] (c_values (m_upstream_requests m)) of None \<Rightarrow> 0 | Some n \<Rightarrow> n)"

definition lists_ok :: "desk \<Rightarrow> bool" where
  "lists_ok d \<longleftrightarrow> (\<forall>r. method_lists d r = own_methods r (heard d))
     \<and> (\<forall>x \<in> set (heard d). \<forall>r. snd (snd x) = Some r \<longrightarrow> r < next_list d)
     \<and> (\<forall>fl \<in> set (in_air d). \<forall>r. fl_list fl = Some r \<longrightarrow> r < next_list d)"

definition air_ok :: "desk \<Rightarrow> bool" where
  "air_ok d \<longleftrightarrow> distinct (map fl_id (in_air d)) \<and> sorted_wrt (<) (map body_id (d_posted d))
     \<and> (\<forall>b \<in> set (d_posted d). body_id b < d_next d)
     \<and> (\<forall>fl \<in> set (in_air d). fl_id fl \<in> body_id ` set (d_posted d))
     \<and> int (length (heard d) + length (in_air d)) = d_next d - 1"

definition books_ok :: "desk \<Rightarrow> bool" where
  "books_ok d \<longleftrightarrow> (\<forall>meth status. calls_counted meth status (d_metrics d)
     = int (length (filter (\<lambda>(m, s, l). m = meth \<and> s = status) (heard d))))"

definition desk_ok :: "desk \<Rightarrow> bool" where
  "desk_ok d \<longleftrightarrow> lists_ok d \<and> air_ok d \<and> books_ok d"

lemma notify_simps [simp]:
  "d_next (notify l meth st t d) = d_next d" "d_posted (notify l meth st t d) = d_posted d"
  "in_air (notify l meth st t d) = in_air d" "next_list (notify l meth st t d) = next_list d"
  "heard (notify l meth st t d) = heard d @ [(meth, st, l)]"
  "method_lists (notify l meth st t d) r = method_lists d r @ (if l = Some r then [meth] else [])"
  "d_metrics (notify l meth st t d) = observe_upstream meth st t (d_metrics d)"
  by (auto simp: notify_def split: option.split)

lemma calls_counted_observe:
  "calls_counted meth st (observe_upstream m s t mt) = calls_counted meth st mt + (if m = meth \<and> s = st then 1 else 0)"
  by (auto simp: calls_counted_def observe_upstream_def inc_upstream_def observe_upstream_duration_def counter_inc_def)

lemma own_methods_append: "own_methods r (hs @ hs') = own_methods r hs @ own_methods r hs'"
  by (simp add: own_methods_def)

lemma books_notify: "books_ok d \<Longrightarrow> books_ok (notify l meth st t d)"
  by (simp add: books_ok_def calls_counted_observe)

lemma lists_notify:
  "lists_ok d \<Longrightarrow> (\<And>r. l = Some r \<Longrightarrow> r < next_list d) \<Longrightarrow> lists_ok (notify l meth st t d)"
  by (auto simp: lists_ok_def own_methods_append) (auto simp: own_methods_def)

text \<open>A call that comes down is told of once.\<close>

lemma desk_ok_down:
  assumes "desk_ok d" "fl \<in> set (in_air d)"
  shows "desk_ok (notify (fl_list fl) (fl_method fl) st t (d\<lparr>in_air := remove1 fl (in_air d)\<rparr>))"
proof -
  let ?d = "d\<lparr>in_air := remove1 fl (in_air d)\<rparr>"
  have sub: "set (remove1 fl (in_air d)) \<subseteq> set (in_air d)" by (rule set_remove1_subset)
  have "length (in_air d) \<noteq> 0" using assms(2) by auto
  then have len: "Suc (length (remove1 fl (in_air d))) = length (in_air d)"
    using assms(2) by (simp add: length_remove1)
  have "lists_ok ?d" using assms(1) sub by (auto simp: desk_ok_def lists_ok_def)
  moreover have "\<And>r. fl_list fl = Some r \<Longrightarrow> r < next_list ?d"
    using assms by (auto simp: desk_ok_def lists_ok_def)
  ultimately have "lists_ok (notify (fl_list fl) (fl_method fl) st t ?d)" by (rule lists_notify)
  moreover have "books_ok (notify (fl_list fl) (fl_method fl) st t ?d)"
    using assms(1) by (intro books_notify) (simp add: desk_ok_def books_ok_def)
  moreover have "distinct (map fl_id (remove1 fl (in_air d)))"
    using assms(1) inj_on_subset [OF _ sub, of fl_id]
    by (simp add: desk_ok_def air_ok_def distinct_map distinct_remove1)
  then have "air_ok (notify (fl_list fl) (fl_method fl) st t ?d)"
    using assms(1) len sub by (auto simp: desk_ok_def air_ok_def)
  ultimately show ?thesis by (simp add: desk_ok_def)
qed

lemma desk_ok_issue:
  assumes "desk_ok d" "issue l meth params t d = (x, d')" "\<And>r. l = Some r \<Longrightarrow> r < next_list d"
  shows "desk_ok d'"
proof (cases "json_dumps_res (JList params)")
  case (Inl e)
  let ?d = "d\<lparr>d_next := d_next d + 1\<rparr>"
  have d': "d' = notify l meth ''ok'' t ?d" using assms(2) Inl by (simp add: issue_def Let_def)
  have "lists_ok d'" unfolding d'
    using assms(1,3) by (intro lists_notify) (auto simp: desk_ok_def lists_ok_def)
  moreover have "books_ok d'" unfolding d'
    using assms(1) by (intro books_notify) (simp add: desk_ok_def books_ok_def)
  moreover have "air_ok d'" unfolding d' using assms(1) by (auto simp: desk_ok_def air_ok_def)
  ultimately show ?thesis by (simp add: desk_ok_def)
next
  case (Inr s)
  let ?fl = "\<lparr>fl_id = d_next d, fl_method = meth, fl_list = l\<rparr>"
  have d': "d' = d\<lparr>d_next := d_next d + 1, d_posted := d_posted d @ [rpc_body (d_next d) meth params],
      in_air := in_air d @ [?fl]\<rparr>" using assms(2) Inr by (simp add: issue_def Let_def)
  have new: "d_next d \<notin> fl_id ` set (in_air d)"
    using assms(1) by (fastforce simp: desk_ok_def air_ok_def)
  have "lists_ok d'" unfolding d' using assms(1,3) by (auto simp: desk_ok_def lists_ok_def)
  moreover have "books_ok d'" unfolding d' using assms(1) by (simp add: desk_ok_def books_ok_def)
  moreover have "air_ok d'" unfolding d' using assms(1) new
    by (auto simp: desk_ok_def air_ok_def sorted_wrt_append)
  ultimately show ?thesis by (simp add: desk_ok_def)
qed

lemma desk_ok_enter:
  assumes "desk_ok d" "enter_request d = (r, d')"
  shows "desk_ok d'"
proof -
  have d': "d' = d\<lparr>next_list := next_list d + 1, method_lists := (method_lists d)(next_list d := [])\<rparr>"
    using assms(2) by (auto simp: enter_request_def)
  have "own_methods (next_list d) (heard d) = []"
    using assms(1) unfolding own_methods_def by (force simp: desk_ok_def lists_ok_def filter_empty_conv)
  then have "lists_ok d'" unfolding d' using assms(1) by (auto simp: desk_ok_def lists_ok_def less_Suc_eq)
  moreover have "books_ok d'" "air_ok d'" unfolding d'
    using assms(1) by (simp_all add: desk_ok_def books_ok_def air_ok_def)
  ultimately show ?thesis by (simp add: desk_ok_def)
qed

lemma desk_ok_step: "desk_ok d \<Longrightarrow> dstep d d' \<Longrightarrow> desk_ok d'"
  by (erule dstep.cases)
    (auto simp: settle_def abandon_def case_prod_beta intro: desk_ok_enter desk_ok_issue desk_ok_down)

lemma desk_ok_new: "desk_ok new_desk"
  by (simp add: desk_ok_def lists_ok_def air_ok_def books_ok_def new_desk_def own_methods_def calls_counted_def
      new_metrics_def new_counter_def)

interpretation desks: invariant_system "\<lambda>d. d = new_desk" dstep desk_ok
  by unfold_locales (simp add: desk_ok_new, rule desk_ok_step)

lemma heard_grows: "dstep\<^sup>*\<^sup>* d d' \<Longrightarrow> \<exists>news. heard d' = heard d @ news"
proof (induction rule: rtranclp_induct)
  case (step d1 d2)
  from step.hyps(2) have "\<exists>news. heard d2 = heard d1 @ news"
    by cases (auto simp: enter_request_def issue_def settle_def abandon_def Let_def case_prod_beta split: sum.splits)
  with step.IH show ?case by auto
qed simp

section \<open>A call by itself\<close>

text \<open>What \<open>Upstream\<close> sees of the client.\<close>

definition world_of :: "desk \<Rightarrow> world" where
  "world_of d = \<lparr>next_id = d_next d, posted = d_posted d, 
     observed = map (\<lambda>(meth, status, l). (meth, status)) (heard d), late = []\<rparr>"

text \<open>Issued and settled at once, a call is \<open>upstream_call\<close>.\<close>

lemma call_is_issue_then_settle:
  "upstream_call meth params net (world_of d) =
     (let (x, d1) = issue l meth params t d in
      case x of
        Inl e \<Rightarrow> (Inl e, world_of d1)
      | Inr fl \<Rightarrow>
          (let (out, d2) = settle fl (reply net (d_posted d1)) t d1 in (out, world_of d2)))"
  by (cases "json_dumps_res (JList params)")
    (simp_all add: upstream_call_def issue_def settle_def world_of_def Let_def case_prod_beta)

section \<open>Properties\<close>


text \<open>Two requests whose calls overlap and end in the other order.\<close>

definition two_requests :: "desk \<times> desk" where
  "two_requests =
     (let (a, d1) = enter_request new_desk; (b, d2) = enter_request d1;
          (x, d3) = issue (Some a) ''eth_chainId'' [] 0 d2; (y, d4) = issue (Some b) ''eth_gasPrice'' [] 0 d3;
          reply = HttpReply 200 (Inr (JObj [(''result'', JStr ''0x1'')]));
          (r1, d5) = settle \<lparr>fl_id = 2, fl_method = ''eth_gasPrice'', fl_list = Some b\<rparr> reply 0 d4;
          (r2, d6) = settle \<lparr>fl_id = 1, fl_method = ''eth_chainId'', fl_list = Some a\<rparr> reply 0 d5 in
      (d1, d6))"

lemma two_requests_run:
  "enter_request new_desk = (0, fst two_requests)" "dstep\<^sup>*\<^sup>* (fst two_requests) (snd two_requests)"
  "heard (snd two_requests) = [(''eth_gasPrice'', ''ok'', Some 1), (''eth_chainId'', ''ok'', Some 0)]"
proof -
  let ?r = "HttpReply 200 (Inr (JObj [(''result'', JStr ''0x1'')]))"
  let ?a = "\<lparr>fl_id = 1, fl_method = ''eth_chainId'', fl_list = Some 0\<rparr>"
  let ?b = "\<lparr>fl_id = 2, fl_method = ''eth_gasPrice'', fl_list = Some 1\<rparr>"
  define d1 where "d1 = snd (enter_request new_desk)"
  define d2 where "d2 = snd (enter_request d1)"
  define d3 where "d3 = snd (issue (Some 0) ''eth_chainId'' [] 0 d2)"
  define d4 where "d4 = snd (issue (Some 1) ''eth_gasPrice'' [] 0 d3)"
  define d5 where "d5 = snd (settle ?b ?r 0 d4)"
  define d6 where "d6 = snd (settle ?a ?r 0 d5)"
  have dump: "json_dumps_res (JList []) = Inr (json_dumps (JList []))"
    by (simp add: json_dumps_res_def del: json_dumps.simps)
  have e: "enter_request new_desk = (0, d1)" "enter_request d1 = (1, d2)"
    by (simp_all add: d1_def d2_def enter_request_def new_desk_def)
  have n: "next_list d2 = 2" "next_list d3 = 2" "d_next d2 = 1" "in_air d2 = []" "heard d2 = []"
    using dump by (simp_all add: d3_def d2_def d1_def enter_request_def new_desk_def issue_def Let_def)
  have i1: "issue (Some 0) ''eth_chainId'' [] 0 d2 = (Inr ?a, d3)" "in_air d3 = [?a]" "d_next d3 = 2" "heard d3 = []"
    using n dump by (simp_all add: d3_def issue_def Let_def)
  have i2: "issue (Some 1) ''eth_gasPrice'' [] 0 d3 = (Inr ?b, d4)" "in_air d4 = [?a, ?b]" "heard d4 = []"
    using i1 n dump by (simp_all add: d4_def issue_def Let_def)
  have out: "read_outcome ?r = (''ok'', Inr (JStr ''0x1''))"
    by (simp add: read_outcome_def read_payload_def)
  have s1: "settle ?b ?r 0 d4 = (Inr (JStr ''0x1''), d5)" "in_air d5 = [?a]" "heard d5 = [(''eth_gasPrice'', ''ok'', Some 1)]"
    using i2 out by (simp_all add: d5_def settle_def)
  have s2: "settle ?a ?r 0 d5 = (Inr (JStr ''0x1''), d6)"
    "heard d6 = [(''eth_gasPrice'', ''ok'', Some 1), (''eth_chainId'', ''ok'', Some 0)]"
    using s1 out by (simp_all add: d6_def settle_def)
  have two: "two_requests = (d1, d6)"
    using e i1(1) i2(1) s1(1) s2(1) by (simp add: two_requests_def Let_def)
  have "dstep d1 d2" using e(2) by (rule enters)
  moreover have "dstep d2 d3" by (rule issues [OF i1(1)]) (simp add: n)
  moreover have "dstep d3 d4" by (rule issues [OF i2(1)]) (simp add: n)
  moreover have "dstep d4 d5" by (rule settles [OF _ s1(1)]) (simp add: i2)
  moreover have "dstep d5 d6" by (rule settles [OF _ s2(1)]) (simp add: s1)
  ultimately have "dstep\<^sup>*\<^sup>* d1 d6" by (meson rtranclp.rtrancl_into_rtrancl rtranclp.rtrancl_refl)
  then show "enter_request new_desk = (0, fst two_requests)" "dstep\<^sup>*\<^sup>* (fst two_requests) (snd two_requests)"
    "heard (snd two_requests) = [(''eth_gasPrice'', ''ok'', Some 1), (''eth_chainId'', ''ok'', Some 0)]"
    using e(1) s2(2) by (simp_all add: two)
qed


end
