(* ===== verification/Spec2Isabelle.thy ===== *)
theory Spec2Isabelle
  imports Startup Served Backoff InFlight
begin

text \<open>
  A REST proxy in front of an Ethereum execution client. A request comes in over HTTP, is checked and
  converted, costs some JSON-RPC calls to the client (the upstream), and is answered with converted
  JSON, raw bytes, a problem body or a stream of server-sent events. Next to the request handlers a
  WebSocket connection to the upstream carries the subscriptions the streams share, and a task follows
  the head of the chain. The theories follow the modules under \<open>src/src/exec_rest_api\<close>, one or a few
  modules each, and keep the names of its functions where they can (a name Isabelle has taken gets a
  suffix, \<open>pending_event_full\<close> stands for \<open>_pending_event_full\<close>).

  \<^bold>\<open>Foundations.\<close>
  \<^item> \<open>Prelude\<close>: exceptions as the left of a sum, sequencing and catching, comprehensions whose body may
    raise, and three interfaces as locales: a codec whose decoder undoes its encoder, a transition
    system with an invariant, and the refinement of one transition system by another.
  \<^item> \<open>PyText\<close>, \<open>PyValue\<close>: Python's strings, decimal and hexadecimal numerals with the limit of 4300 digits
    on conversions, JSON values as \<open>json.loads\<close> gives them, dictionaries in insertion order, the
    exceptions by class, and \<open>int\<close>, \<open>str\<close> and \<open>repr\<close>.
  \<^item> \<open>Bytes\<close>, \<open>JsonText\<close>: UTF-8, base64url and the JSON text format with printer and parser, as codecs.
    The parsers recurse on fuel, the length of the input, and the lemmas \<open>..._no_fuel_err\<close> show that it
    never runs out.

  \<^bold>\<open>Conversions.\<close>
  \<^item> \<open>Encoding\<close> (\<open>encoding.py\<close>, \<open>delegation.py\<close>), \<open>BlockId\<close> (\<open>block_id.py\<close>), \<open>Cursor\<close> (\<open>cursor.py\<close>), \<open>Errors\<close>
    (\<open>errors.py\<close>), \<open>AbiRevert\<close> (\<open>abi_revert.py\<close>), \<open>ContentNeg\<close> (\<open>content_neg.py\<close>), \<open>Shapes\<close> (the
    converters of \<open>handlers/transactions.py\<close>, \<open>handlers/blocks.py\<close>, \<open>handlers/accounts.py\<close>), \<open>Config\<close>
    (\<open>config.py\<close>, with the standard library's \<open>argparse\<close> for the options declared). Their lemmas are
    round trips, the exact grammar a parser accepts, the type of what a converter returns, and the
    exceptions each may raise.

  \<^bold>\<open>The upstream and the handlers.\<close>
  \<^item> \<open>Upstream\<close> (\<open>upstream.py\<close>, \<open>block_resolve.py\<close>): a computation takes the upstream (a parameter: any
    function from the requests posted so far to an HTTP outcome) and the client's state (the next id,
    the requests posted, the outcomes observed) and returns a result or an exception with the next
    state. \<open>asyncio.gather\<close> issues its calls in order, the upstream chooses the order in which they end, and what ends
    after the first failure is observed late.
    The locale \<open>io_relation\<close> carries a relation on the client's states through every handler; its
    interpretation \<open>history\<close> is the discipline of the request ids.
  \<^item> \<open>Pagination\<close> (\<open>pagination.py\<close>): the loop over chunks of blocks, with a termination proof; against an
    upstream that holds a finite chain it returns exactly the matching logs.
  \<^item> \<open>Requests\<close> (requests, bodies and the handlers of \<open>handlers/transactions.py\<close>), \<open>BlocksApi\<close> (those of
    \<open>handlers/blocks.py\<close> and \<open>handlers/accounts.py\<close>), \<open>ComputedApi\<close> (\<open>handlers/computed.py\<close>), \<open>LogsApi\<close>
    (\<open>handlers/logs.py\<close>), \<open>TracesApi\<close> (\<open>handlers/traces.py\<close>), \<open>ChainApi\<close> (\<open>handlers/chain.py\<close>,
    \<open>handlers/gas.py\<close>, \<open>handlers/health.py\<close>, \<open>handlers/utils_keccak.py\<close>): one definition per handler,
    every early return and exception a branch. \<open>Crawl\<close> follows the links of \<open>/logs\<close>,
    \<open>/logs/search\<close>, \<open>/traces\<close> and \<open>/traces/search\<close> to the last page, over the locale \<open>linked_pages\<close>.
  \<^item> \<open>InFlight\<close>: the calls of several requests at once, taken apart at their await; a call that is issued and
    settled at once is that of \<open>Upstream\<close> (lemma \<open>call_is_issue_then_settle\<close>), and no interleaving mixes up
    ids or the methods noted for each request (interpretation \<open>desks\<close>).

  \<^bold>\<open>Metrics and streams.\<close>
  \<^item> \<open>Metrics\<close> (\<open>metrics.py\<close>): the registry as a value and its text form. Durations and sums are rational
    numbers where the code has floats.
  \<^item> \<open>Sse\<close> (\<open>sse.py\<close>): frames, and the heartbeat wrapper as a function of what its source does next.
  \<^item> \<open>Subscriptions\<close> (\<open>subscriptions.py\<close>): the multiplexer as a step relation on a state with a store of
    slots, because the two dictionaries and the consumers share them. A step is the code between two
    awaits; the lock and who waits under it are part of the state. \<open>mgr_ok\<close> holds in every reachable
    state (interpretation \<open>mux\<close> of \<open>invariant_system\<close>).
  \<^item> \<open>Hub\<close>: what the multiplexer promises, as a hub of topics with members, routes and inboxes. The steps are
    replayed as a machine of operations, the abstraction \<open>hub_of\<close> forgets slots, references, the lock and
    the counters, and every operation in a reachable state is one of the hub (interpretation \<open>hubs\<close> of
    \<open>refinement\<close>). From the hub come the order and completeness of what a reader receives; that the lock
    is always given back is shown of the manager.
  \<^item> \<open>UpstreamWs\<close> (\<open>upstream_ws.py\<close>): requests, frames and the connecting, reading and sleeping background
    task as steps, around the listener, which is the multiplexer (interpretation \<open>wsys\<close>). \<open>Backoff\<close>: its persistence through outages
    (interpretation \<open>tries\<close>).
  \<^item> \<open>ChainHead\<close> (\<open>chain_head.py\<close>): the tracker over the events it receives or the polls it makes.
  \<^item> \<open>Streams\<close> (\<open>handlers/streams.py\<close>): the driver of the four streams, on the client (writes that may
    fail, a buffer that may fill) and the events that arrive. The locale \<open>sio_relation\<close> carries a
    relation through the driver and the replays; its interpretations are the books (gauge and
    subscription) and the request history.

  \<^bold>\<open>The process.\<close>
  \<^item> \<open>Server\<close> (\<open>server.py\<close>, \<open>handlers/metrics.py\<close>, the route tables): the middlewares
    around the handler of the route, and sequences of requests. The router is the web framework's: a
    function from a request to a route of the table or to one of its errors. \<open>stream_relation\<close> extends
    \<open>sio_relation\<close> to whole streams, so that what holds of every handler holds of every request.
  \<^item> \<open>Wiring\<close>: the WebSocket client, the multiplexer and the streams composed as \<open>_run\<close> composes them: the
    way of a notification from the socket to a client, what a client sees of its topic over a whole run,
    and what a reconnect leaves behind.
  \<^item> \<open>Served\<close>: the linked pages of \<open>Crawl\<close> behind the router and the middlewares (locale \<open>served_pages\<close>, a
    sublocale of \<open>linked_pages\<close> over the process): what a client of the API gets over HTTP.

  \<^item> \<open>Startup\<close> (\<open>__main__.py\<close>): the set-up of logging, and start, service and stop of the process as a script of
    actions, whose outcomes (sockets, signals, the WebSocket within its five seconds) are parameters.

  \<^bold>\<open>What is not modelled.\<close> Where log lines are written, sockets, signals and the HTTP session but for their outcomes; the durations of calls
  (parameters of the server); what other requests do between two calls of one handler (\<open>InFlight\<close> has the calls of
  several requests interleaved, \<open>Served\<close> lets anything happen between two requests of a client); the
  code points from 256 on in parsed strings beyond what \<open>JUni\<close> keeps of them; the encoding error of a
  lone surrogate in an event's id; what a header set on a stream after its first byte does (nothing).
  A request that is cancelled is modelled where the code reacts to it.
\<close>

end
